(* ===== verification/Prelude.thy ===== *)
theory Prelude
  imports Main "HOL-Library.Word" "HOL-Library.Monad_Syntax"
begin

text \<open>
  Shared vocabulary of the ouiche_fs development: the C integer types, bounds-checked
  arrays, the byte copies of the C library, and the list facts the components use.

  Conventions.
  \<^item> A signed C variable (\<open>int\<close>, \<open>loff_t\<close>, \<open>ssize_t\<close>) is an \<open>int\<close>; an unsigned one
    (\<open>uint32_t\<close>, \<open>size_t\<close>, \<open>unsigned long\<close>) is a \<open>nat\<close>. Where the code converts or where an
    operation can leave the width, the wrap-around is written out with \<open>s32\<close>, \<open>u32\<close>, \<open>u64\<close>.
  \<^item> A function whose C counterpart can touch memory outside an object, or loop forever,
    has an \<open>option\<close> result: \<open>None\<close> is that undefined outcome, never an error return. Error
    returns are the negative values the code returns.
\<close>

unbundle bit_operations_syntax

section \<open>Types and collections of rules\<close>

type_synonym byte = "8 word"
type_synonym u32_word = "32 word"

named_theorems width_simps \<open>conversions between C integer types that do not change the value\<close>
named_theorems arr_simps \<open>bounds-checked array accesses that are in range\<close>

section \<open>C integer conversions\<close>

definition s32 :: "int \<Rightarrow> int" where
  "s32 x = (x + 2 ^ 31) mod 2 ^ 32 - 2 ^ 31"

definition u32 :: "int \<Rightarrow> nat" where
  "u32 x = nat (x mod 2 ^ 32)"

definition u64 :: "int \<Rightarrow> nat" where
  "u64 x = nat (x mod 2 ^ 64)"

lemma s32_id [width_simps]: "\<lbrakk>-2147483648 \<le> x; x < 2147483648\<rbrakk> \<Longrightarrow> s32 x = x"
  by (simp add: s32_def)

lemma s32_range: "- (2 ^ 31) \<le> s32 x \<and> s32 x < 2 ^ 31"
proof -
  have "0 \<le> (x + 2 ^ 31) mod 2 ^ 32" "(x + 2 ^ 31) mod 2 ^ 32 < (2 :: int) ^ 32"
    by simp_all
  then show ?thesis by (simp add: s32_def)
qed

lemma u32_id [width_simps]: "\<lbrakk>0 \<le> x; x < 4294967296\<rbrakk> \<Longrightarrow> u32 x = nat x"
  by (simp add: u32_def)

lemma u64_id [width_simps]: "\<lbrakk>0 \<le> x; x < 18446744073709551616\<rbrakk> \<Longrightarrow> u64 x = nat x"
  by (simp add: u64_def)

lemma u32_less: "u32 x < 2 ^ 32"
  by (simp add: u32_def nat_less_iff)

text \<open>\<open>idiv_ceil\<close> of write.c: the quotient, plus one when the division leaves a remainder.\<close>

definition idiv_ceil :: "nat \<Rightarrow> nat \<Rightarrow> nat" where
  "idiv_ceil a b = (let ret = a div b in if a mod b \<noteq> 0 then (ret + 1) mod 2 ^ 32 else ret)"

lemma idiv_ceil_less:
  fixes a b :: nat
  assumes a: "a < 2 ^ 32" and b: "1 < b"
  shows "a div b + 1 < 2 ^ 32"
proof -
  have "a div b \<le> a div 2"
    using b by (simp add: div_le_mono2)
  with a show ?thesis by simp
qed

text \<open>The quotient is the least one that covers \<open>a\<close>: the meaning of ``ceiling''.\<close>

lemma idiv_ceil_covers: "\<lbrakk>a < 2 ^ 32; 1 < b\<rbrakk> \<Longrightarrow> a \<le> idiv_ceil a b * b"
proof -
  assume a: "a < 2 ^ 32" and b: "1 < b"
  have eq: "a = a div b * b + a mod b" by simp
  have lt: "a mod b < b" using b by simp
  show ?thesis
  proof (cases "a mod b = 0")
    case True
    with eq show ?thesis by (simp add: idiv_ceil_def)
  next
    case False
    have "a \<le> a div b * b + b" using eq lt by linarith
    with False idiv_ceil_less [OF a b] show ?thesis by (simp add: idiv_ceil_def Let_def)
  qed
qed

lemma idiv_ceil_least: "\<lbrakk>a < 2 ^ 32; 1 < b; a \<le> k * b\<rbrakk> \<Longrightarrow> idiv_ceil a b \<le> k"
proof -
  assume a: "a < 2 ^ 32" and b: "1 < b" and k: "a \<le> k * b"
  have le: "a div b \<le> k"
    using k b by (metis div_le_mono nonzero_mult_div_cancel_right not_one_less_zero)
  show ?thesis
  proof (cases "a mod b = 0")
    case True
    with le show ?thesis by (simp add: idiv_ceil_def)
  next
    case False
    have eq: "a = a div b * b + a mod b" by simp
    have "a div b \<noteq> k"
      using k False eq by (metis add_le_same_cancel1 le_zero_eq)
    with le False idiv_ceil_less [OF a b] show ?thesis by (simp add: idiv_ceil_def Let_def)
  qed
qed

section \<open>Bounds-checked arrays\<close>

text \<open>A read or write of \<open>a[i]\<close> in C; an index outside the object is undefined behaviour.\<close>

definition arr :: "'a list \<Rightarrow> int \<Rightarrow> 'a option" where
  "arr xs i = (if 0 \<le> i \<and> i < int (length xs) then Some (xs ! nat i) else None)"

definition arr_set :: "'a list \<Rightarrow> int \<Rightarrow> 'a \<Rightarrow> 'a list option" where
  "arr_set xs i v = (if 0 \<le> i \<and> i < int (length xs) then Some (xs[nat i := v]) else None)"

lemma arr_in [arr_simps]: "\<lbrakk>0 \<le> i; i < int (length xs)\<rbrakk> \<Longrightarrow> arr xs i = Some (xs ! nat i)"
  by (simp add: arr_def)

lemma arr_int [arr_simps]: "i < length xs \<Longrightarrow> arr xs (int i) = Some (xs ! i)"
  by (simp add: arr_def)

lemma arr_set_in [arr_simps]:
  "\<lbrakk>0 \<le> i; i < int (length xs)\<rbrakk> \<Longrightarrow> arr_set xs i v = Some (xs[nat i := v])"
  by (simp add: arr_set_def)

lemma arr_set_int [arr_simps]: "i < length xs \<Longrightarrow> arr_set xs (int i) v = Some (xs[i := v])"
  by (simp add: arr_set_def)

lemma arr_SomeD: "arr xs i = Some x \<Longrightarrow> 0 \<le> i \<and> i < int (length xs) \<and> x = xs ! nat i"
  by (auto simp: arr_def split: if_splits)

lemma arr_set_SomeD:
  "arr_set xs i v = Some ys \<Longrightarrow> 0 \<le> i \<and> i < int (length xs) \<and> ys = xs[nat i := v]"
  by (auto simp: arr_set_def split: if_splits)

section \<open>Byte copies\<close>

text \<open>
  \<open>mem_read b off n\<close> is the source of a \<open>memcpy(_, b + off, n)\<close>, and \<open>mem_write b off ys\<close>
  the destination after a \<open>memcpy(b + off, ys, length ys)\<close>. Both are \<open>None\<close> when the range
  leaves the buffer.
\<close>

definition mem_read :: "'a list \<Rightarrow> int \<Rightarrow> nat \<Rightarrow> 'a list option" where
  "mem_read b off n =
     (if 0 \<le> off \<and> off + int n \<le> int (length b) then Some (take n (drop (nat off) b)) else None)"

definition overlay :: "'a list \<Rightarrow> nat \<Rightarrow> 'a list \<Rightarrow> 'a list" where
  "overlay b off ys = take off b @ ys @ drop (off + length ys) b"

definition mem_write :: "'a list \<Rightarrow> int \<Rightarrow> 'a list \<Rightarrow> 'a list option" where
  "mem_write b off ys =
     (if 0 \<le> off \<and> off + int (length ys) \<le> int (length b) then Some (overlay b (nat off) ys)
      else None)"

lemma mem_read_in [arr_simps]:
  "\<lbrakk>0 \<le> off; off + int n \<le> int (length b)\<rbrakk> \<Longrightarrow> mem_read b off n = Some (take n (drop (nat off) b))"
  by (simp add: mem_read_def)

lemma mem_write_in [arr_simps]:
  "\<lbrakk>0 \<le> off; off + int (length ys) \<le> int (length b)\<rbrakk> \<Longrightarrow>
   mem_write b off ys = Some (overlay b (nat off) ys)"
  by (simp add: mem_write_def)

lemma length_overlay [simp]: "off + length ys \<le> length b \<Longrightarrow> length (overlay b off ys) = length b"
  by (simp add: overlay_def)

lemma overlay_Nil [simp]: "overlay b off [] = b"
  by (simp add: overlay_def)

lemma take_overlay: "off + length ys \<le> length b \<Longrightarrow> take (off + length ys) (overlay b off ys) = take off b @ ys"
  by (simp add: overlay_def)

lemma take_overlay_le: "\<lbrakk>k \<le> off; off \<le> length b\<rbrakk> \<Longrightarrow> take k (overlay b off ys) = take k b"
  by (simp add: overlay_def min_def)

lemma drop_overlay:
  "\<lbrakk>off + length ys \<le> length b; k = off + length ys\<rbrakk> \<Longrightarrow> drop k (overlay b off ys) = drop k b"
  by (simp add: overlay_def)

section \<open>Lists\<close>

lemma nth_split: "i < length xs \<Longrightarrow> xs = take i xs @ xs ! i # drop (Suc i) xs"
  by (rule id_take_nth_drop)

lemma concat_map_split:
  "i < length xs \<Longrightarrow>
   concat (map f xs) = concat (map f (take i xs)) @ f (xs ! i) @ concat (map f (drop (Suc i) xs))"
  by (subst nth_split [of i xs]) simp_all

lemma length_concat_blocks: "\<forall>b \<in> set bs. length b = c \<Longrightarrow> length (concat bs) = c * length bs"
  by (induction bs) simp_all

text \<open>A list of blocks of the same length as one array: the part from an offset on, and an update inside a block.\<close>

lemma drop_concat_blocks:
  assumes "\<forall>b \<in> set bs. length b = c" "i < length bs" "p \<le> c"
  shows "drop (c * i + p) (concat bs) = drop p (bs ! i) @ drop (c * Suc i) (concat bs)"
proof -
  have s: "concat bs = concat (take i bs) @ bs ! i @ concat (drop (Suc i) bs)"
    using assms(2) concat_map_split [of i bs id] by (simp add: map_idI)
  have l: "length (concat (take i bs)) = c * i" "length (bs ! i) = c"
    using assms length_concat_blocks [of "take i bs" c] by (auto dest: in_set_takeD)
  have "drop (c * Suc i) (concat bs) = concat (drop (Suc i) bs)" by (subst s) (simp add: l)
  moreover have "drop (c * i + p) (concat bs) = drop p (bs ! i) @ concat (drop (Suc i) bs)"
    using assms(3) by (subst s) (simp add: l)
  ultimately show ?thesis by simp
qed

lemma concat_update_block:
  assumes "\<forall>b \<in> set bs. length b = c" "i < length bs" "p + length ys \<le> c"
  shows "concat (bs[i := overlay (bs ! i) p ys]) = overlay (concat bs) (c * i + p) ys"
proof -
  have s: "concat bs = concat (take i bs) @ bs ! i @ concat (drop (Suc i) bs)"
    using assms(2) concat_map_split [of i bs id] by (simp add: map_idI)
  have l: "length (concat (take i bs)) = c * i" "length (bs ! i) = c"
    using assms length_concat_blocks [of "take i bs" c] by (auto dest: in_set_takeD)
  have "concat (bs[i := x]) = concat (take i bs) @ x @ concat (drop (Suc i) bs)" for x
    using assms(2) by (simp add: upd_conv_take_nth_drop)
  then show ?thesis by (subst s) (use assms(3) l in \<open>simp add: overlay_def\<close>)
qed

lemma sum_list_int_nonneg: "\<forall>x \<in> set xs. 0 \<le> f x \<Longrightarrow> 0 \<le> sum_list (map (f :: _ \<Rightarrow> int) xs)"
  by (induction xs) auto

lemma sum_list_zero_iff:
  "\<forall>x \<in> set xs. 0 \<le> f x \<Longrightarrow>
   (sum_list (map (f :: _ \<Rightarrow> int) xs) = 0) = (\<forall>x \<in> set xs. f x = 0)"
proof (induction xs)
  case (Cons x xs)
  then have "0 \<le> sum_list (map f xs)" by (simp add: sum_list_int_nonneg)
  with Cons show ?case by (auto simp: add_nonneg_eq_0_iff)
qed simp

lemma ex4I: "P a b c d \<Longrightarrow> \<exists>a b c d. P a b c d"
  by blast

end
