(* ===== verification/Entry.thy ===== *)
theory Entry
  imports Prelude
begin

text \<open>
  The 32-bit entries of a file's index block (bitmap.h, ouichefs.h): the low 19 bits hold
  the number of a data block, the next 12 bits hold its size minus one, and the top bit says
  that the block is not empty. A zero entry is an unallocated slot.
\<close>

section \<open>The masks and the accessors\<close>

type_synonym entry = u32_word

definition OUICHEFS_BLOCK_SIZE :: nat where "OUICHEFS_BLOCK_SIZE = 4096"
definition OUICHEFS_MAX_FILESIZE :: nat where "OUICHEFS_MAX_FILESIZE = 4194304"
definition MASK_BLOCK_SIZE :: entry where "MASK_BLOCK_SIZE = 0x7ff80000"
definition MASK_BLOCK_NUM :: entry where "MASK_BLOCK_NUM = 0x0007ffff"
definition MASK_BLOCK_FLAG :: entry where "MASK_BLOCK_FLAG = 0x80000000"

definition get_block_number :: "entry \<Rightarrow> nat" where
  "get_block_number block = unat (block AND MASK_BLOCK_NUM)"

definition block_empty :: "entry \<Rightarrow> bool" where
  "block_empty block \<longleftrightarrow> \<not> (block AND MASK_BLOCK_FLAG = MASK_BLOCK_FLAG)"

definition get_block_size :: "entry \<Rightarrow> int" where
  "get_block_size block =
     (if block_empty block then 0
      else let temp = block AND MASK_BLOCK_SIZE in uint (drop_bit 19 temp) + 1)"

definition set_block_size :: "entry \<Rightarrow> int \<Rightarrow> entry" where
  "set_block_size block sz =
     (let sz = min sz 4096 in
      if sz > 0 then
        (let block = block OR MASK_BLOCK_FLAG;
             block = block AND NOT MASK_BLOCK_SIZE;
             sz = sz - 1
         in block OR push_bit 19 (word_of_int sz))
      else block AND NOT (MASK_BLOCK_FLAG OR MASK_BLOCK_SIZE))"

definition set_block_number :: "entry \<Rightarrow> nat \<Rightarrow> entry" where
  "set_block_number block bno = (block AND NOT MASK_BLOCK_NUM) OR word_of_nat bno"

definition sub_block_size :: "entry \<Rightarrow> int \<Rightarrow> entry" where
  "sub_block_size block val = set_block_size block (get_block_size block - val)"

definition add_block_size :: "entry \<Rightarrow> int \<Rightarrow> entry" where
  "add_block_size block val = set_block_size block (get_block_size block + val)"

lemmas block_size_nums = OUICHEFS_BLOCK_SIZE_def OUICHEFS_MAX_FILESIZE_def

section \<open>The fields as bit ranges\<close>

lemma mask_num_eq: "MASK_BLOCK_NUM = mask 19"
  by (simp add: MASK_BLOCK_NUM_def mask_eq_exp_minus_1)

lemma mask_size_eq: "MASK_BLOCK_SIZE = push_bit 19 (mask 12)"
  by (simp add: MASK_BLOCK_SIZE_def mask_eq_exp_minus_1 push_bit_eq_mult)

lemma mask_flag_eq: "MASK_BLOCK_FLAG = 2 ^ 31"
  by (simp add: MASK_BLOCK_FLAG_def)

lemma bit_masks:
  "bit MASK_BLOCK_NUM n \<longleftrightarrow> n < 19"
  "bit MASK_BLOCK_SIZE n \<longleftrightarrow> 19 \<le> n \<and> n < 31"
  "bit MASK_BLOCK_FLAG n \<longleftrightarrow> n = 31"
  by (auto simp: mask_num_eq mask_size_eq mask_flag_eq bit_simps simp del: push_bit_of_1 power_numeral)

lemma block_empty_iff: "block_empty e \<longleftrightarrow> \<not> bit e 31"
proof -
  have "(e AND MASK_BLOCK_FLAG = MASK_BLOCK_FLAG) = (\<forall>n < 32. bit MASK_BLOCK_FLAG n \<longrightarrow> bit e n)"
    by (subst bit_eq_iff) (auto simp: bit_and_iff)
  then show ?thesis by (simp add: block_empty_def bit_masks)
qed

lemma get_block_number_take_bit: "get_block_number e = unat (take_bit 19 e)"
  by (simp add: get_block_number_def mask_num_eq take_bit_eq_mask)

lemma size_field_eq: "drop_bit 19 (e AND MASK_BLOCK_SIZE) = take_bit 12 (drop_bit 19 e)"
  by (rule bit_word_eqI) (auto simp: bit_simps bit_masks)

lemma get_block_size_eq:
  "get_block_size e = (if bit e 31 then uint (take_bit 12 (drop_bit 19 e)) + 1 else 0)"
  unfolding get_block_size_def Let_def size_field_eq block_empty_iff by simp

lemma get_block_number_less: "get_block_number e < 2 ^ 19"
proof -
  have "take_bit 19 (unat e) < 2 ^ 19" by (rule take_bit_nat_less_exp)
  then show ?thesis by (simp add: get_block_number_take_bit unsigned_take_bit_eq)
qed

lemma size_field_bounds: "uint (take_bit 12 (drop_bit 19 (e :: entry))) < 4096"
proof -
  have "take_bit 12 (uint (drop_bit 19 e)) < 2 ^ 12" by (rule take_bit_int_less_exp)
  then show ?thesis by (simp add: unsigned_take_bit_eq)
qed

lemma get_block_size_nonneg [simp]: "0 \<le> get_block_size e"
  by (simp add: get_block_size_eq)

lemma get_block_size_le: "get_block_size e \<le> 4096"
  using size_field_bounds [of e] by (simp add: get_block_size_eq)

lemma get_block_size_zero_iff: "get_block_size e = 0 \<longleftrightarrow> block_empty e"
proof -
  have "0 \<le> uint (take_bit 12 (drop_bit 19 e))" by simp
  then have "uint (take_bit 12 (drop_bit 19 e)) + 1 \<noteq> 0" by linarith
  then show ?thesis by (simp add: get_block_size_eq block_empty_iff)
qed

lemma get_block_zero [simp]: "get_block_size 0 = 0" "get_block_number 0 = 0"
  by (simp_all add: get_block_size_eq get_block_number_def)

section \<open>Set, then get\<close>

lemma bit_imp_less: "b < 2 ^ k \<Longrightarrow> bit (b :: nat) n \<Longrightarrow> n < k"
  by (metis bit_take_bit_iff take_bit_nat_eq_self)

lemma bit_int_imp_less: "\<lbrakk>0 \<le> b; b < 2 ^ k\<rbrakk> \<Longrightarrow> bit (b :: int) n \<Longrightarrow> n < k"
  by (metis bit_take_bit_iff take_bit_int_eq_self)

lemma bit_number_word: "b < 2 ^ 19 \<Longrightarrow> bit (word_of_nat b :: entry) n \<longleftrightarrow> n < 19 \<and> bit b n"
  using bit_imp_less [of b 19 n] by (auto simp: bit_simps)

lemma bit_size_word:
  "\<lbrakk>0 \<le> k; k < 4096\<rbrakk> \<Longrightarrow> bit (push_bit 19 (word_of_int k :: entry)) n \<longleftrightarrow> 19 \<le> n \<and> n < 31 \<and> bit k (n - 19)"
  using bit_int_imp_less [of k 12 "n - 19"] by (auto simp: bit_simps)

lemma bit_set_block_size:
  "bit (set_block_size e sz) n \<longleftrightarrow>
     (if n < 19 then bit e n
      else if n = 31 then 0 < sz
      else n < 31 \<and> 0 < sz \<and> bit (min sz 4096 - 1) (n - 19))"
proof (cases "0 < sz")
  case True
  then have k: "0 \<le> min sz 4096 - 1" "min sz 4096 - 1 < 4096" by auto
  from True have "set_block_size e sz =
      ((e OR MASK_BLOCK_FLAG) AND NOT MASK_BLOCK_SIZE) OR push_bit 19 (word_of_int (min sz 4096 - 1))"
    by (simp add: set_block_size_def Let_def)
  then show ?thesis
    unfolding bit_or_iff bit_and_iff bit_size_word [OF k] \<open>set_block_size e sz = _\<close>
    using True by (auto simp: bit_not_iff bit_masks dest: bit_imp_le_length)
next
  case False
  then show ?thesis
    by (auto simp: set_block_size_def bit_or_iff bit_and_iff bit_not_iff bit_masks min_def
        dest: bit_imp_le_length)
qed

lemma get_block_number_set_block_size [simp]:
  "get_block_number (set_block_size e sz) = get_block_number e"
proof -
  have "take_bit 19 (set_block_size e sz) = take_bit 19 e"
    by (rule bit_word_eqI) (auto simp: bit_simps bit_set_block_size)
  then show ?thesis by (simp add: get_block_number_take_bit)
qed

lemma get_block_size_set_block_size [simp]:
  "get_block_size (set_block_size e sz) = max 0 (min sz 4096)"
proof (cases "0 < sz")
  case True
  define k where "k = min sz 4096 - 1"
  have k: "0 \<le> k" "k < 4096" using True by (auto simp: k_def)
  have "take_bit 12 (drop_bit 19 (set_block_size e sz)) = (word_of_int k :: entry)"
  proof (rule bit_word_eqI)
    fix n assume n: "n < LENGTH(32)"
    have "bit k n \<Longrightarrow> n < 12" using k bit_int_imp_less [of k 12 n] by simp
    with True n show "bit (take_bit 12 (drop_bit 19 (set_block_size e sz))) n = bit (word_of_int k :: entry) n"
      unfolding bit_take_bit_iff bit_drop_bit_eq comp_def bit_set_block_size bit_word_of_int_iff
        k_def [symmetric]
      by auto
  qed
  moreover have "uint (word_of_int k :: entry) = k"
    using k by (simp add: uint_word_of_int)
  ultimately show ?thesis
    using True by (simp add: get_block_size_eq bit_set_block_size k_def)
next
  case False
  then show ?thesis by (simp add: get_block_size_eq bit_set_block_size)
qed

lemma get_set_block_number:
  assumes "b < 2 ^ 19"
  shows "get_block_number (set_block_number e b) = b"
    and "get_block_size (set_block_number e b) = get_block_size e"
proof -
  note bits = bit_number_word [OF assms]
  have "take_bit 19 (set_block_number e b) = word_of_nat b"
    by (rule bit_word_eqI)
      (auto simp: set_block_number_def bit_take_bit_iff bit_or_iff bit_and_iff bit_not_iff bit_masks bits)
  moreover have "unat (word_of_nat b :: entry) = b"
    using assms by (simp add: unat_of_nat)
  ultimately show "get_block_number (set_block_number e b) = b"
    by (simp add: get_block_number_take_bit)
  have "drop_bit 19 (set_block_number e b) = drop_bit 19 e"
    by (rule bit_word_eqI)
      (auto simp: set_block_number_def bit_drop_bit_eq bit_or_iff bit_and_iff bit_not_iff bit_masks
        bits dest: bit_imp_le_length)
  moreover have "bit (set_block_number e b) 31 = bit e 31"
    by (simp add: set_block_number_def bit_or_iff bit_and_iff bit_not_iff bit_masks bits)
  ultimately show "get_block_size (set_block_number e b) = get_block_size e"
    by (simp add: get_block_size_eq)
qed

lemma block_sub_add [simp]:
  "get_block_number (sub_block_size e v) = get_block_number e"
  "get_block_number (add_block_size e v) = get_block_number e"
  "get_block_size (sub_block_size e v) = max 0 (min (get_block_size e - v) 4096)"
  "get_block_size (add_block_size e v) = max 0 (min (get_block_size e + v) 4096)"
  by (simp_all add: sub_block_size_def add_block_size_def)

text \<open>An entry carries nothing beside its number and its size.\<close>

lemma entry_eq_iff:
  assumes "\<not> block_empty e" "\<not> block_empty e'"
  shows "e = e' \<longleftrightarrow> get_block_number e = get_block_number e' \<and> get_block_size e = get_block_size e'"
proof
  assume eq: "get_block_number e = get_block_number e' \<and> get_block_size e = get_block_size e'"
  have lo: "take_bit 19 e = take_bit 19 e'"
    using eq by (simp add: get_block_number_take_bit word_unat_eq_iff)
  have hi: "take_bit 12 (drop_bit 19 e) = take_bit 12 (drop_bit 19 e')"
    using eq assms by (simp add: get_block_size_eq block_empty_iff word_uint_eq_iff)
  show "e = e'"
  proof (rule bit_word_eqI)
    fix n assume n: "n < LENGTH(32)"
    consider "n < 19" | "19 \<le> n" "n < 31" | "n = 31" using n by fastforce
    then show "bit e n = bit e' n"
    proof cases
      case 1
      then show ?thesis using arg_cong [OF lo, of "\<lambda>w. bit w n"] by (simp add: bit_simps)
    next
      case 2
      then have "n - 19 < 12" by arith
      with 2 show ?thesis using arg_cong [OF hi, of "\<lambda>w. bit w (n - 19)"] by (simp add: bit_simps)
    next
      case 3
      then show ?thesis using assms by (simp add: block_empty_iff)
    qed
  qed
qed simp

text \<open>A fresh slot: the number is stored, the size field stays zero, the entry is not zero.\<close>

definition fresh_entry :: "nat \<Rightarrow> entry" where
  "fresh_entry b = set_block_size (set_block_number 0 b) 0"

lemma fresh_entry_fields:
  assumes "b < 2 ^ 19"
  shows "get_block_number (fresh_entry b) = b" and "get_block_size (fresh_entry b) = 0"
  using assms by (simp_all add: fresh_entry_def get_set_block_number)

lemma fresh_entry_raw: "b < 2 ^ 19 \<Longrightarrow> fresh_entry b = word_of_nat b"
  by (rule bit_word_eqI)
    (auto simp: fresh_entry_def bit_set_block_size set_block_number_def bit_or_iff bit_number_word)

lemma fresh_entry_nonzero: "\<lbrakk>0 < b; b < 2 ^ 19\<rbrakk> \<Longrightarrow> fresh_entry b \<noteq> 0"
  using fresh_entry_fields(1) [of b] by auto

section \<open>Properties\<close>

text \<open>
  C40: The accessors treat an entry as a pair of a block number below \<open>2 ^ 19\<close> and a size from 0 to the block
  size: the getters stay in these ranges, storing a size keeps the number and gives the size clamped
  to its range, adding and subtracting sizes saturate, storing a number of 19 bits gives this number
  and keeps the size, and an entry counts as empty exactly when its size is 0.
\<close>

theorem entry_fields:
  "0 \<le> get_block_size e \<and> get_block_size e \<le> 4096 \<and> get_block_number e < 2 ^ 19 \<and>
   (block_empty e \<longleftrightarrow> get_block_size e = 0) \<and>
   get_block_number (set_block_size e sz) = get_block_number e \<and> get_block_size (set_block_size e sz) = max 0 (min sz 4096) \<and>
   get_block_size (add_block_size e sz) = max 0 (min (get_block_size e + sz) 4096) \<and>
   get_block_size (sub_block_size e sz) = max 0 (min (get_block_size e - sz) 4096) \<and>
   (b < 2 ^ 19 \<longrightarrow> get_block_number (set_block_number e b) = b \<and> get_block_size (set_block_number e b) = get_block_size e)"
  using get_block_size_le [of e] get_block_number_less [of e] get_block_size_zero_iff [of e] get_set_block_number [of b e]
  by (intro conjI) simp_all

theorem entry_fields_witness:
  "get_block_number (set_block_number (set_block_size 0 7) 9) = 9 \<and> get_block_size (set_block_number (set_block_size 0 7) 9) = 7"
  using entry_fields [of "set_block_size 0 7" 0 9] entry_fields [of 0 7 9] by simp

text \<open>A number of more bits is not masked and changes the size field.\<close>

lemma set_block_number_spills: "get_block_size (set_block_number (set_block_size 0 1) (2 ^ 19)) = 2"
  by (simp add: get_block_size_def block_empty_def set_block_number_def set_block_size_def MASK_BLOCK_SIZE_def
      MASK_BLOCK_NUM_def MASK_BLOCK_FLAG_def)

end
