(* ===== verification/Disk.thy ===== *)
theory Disk
  imports Entry
begin

text \<open>
  The block layer as the code sees it. A \<open>blockdev\<close> holds for every block number the bytes
  of its buffer, the buffer's dirty flag, and the bytes on the medium. \<open>sb_bread\<close> may fail
  (it then returns NULL): which blocks can be read is part of the environment \<open>kenv\<close>, and so
  are the bytes a user copy leaves uncopied and the current time. Buffer reference counts
  are not modelled (\<open>brelse\<close> has no effect here).

  A structure that the code casts a buffer to is a view of the buffer's bytes: a decoding and
  an encoding that are inverse to each other on whole blocks (locale \<open>block_view\<close>).
\<close>

section \<open>Environment, buffers and medium\<close>

record timespec =
  tv_sec :: int
  tv_nsec :: int

record kenv =
  bread_ok :: "nat \<Rightarrow> bool"          \<comment> \<open>\<open>sb_bread\<close> of this block returns a buffer\<close>
  uncopied :: "nat \<Rightarrow> nat \<Rightarrow> nat"    \<comment> \<open>bytes left uncopied by a user copy at (offset, length)\<close>
  current_time :: timespec
  memcpy_overlap :: "byte list \<Rightarrow> nat \<Rightarrow> nat \<Rightarrow> nat \<Rightarrow> byte list"
    \<comment> \<open>the buffer after \<open>memcpy(b + dst, b + src, n)\<close> when the two ranges overlap\<close>
  iget_locked :: "nat \<Rightarrow> bool option"
    \<comment> \<open>\<open>None\<close>: NULL; \<open>Some True\<close>: a new inode to be filled; \<open>Some False\<close>: one already in the cache\<close>
  kzalloc_ok :: "nat \<Rightarrow> bool"         \<comment> \<open>an allocation of this many bytes succeeds\<close>
  d_make_root_ok :: bool
  init_owner :: "nat option \<Rightarrow> 16 word \<Rightarrow> nat \<times> nat \<times> 16 word"
    \<comment> \<open>user, group and mode that \<open>inode_init_owner\<close> gives an inode created in this directory\<close>

record blockdev =
  bufs :: "nat \<Rightarrow> byte list"
  dirty :: "nat \<Rightarrow> bool"
  media :: "nat \<Rightarrow> byte list"

text \<open>A buffer's bytes are replaced in memory; nothing reaches the medium.\<close>

definition set_buf :: "nat \<Rightarrow> byte list \<Rightarrow> 'a blockdev_scheme \<Rightarrow> 'a blockdev_scheme" where
  "set_buf b bs s = s\<lparr>bufs := (bufs s)(b := bs)\<rparr>"

definition mark_buffer_dirty :: "nat \<Rightarrow> 'a blockdev_scheme \<Rightarrow> 'a blockdev_scheme" where
  "mark_buffer_dirty b s = s\<lparr>dirty := (dirty s)(b := True)\<rparr>"

definition sync_dirty_buffer :: "nat \<Rightarrow> 'a blockdev_scheme \<Rightarrow> 'a blockdev_scheme" where
  "sync_dirty_buffer b s =
     (if dirty s b then s\<lparr>dirty := (dirty s)(b := False), media := (media s)(b := bufs s b)\<rparr>
      else s)"

definition write_back :: "nat \<Rightarrow> 'a blockdev_scheme \<Rightarrow> 'a blockdev_scheme" where
  "write_back b s = sync_dirty_buffer b (mark_buffer_dirty b s)"

text \<open>\<open>copy_from_user\<close> pads what it could not copy with zero bytes.\<close>

definition copy_from_user :: "kenv \<Rightarrow> byte list \<Rightarrow> nat \<Rightarrow> nat \<Rightarrow> nat \<times> byte list" where
  "copy_from_user env buff off len =
     (let r = uncopied env off len
      in (r, take (len - r) (take len (drop off buff)) @ replicate (min r len) 0))"

text \<open>\<open>copy_to_user\<close> stores the first bytes of the source, as many as it could copy.\<close>

definition copy_to_user ::
    "kenv \<Rightarrow> byte list \<Rightarrow> nat \<Rightarrow> byte list \<Rightarrow> nat \<times> byte list" where
  "copy_to_user env ubuf off src =
     (let r = uncopied env off (length src)
      in (r, overlay ubuf off (take (length src - r) src)))"

text \<open>
  \<open>memcpy(b + dst, b + src, n)\<close> inside one buffer. The language leaves the result open when the
  ranges overlap, so that case is the environment's; \<open>ascending_memcpy\<close> describes a \<open>memcpy\<close> that
  copies from low to high addresses, which is right for a destination below the source.
\<close>

definition memcpy_within :: "kenv \<Rightarrow> byte list \<Rightarrow> nat \<Rightarrow> nat \<Rightarrow> nat \<Rightarrow> byte list option" where
  "memcpy_within env b dst src n =
     (if dst + n \<le> length b \<and> src + n \<le> length b
      then Some (if dst + n \<le> src \<or> src + n \<le> dst then overlay b dst (take n (drop src b))
                 else memcpy_overlap env b dst src n)
      else None)"

definition ascending_memcpy :: "kenv \<Rightarrow> bool" where
  "ascending_memcpy env \<longleftrightarrow>
     (\<forall>b dst src n. dst \<le> src \<and> src + n \<le> length b \<longrightarrow>
        memcpy_overlap env b dst src n = overlay b dst (take n (drop src b)))"

lemma memcpy_within_ascending:
  "\<lbrakk>ascending_memcpy env; dst \<le> src; src + n \<le> length b\<rbrakk> \<Longrightarrow>
   memcpy_within env b dst src n = Some (overlay b dst (take n (drop src b)))"
  by (simp add: memcpy_within_def ascending_memcpy_def)

text \<open>Every buffer is one block long.\<close>

definition wf_bufs :: "'a blockdev_scheme \<Rightarrow> bool" where
  "wf_bufs s \<longleftrightarrow> (\<forall>b. length (bufs s b) = OUICHEFS_BLOCK_SIZE)"

lemma wf_bufs_length: "wf_bufs s \<Longrightarrow> length (bufs s b) = 4096"
  by (simp add: wf_bufs_def OUICHEFS_BLOCK_SIZE_def)

lemma set_buf_simps [simp]:
  "bufs (set_buf b bs s) = (bufs s)(b := bs)"
  "dirty (set_buf b bs s) = dirty s"
  "media (set_buf b bs s) = media s"
  "blockdev.more (set_buf b bs s) = blockdev.more s"
  by (simp_all add: set_buf_def)

lemma wf_bufs_set_buf: "\<lbrakk>wf_bufs s; length bs = 4096\<rbrakk> \<Longrightarrow> wf_bufs (set_buf b bs s)"
  by (simp add: wf_bufs_def OUICHEFS_BLOCK_SIZE_def)

lemma write_back_simps [simp]:
  "bufs (write_back b s) = bufs s"
  "dirty (write_back b s) = (dirty s)(b := False)"
  "media (write_back b s) = (media s)(b := bufs s b)"
  "blockdev.more (write_back b s) = blockdev.more s"
  by (simp_all add: write_back_def sync_dirty_buffer_def mark_buffer_dirty_def fun_eq_iff)

lemma mark_buffer_dirty_simps [simp]:
  "bufs (mark_buffer_dirty b s) = bufs s"
  "dirty (mark_buffer_dirty b s) = (dirty s)(b := True)"
  "media (mark_buffer_dirty b s) = media s"
  "blockdev.more (mark_buffer_dirty b s) = blockdev.more s"
  by (simp_all add: mark_buffer_dirty_def)

section \<open>Structures laid over a block\<close>

text \<open>
  The interface every cast of \<open>bh->b_data\<close> relies on. \<open>wf\<close> describes the values of the
  structure (the lengths of its arrays).
\<close>

locale block_view =
  fixes decode :: "byte list \<Rightarrow> 'v"
    and encode :: "'v \<Rightarrow> byte list"
    and wf :: "'v \<Rightarrow> bool"
  assumes wf_decode: "length bs = 4096 \<Longrightarrow> wf (decode bs)"
    and length_encode: "wf v \<Longrightarrow> length (encode v) = 4096"
    and decode_encode: "wf v \<Longrightarrow> decode (encode v) = v"
    and encode_decode: "length bs = 4096 \<Longrightarrow> encode (decode bs) = bs"
begin

lemma decode_set_buf:
  "wf v \<Longrightarrow> decode (bufs (set_buf b (encode v) s) c) = (if c = b then v else decode (bufs s c))"
  by (simp add: decode_encode)

lemma wf_bufs_store: "\<lbrakk>wf_bufs s; wf v\<rbrakk> \<Longrightarrow> wf_bufs (set_buf b (encode v) s)"
  by (simp add: wf_bufs_set_buf length_encode)

lemma wf_load: "wf_bufs s \<Longrightarrow> wf (decode (bufs s b))"
  by (simp add: wf_decode wf_bufs_length)

lemma store_load: "wf_bufs s \<Longrightarrow> bufs (set_buf b (encode (decode (bufs s b))) s) = bufs s"
  by (simp add: encode_decode wf_bufs_length)

lemma encode_inject: "\<lbrakk>wf v; wf w\<rbrakk> \<Longrightarrow> encode v = encode w \<longleftrightarrow> v = w"
  by (metis decode_encode)

end

subsection \<open>Arrays of 32-bit integers\<close>

text \<open>A \<open>uint32_t\<close> in memory, least significant byte first.\<close>

definition le32 :: "byte \<Rightarrow> byte \<Rightarrow> byte \<Rightarrow> byte \<Rightarrow> u32_word" where
  "le32 b0 b1 b2 b3 =
     ucast b0 OR push_bit 8 (ucast b1) OR push_bit 16 (ucast b2) OR push_bit 24 (ucast b3)"

definition le32_bytes :: "u32_word \<Rightarrow> byte list" where
  "le32_bytes w =
     [ucast w, ucast (drop_bit 8 w), ucast (drop_bit 16 w), ucast (drop_bit 24 w)]"

fun u32s_of_bytes :: "byte list \<Rightarrow> u32_word list" where
  "u32s_of_bytes (b0 # b1 # b2 # b3 # bs) = le32 b0 b1 b2 b3 # u32s_of_bytes bs"
| "u32s_of_bytes _ = []"

fun bytes_of_u32s :: "u32_word list \<Rightarrow> byte list" where
  "bytes_of_u32s [] = []"
| "bytes_of_u32s (w # ws) = le32_bytes w @ bytes_of_u32s ws"

lemma le32_of_bytes:
  "le32 (ucast w) (ucast (drop_bit 8 w)) (ucast (drop_bit 16 w)) (ucast (drop_bit 24 w)) = w"
proof (rule bit_word_eqI)
  fix n assume n: "n < LENGTH(32)"
  consider "n < 8" | "8 \<le> n" "n < 16" | "16 \<le> n" "n < 24" | "24 \<le> n" "n < 32"
    using n by fastforce
  then show "bit (le32 (ucast w) (ucast (drop_bit 8 w)) (ucast (drop_bit 16 w))
      (ucast (drop_bit 24 w))) n = bit w n"
    by cases (auto simp: le32_def bit_simps)
qed

lemma le32_bytes_of:
  "le32_bytes (le32 b0 b1 b2 b3) = [b0, b1, b2, b3]"
proof -
  have "ucast (drop_bit k (le32 b0 b1 b2 b3)) = (c :: byte)"
    if "\<And>n. n < 8 \<Longrightarrow> bit (le32 b0 b1 b2 b3) (n + k) = bit c n" and "k \<le> 24" for k c
    by (rule bit_word_eqI) (use that in \<open>auto simp: bit_simps ac_simps\<close>)
  note byte_at = this
  have "ucast (drop_bit 0 (le32 b0 b1 b2 b3)) = b0"
    by (rule byte_at) (auto simp: le32_def bit_simps)
  moreover have "ucast (drop_bit 8 (le32 b0 b1 b2 b3)) = b1"
    by (rule byte_at) (auto simp: le32_def bit_simps dest: bit_imp_le_length)
  moreover have "ucast (drop_bit 16 (le32 b0 b1 b2 b3)) = b2"
    by (rule byte_at) (auto simp: le32_def bit_simps dest: bit_imp_le_length)
  moreover have "ucast (drop_bit 24 (le32 b0 b1 b2 b3)) = b3"
    by (rule byte_at) (auto simp: le32_def bit_simps dest: bit_imp_le_length)
  ultimately show ?thesis by (simp add: le32_bytes_def)
qed

lemma u32s_of_bytes_inverse: "u32s_of_bytes (bytes_of_u32s ws) = ws"
  by (induction ws) (simp_all add: le32_bytes_def le32_of_bytes)

lemma bytes_of_u32s_inverse: "4 dvd length bs \<Longrightarrow> bytes_of_u32s (u32s_of_bytes bs) = bs"
proof (induction bs rule: u32s_of_bytes.induct)
  case (1 b0 b1 b2 b3 bs)
  then have "4 dvd length bs" by simp presburger
  with 1 show ?case by (simp add: le32_bytes_of)
qed (simp_all, presburger+)

lemma length_bytes_of_u32s: "length (bytes_of_u32s ws) = 4 * length ws"
  by (induction ws) (simp_all add: le32_bytes_def)

lemma length_u32s_of_bytes: "length (u32s_of_bytes bs) = length bs div 4"
  by (induction bs rule: u32s_of_bytes.induct) auto

lemma u32s_of_zeros: "u32s_of_bytes (replicate (4 * n) 0) = replicate n 0"
proof (induction n)
  case (Suc n)
  have "replicate (4 * Suc n) (0 :: byte) = 0 # 0 # 0 # 0 # replicate (4 * n) 0"
    by (simp add: numeral_eq_Suc)
  with Suc show ?case by (simp add: le32_def)
qed simp

subsection \<open>The index block of a file\<close>

text \<open>\<open>struct ouichefs_file_index_block\<close>: 1024 entries.\<close>

definition wf_index :: "entry list \<Rightarrow> bool" where
  "wf_index idx \<longleftrightarrow> length idx = 1024"

definition load_index :: "'a blockdev_scheme \<Rightarrow> nat \<Rightarrow> entry list" where
  "load_index s ib = u32s_of_bytes (bufs s ib)"

definition store_index :: "nat \<Rightarrow> entry list \<Rightarrow> 'a blockdev_scheme \<Rightarrow> 'a blockdev_scheme" where
  "store_index ib idx s = set_buf ib (bytes_of_u32s idx) s"

interpretation index_view: block_view u32s_of_bytes bytes_of_u32s wf_index
  by unfold_locales
    (simp_all add: wf_index_def length_u32s_of_bytes length_bytes_of_u32s
      u32s_of_bytes_inverse bytes_of_u32s_inverse)

lemma load_store_index:
  "length idx = 1024 \<Longrightarrow>
   load_index (store_index ib idx s) b = (if b = ib then idx else load_index s b)"
  unfolding load_index_def store_index_def
  using index_view.decode_set_buf [of idx ib s b] by (simp add: wf_index_def)

lemma length_load_index [simp]: "wf_bufs s \<Longrightarrow> length (load_index s ib) = 1024"
  using index_view.wf_load [of s ib] by (simp add: wf_index_def load_index_def)

lemma wf_bufs_store_index: "\<lbrakk>wf_bufs s; length idx = 1024\<rbrakk> \<Longrightarrow> wf_bufs (store_index ib idx s)"
  unfolding store_index_def by (rule index_view.wf_bufs_store) (simp_all add: wf_index_def)

lemma store_index_simps [simp]:
  "dirty (store_index ib idx s) = dirty s"
  "media (store_index ib idx s) = media s"
  "blockdev.more (store_index ib idx s) = blockdev.more s"
  "b \<noteq> ib \<Longrightarrow> bufs (store_index ib idx s) b = bufs s b"
  by (simp_all add: store_index_def)

lemma load_index_cong: "bufs s b = bufs t b \<Longrightarrow> load_index s b = load_index t b"
  by (simp add: load_index_def)

lemma load_index_set_buf [simp]: "b \<noteq> c \<Longrightarrow> load_index (set_buf c bs s) b = load_index s b"
  by (simp add: load_index_def)

lemma load_index_write_back [simp]: "load_index (write_back b s) = load_index s"
  by (simp add: load_index_def fun_eq_iff)

end
