(* ===== verification/Bitmap.thy ===== *)
theory Bitmap
  imports Entry
begin

text \<open>
  The free-inode and free-block bitmaps of bitmap.h. A bitmap is the byte array the mount code
  fills from the bitmap blocks; bit \<open>i\<close> is bit \<open>i mod 8\<close> of byte \<open>i div 8\<close>, the layout of
  Linux bitmaps on a little-endian machine, and a set bit marks a free inode or block.
  \<open>find_first_bit\<close>, \<open>bitmap_set\<close> and \<open>bitmap_clear\<close> are the kernel's bitmap primitives.

  Two interfaces: \<open>bit_array\<close> says what single-bit updates do, and \<open>allocator\<close> what the
  inode and the block allocator both promise to the rest of the file system.
\<close>

section \<open>Bit arrays\<close>

locale bit_array =
  fixes test :: "'b \<Rightarrow> nat \<Rightarrow> bool"
    and set_at :: "'b \<Rightarrow> nat \<Rightarrow> 'b"
    and clear_at :: "'b \<Rightarrow> nat \<Rightarrow> 'b"
    and cap :: "'b \<Rightarrow> nat"
  assumes test_set_at: "i < cap b \<Longrightarrow> test (set_at b i) j \<longleftrightarrow> j = i \<or> test b j"
    and test_clear_at: "i < cap b \<Longrightarrow> test (clear_at b i) j \<longleftrightarrow> j \<noteq> i \<and> test b j"
    and cap_set_at: "cap (set_at b i) = cap b"
    and cap_clear_at: "cap (clear_at b i) = cap b"
begin

lemma ones_set_at:
  "\<lbrakk>i < n; n \<le> cap b\<rbrakk> \<Longrightarrow> {j. j < n \<and> test (set_at b i) j} = insert i {j. j < n \<and> test b j}"
  by (auto simp: test_set_at)

lemma ones_clear_at:
  "\<lbrakk>i < n; n \<le> cap b\<rbrakk> \<Longrightarrow> {j. j < n \<and> test (clear_at b i) j} = {j. j < n \<and> test b j} - {i}"
  by (auto simp: test_clear_at)

lemma clear_set_same:
  "\<lbrakk>i < cap b; \<not> test b i\<rbrakk> \<Longrightarrow> test (clear_at (set_at b i) i) = test b"
  by (auto simp: fun_eq_iff test_set_at test_clear_at cap_set_at)

end

definition test_bit :: "byte list \<Rightarrow> nat \<Rightarrow> bool" where
  "test_bit bm i = bit (bm ! (i div 8)) (i mod 8)"

definition bitmap_set :: "byte list \<Rightarrow> nat \<Rightarrow> byte list" where
  "bitmap_set bm i = bm[i div 8 := Bit_Operations.set_bit (i mod 8) (bm ! (i div 8))]"

definition bitmap_clear :: "byte list \<Rightarrow> nat \<Rightarrow> byte list" where
  "bitmap_clear bm i = bm[i div 8 := unset_bit (i mod 8) (bm ! (i div 8))]"

definition bitmap_bits :: "byte list \<Rightarrow> nat" where
  "bitmap_bits bm = 8 * length bm"

interpretation bm: bit_array test_bit bitmap_set bitmap_clear bitmap_bits
proof (unfold_locales, goal_cases)
  case (1 i b j)
  then have "i div 8 < length b" by (auto simp: bitmap_bits_def)
  then show ?case
    by (cases "i div 8 = j div 8")
      (auto simp: test_bit_def bitmap_set_def bit_set_bit_iff mod_less_divisor,
        metis div_mult_mod_eq)
next
  case (2 i b j)
  then have "i div 8 < length b" by (auto simp: bitmap_bits_def)
  then show ?case
    by (cases "i div 8 = j div 8")
      (auto simp: test_bit_def bitmap_clear_def bit_unset_bit_iff, metis div_mult_mod_eq)
qed (simp_all add: bitmap_bits_def bitmap_set_def bitmap_clear_def)

section \<open>Free bits\<close>

text \<open>
  The scan of \<open>find_first_bit\<close>: the first set bit below \<open>size\<close>, or \<open>size\<close>. Reading past the
  array is undefined.
\<close>

function find_bit_from :: "byte list \<Rightarrow> nat \<Rightarrow> nat \<Rightarrow> nat option" where
  "find_bit_from bm sz i =
     (if sz \<le> i then Some sz
      else if bitmap_bits bm \<le> i then None
      else if test_bit bm i then Some i
      else find_bit_from bm sz (Suc i))"
  by pat_completeness auto
termination
  by (relation "measure (\<lambda>(bm, sz, i). sz - i)") auto

declare find_bit_from.simps [simp del]

definition find_first_bit :: "byte list \<Rightarrow> nat \<Rightarrow> nat option" where
  "find_first_bit bm sz = find_bit_from bm sz 0"

definition get_first_free_bit :: "byte list \<Rightarrow> nat \<Rightarrow> (nat \<times> byte list) option" where
  "get_first_free_bit freemap sz =
     do { r \<leftarrow> find_first_bit freemap sz;
          let ino = r mod 2 ^ 32;
          if ino = sz then Some (0, freemap)
          else Some (ino, bitmap_clear freemap ino) }"

definition put_free_bit :: "byte list \<Rightarrow> nat \<Rightarrow> nat \<Rightarrow> (int \<times> byte list) option" where
  "put_free_bit freemap sz i =
     (if i > sz then Some (-1, freemap)
      else if i < bitmap_bits freemap then Some (0, bitmap_set freemap i)
      else None)"

definition ones :: "byte list \<Rightarrow> nat \<Rightarrow> nat set" where
  "ones bm n = {i. i < n \<and> test_bit bm i}"

lemma finite_ones [simp]: "finite (ones bm n)"
  by (simp add: ones_def)

lemma find_bit_from_eq:
  assumes "sz \<le> bitmap_bits bm" "i \<le> sz"
  shows "find_bit_from bm sz i =
     Some (if ones bm sz \<inter> {i..} = {} then sz else Min (ones bm sz \<inter> {i..}))"
  using assms
proof (induction bm sz i rule: find_bit_from.induct)
  case (1 bm sz i)
  consider "i = sz" | "i < sz" "test_bit bm i" | "i < sz" "\<not> test_bit bm i"
    using "1.prems" by fastforce
  then show ?case
  proof cases
    case 1
    then have "ones bm sz \<inter> {i..} = {}" by (auto simp: ones_def)
    with 1 show ?thesis by (simp add: find_bit_from.simps [of bm sz sz])
  next
    case 2
    then have i: "i \<in> ones bm sz \<inter> {i..}" by (simp add: ones_def)
    then have "Min (ones bm sz \<inter> {i..}) = i"
      by (intro Min_eqI) auto
    with 2 i "1.prems" show ?thesis
      by (auto simp: find_bit_from.simps [of bm sz i])
  next
    case 3
    then have "ones bm sz \<inter> {i..} = ones bm sz \<inter> {Suc i..}"
      by (auto simp: ones_def not_less_eq_eq [symmetric] le_Suc_eq)
    with 3 "1.prems" "1.IH" show ?thesis by (simp add: find_bit_from.simps [of bm sz i])
  qed
qed

lemma find_first_bit_eq:
  "sz \<le> bitmap_bits bm \<Longrightarrow>
   find_first_bit bm sz = Some (if ones bm sz = {} then sz else Min (ones bm sz))"
  by (simp add: find_first_bit_def find_bit_from_eq atLeast_0)

lemma get_first_free_bit_eq:
  assumes "sz \<le> bitmap_bits bm" "sz < 2 ^ 32"
  shows "get_first_free_bit bm sz =
     Some (if ones bm sz = {} then (0, bm)
           else (Min (ones bm sz), bitmap_clear bm (Min (ones bm sz))))"
proof (cases "ones bm sz = {}")
  case True
  with assms show ?thesis by (simp add: get_first_free_bit_def find_first_bit_eq)
next
  case False
  then have "Min (ones bm sz) \<in> ones bm sz" by (intro Min_in) simp_all
  then have "Min (ones bm sz) < sz" by (simp add: ones_def)
  with False assms show ?thesis by (simp add: get_first_free_bit_def find_first_bit_eq Let_def)
qed

lemmas ones_set = bm.ones_set_at [folded ones_def]
lemmas ones_clear = bm.ones_clear_at [folded ones_def]

lemma ones_clear_Min:
  assumes "ones bm n \<noteq> {}" "n \<le> bitmap_bits bm"
  shows "ones (bitmap_clear bm (Min (ones bm n))) n = ones bm n - {Min (ones bm n)}"
proof -
  have "Min (ones bm n) \<in> ones bm n" using assms by (intro Min_in) simp_all
  then have "Min (ones bm n) < n" by (simp add: ones_def)
  with assms show ?thesis by (simp add: ones_clear)
qed

section \<open>The superblock information and the two allocators\<close>

text \<open>\<open>struct ouichefs_sb_info\<close>; the 32-bit counters are naturals below \<open>2 ^ 32\<close>.\<close>

record sb_info =
  nr_blocks :: nat
  nr_inodes :: nat
  nr_istore_blocks :: nat
  nr_ifree_blocks :: nat
  nr_bfree_blocks :: nat
  nr_free_inodes :: nat
  nr_free_blocks :: nat
  ifree_bitmap :: "byte list"
  bfree_bitmap :: "byte list"

definition get_free_inode :: "sb_info \<Rightarrow> (nat \<times> sb_info) option" where
  "get_free_inode sbi =
     do { (ret, map) \<leftarrow> get_first_free_bit (ifree_bitmap sbi) (nr_inodes sbi);
          let sbi = sbi\<lparr>ifree_bitmap := map\<rparr>;
          Some (ret, if ret \<noteq> 0 then sbi\<lparr>nr_free_inodes := u32 (int (nr_free_inodes sbi) - 1)\<rparr>
                     else sbi) }"

definition get_free_block :: "sb_info \<Rightarrow> (nat \<times> sb_info) option" where
  "get_free_block sbi =
     do { (ret, map) \<leftarrow> get_first_free_bit (bfree_bitmap sbi) (nr_blocks sbi);
          let sbi = sbi\<lparr>bfree_bitmap := map\<rparr>;
          Some (ret, if ret \<noteq> 0 then sbi\<lparr>nr_free_blocks := u32 (int (nr_free_blocks sbi) - 1)\<rparr>
                     else sbi) }"

definition put_inode :: "sb_info \<Rightarrow> nat \<Rightarrow> sb_info option" where
  "put_inode sbi ino =
     do { (r, map) \<leftarrow> put_free_bit (ifree_bitmap sbi) (nr_inodes sbi) ino;
          if r \<noteq> 0 then Some sbi
          else Some (sbi\<lparr>ifree_bitmap := map, nr_free_inodes := u32 (int (nr_free_inodes sbi) + 1)\<rparr>) }"

definition put_block :: "sb_info \<Rightarrow> nat \<Rightarrow> sb_info option" where
  "put_block sbi bno =
     do { (r, map) \<leftarrow> put_free_bit (bfree_bitmap sbi) (nr_blocks sbi) bno;
          if r \<noteq> 0 then Some sbi
          else Some (sbi\<lparr>bfree_bitmap := map, nr_free_blocks := u32 (int (nr_free_blocks sbi) + 1)\<rparr>) }"

definition free_inodes :: "sb_info \<Rightarrow> nat set" where
  "free_inodes sbi = ones (ifree_bitmap sbi) (nr_inodes sbi)"

definition free_blocks :: "sb_info \<Rightarrow> nat set" where
  "free_blocks sbi = ones (bfree_bitmap sbi) (nr_blocks sbi)"

text \<open>The sizes of the partition, which no operation on the bitmaps changes.\<close>

definition geometry :: "sb_info \<Rightarrow> nat list" where
  "geometry sbi = [nr_blocks sbi, nr_inodes sbi, nr_istore_blocks sbi, nr_ifree_blocks sbi, nr_bfree_blocks sbi,
     length (ifree_bitmap sbi), length (bfree_bitmap sbi)]"

lemma get_first_free_bit_length: "get_first_free_bit bm sz = Some (i, bm') \<Longrightarrow> length bm' = length bm"
  by (auto simp: get_first_free_bit_def bitmap_clear_def Let_def split: bind_splits if_splits)

lemma geometry_alloc:
  "get_free_inode q = Some (i, q') \<Longrightarrow> geometry q' = geometry q"
  "get_free_block q = Some (i, q') \<Longrightarrow> geometry q' = geometry q"
  "put_inode q i = Some q' \<Longrightarrow> geometry q' = geometry q"
  "put_block q i = Some q' \<Longrightarrow> geometry q' = geometry q"
  by (auto simp: geometry_def get_free_inode_def get_free_block_def put_inode_def put_block_def Let_def
      split: bind_splits if_splits dest: get_first_free_bit_length, auto simp: put_free_bit_def bitmap_set_def split: if_splits)

text \<open>An operation on blocks changes the bitmap of blocks and its counter only.\<close>

definition blocks_change :: "sb_info \<Rightarrow> sb_info \<Rightarrow> bool" where
  "blocks_change q q' \<longleftrightarrow> q' = q\<lparr>bfree_bitmap := bfree_bitmap q', nr_free_blocks := nr_free_blocks q'\<rparr> \<and>
     length (bfree_bitmap q') = length (bfree_bitmap q)"

lemma blocks_change_refl [simp]: "blocks_change q q"
  by (simp add: blocks_change_def)

lemma blocks_change_trans: "\<lbrakk>blocks_change p q; blocks_change q r\<rbrakk> \<Longrightarrow> blocks_change p r"
  by (cases p, cases q, cases r) (simp add: blocks_change_def)

lemma blocks_change_alloc:
  "get_free_block q = Some (i, q') \<Longrightarrow> blocks_change q q'"
  "put_block q i = Some q' \<Longrightarrow> blocks_change q q'"
  by (auto simp: blocks_change_def get_free_block_def put_block_def Let_def
      split: bind_splits if_splits dest: get_first_free_bit_length, auto simp: put_free_bit_def bitmap_set_def split: if_splits)

lemma blocks_change_geometry: "blocks_change q q' \<Longrightarrow> geometry q' = geometry q"
  by (cases q, cases q') (simp add: blocks_change_def geometry_def)

lemma blocks_change_nr_blocks: "blocks_change q q' \<Longrightarrow> nr_blocks q' = nr_blocks q"
  by (drule blocks_change_geometry) (simp add: geometry_def)

text \<open>
  The invariants: the bitmap covers every number, number 0 is never free (it is the error
  value), and the counter counts the set bits. The counter of free inodes may be one too high:
  mkfs counts inode 0, which its bitmap marks as used.
\<close>

definition inode_map_wf :: "sb_info \<Rightarrow> bool" where
  "inode_map_wf sbi \<longleftrightarrow> nr_inodes sbi \<le> bitmap_bits (ifree_bitmap sbi) \<and> nr_inodes sbi < 2 ^ 32 \<and>
     0 \<notin> free_inodes sbi \<and>
     (nr_free_inodes sbi = card (free_inodes sbi) \<or> nr_free_inodes sbi = card (free_inodes sbi) + 1)"

definition block_map_wf :: "sb_info \<Rightarrow> bool" where
  "block_map_wf sbi \<longleftrightarrow> nr_blocks sbi \<le> bitmap_bits (bfree_bitmap sbi) \<and> nr_blocks sbi < 2 ^ 32 \<and>
     0 \<notin> free_blocks sbi \<and> nr_free_blocks sbi = card (free_blocks sbi)"

text \<open>
  What the rest of the file system relies on: a pool of numbers from which the least available one is
  taken and to which numbers return.
\<close>

locale id_pool =
  fixes avail :: "'s \<Rightarrow> nat set"
    and limit :: "'s \<Rightarrow> nat"
    and alloc :: "'s \<Rightarrow> (nat \<times> 's) option"
    and release :: "'s \<Rightarrow> nat \<Rightarrow> 's option"
    and invar :: "'s \<Rightarrow> bool"
  assumes avail_limit: "invar s \<Longrightarrow> avail s \<subseteq> {0<..<limit s}"
    and alloc_empty: "\<lbrakk>invar s; avail s = {}\<rbrakk> \<Longrightarrow> alloc s = Some (0, s)"
    and alloc_some: "\<lbrakk>invar s; avail s \<noteq> {}\<rbrakk> \<Longrightarrow>
      \<exists>s'. alloc s = Some (Min (avail s), s') \<and> invar s' \<and>
           avail s' = avail s - {Min (avail s)} \<and> limit s' = limit s"
    and release_ok: "\<lbrakk>invar s; 0 < n; n < limit s; n \<notin> avail s\<rbrakk> \<Longrightarrow>
      \<exists>s'. release s n = Some s' \<and> invar s' \<and> avail s' = insert n (avail s) \<and> limit s' = limit s"
begin

lemma finite_avail: "invar s \<Longrightarrow> finite (avail s)"
  by (meson avail_limit finite_greaterThanLessThan finite_subset)

lemma take_fresh:
  assumes "invar s" "avail s \<noteq> {}"
  shows "\<exists>n s'. alloc s = Some (n, s') \<and> n \<in> avail s \<and> 0 < n \<and> n < limit s \<and> invar s' \<and>
    avail s' = avail s - {n} \<and> limit s' = limit s"
proof -
  obtain s' where s': "alloc s = Some (Min (avail s), s')" "invar s'"
      "avail s' = avail s - {Min (avail s)}" "limit s' = limit s"
    using alloc_some [OF assms] by blast
  have m: "Min (avail s) \<in> avail s" using assms by (simp add: finite_avail)
  then have "Min (avail s) \<in> {0<..<limit s}" using avail_limit [OF assms(1)] by blast
  with s' m show ?thesis by auto
qed

lemma alloc_never_zero: "\<lbrakk>invar s; alloc s = Some (0, s')\<rbrakk> \<Longrightarrow> avail s = {} \<and> s' = s"
  by (metis alloc_empty take_fresh less_numeral_extra(3) option.inject prod.inject)

lemma take_and_return:
  assumes "invar s" "alloc s = Some (n, t)" "n \<noteq> 0"
  shows "\<exists>s'. release t n = Some s' \<and> invar s' \<and> avail s' = avail s"
proof -
  have "avail s \<noteq> {}" using assms alloc_empty by fastforce
  from take_fresh [OF assms(1) this] assms(2)
  have t: "invar t" "n \<in> avail s" "0 < n" "n < limit t" "avail t = avail s - {n}" by auto
  then obtain s' where "release t n = Some s'" "invar s'" "avail s' = insert n (avail t)"
    using release_ok [of t n] by auto
  moreover have "insert n (avail t) = avail s" using t by auto
  ultimately show ?thesis by auto
qed

end

text \<open>A pool that keeps an exact count of what is available.\<close>

locale allocator = id_pool +
  fixes counter :: "'a \<Rightarrow> nat"
  assumes counter: "invar s \<Longrightarrow> counter s = card (avail s)"
begin

lemma counter_zero: "invar s \<Longrightarrow> counter s = 0 \<longleftrightarrow> avail s = {}"
  by (simp add: counter finite_avail)

lemma alloc_fresh:
  assumes "invar s" "0 < counter s"
  shows "\<exists>n s'. alloc s = Some (n, s') \<and> n \<in> avail s \<and> 0 < n \<and> n < limit s \<and> invar s' \<and>
    avail s' = avail s - {n} \<and> limit s' = limit s \<and> counter s' = counter s - 1"
  using take_fresh [OF assms(1)] counter_zero [OF assms(1)] assms by (auto simp: counter)

lemma alloc_release:
  assumes "invar s" "alloc s = Some (n, t)" "n \<noteq> 0"
  shows "\<exists>s'. release t n = Some s' \<and> invar s' \<and> avail s' = avail s \<and> counter s' = counter s"
  using take_and_return [OF assms] assms(1) by (auto simp: counter)

lemma release_counter:
  assumes "invar s" "0 < n" "n < limit s" "n \<notin> avail s"
  shows "\<exists>s'. release s n = Some s' \<and> invar s' \<and> avail s' = insert n (avail s) \<and>
    limit s' = limit s \<and> counter s' = counter s + 1"
  using release_ok [OF assms] assms by (auto simp: counter finite_avail)

end

lemma ones_bound: "n < 2 ^ 32 \<Longrightarrow> card (ones bm n) < 2 ^ 32"
proof -
  assume "n < 2 ^ 32"
  moreover have "card (ones bm n) \<le> card {..<n}"
    by (rule card_mono) (auto simp: ones_def)
  ultimately show ?thesis by simp
qed

lemma ones_card_insert: "\<lbrakk>i < n; n < 2 ^ 32; i \<notin> ones bm n\<rbrakk> \<Longrightarrow> card (ones bm n) + 1 < 2 ^ 32"
proof -
  assume i: "i < n" "n < 2 ^ 32" "i \<notin> ones bm n"
  have "card (insert i (ones bm n)) \<le> card {..<n}"
    by (rule card_mono) (use i in \<open>auto simp: ones_def\<close>)
  with i show ?thesis by simp
qed

lemma ones_card_nonzero: "\<lbrakk>0 \<notin> ones bm n; n < 2 ^ 32\<rbrakk> \<Longrightarrow> card (ones bm n) + 1 < 2 ^ 32"
  using ones_card_insert [of 0 n bm] by (cases n) (simp_all add: ones_def)

interpretation ialloc: id_pool free_inodes nr_inodes get_free_inode put_inode inode_map_wf
proof (unfold_locales, goal_cases)
  case (1 s)
  then have "0 \<notin> free_inodes s" "free_inodes s \<subseteq> {..<nr_inodes s}"
    by (auto simp: inode_map_wf_def free_inodes_def ones_def)
  then show ?case by (auto simp: subset_iff intro: gr0I)
next
  case (3 s)
  let ?m = "Min (free_inodes s)"
  have m: "?m \<in> free_inodes s" using 3 by (intro Min_in) (simp_all add: free_inodes_def)
  then have m0: "?m \<noteq> 0" using 3(1) by (metis inode_map_wf_def)
  have "nr_free_inodes s < 2 ^ 32" "0 < nr_free_inodes s" "0 < card (free_inodes s)"
    using 3 m ones_card_nonzero [of "ifree_bitmap s" "nr_inodes s"]
    by (auto simp: inode_map_wf_def free_inodes_def card_gt_0_iff)
  with 3 m m0 show ?case
    by (auto simp: get_free_inode_def get_first_free_bit_eq inode_map_wf_def free_inodes_def
        ones_clear_Min bm.cap_clear_at u32_id Let_def)
next
  case (4 s n)
  then have "card (insert n (free_inodes s)) + 1 < 2 ^ 32"
    using ones_card_nonzero [of "bitmap_set (ifree_bitmap s) n" "nr_inodes s"]
    unfolding inode_map_wf_def free_inodes_def by (simp add: ones_set)
  with 4 show ?case
    by (auto simp: put_inode_def put_free_bit_def inode_map_wf_def free_inodes_def ones_set
        bm.cap_set_at u32_id nat_add_distrib)
qed (simp_all add: inode_map_wf_def get_free_inode_def free_inodes_def get_first_free_bit_eq)

interpretation balloc: allocator free_blocks nr_blocks get_free_block put_block block_map_wf nr_free_blocks
proof (unfold_locales, goal_cases)
  case (1 s)
  then show ?case by (auto simp: block_map_wf_def free_blocks_def ones_def) (metis gr0I)
next
  case (3 s)
  let ?m = "Min (free_blocks s)"
  have m: "?m \<in> free_blocks s" using 3 by (intro Min_in) (simp_all add: free_blocks_def)
  then have m0: "?m \<noteq> 0" using 3(1) by (metis block_map_wf_def)
  have "card (free_blocks s) < 2 ^ 32" "0 < card (free_blocks s)"
    using 3 m by (auto simp: block_map_wf_def free_blocks_def card_gt_0_iff intro!: ones_bound [simplified])
  with 3 m m0 show ?case
    by (simp add: get_free_block_def get_first_free_bit_eq block_map_wf_def free_blocks_def
        ones_clear_Min bm.cap_clear_at u32_id Let_def)
next
  case (4 s n)
  then have "card (free_blocks s) + 1 < 2 ^ 32"
    unfolding block_map_wf_def free_blocks_def by (intro ones_card_insert) simp_all
  with 4 show ?case
    by (simp add: put_block_def put_free_bit_def block_map_wf_def free_blocks_def ones_set
        bm.cap_set_at u32_id)
qed (simp_all add: block_map_wf_def get_free_block_def free_blocks_def get_first_free_bit_eq)

end
