(* ===== verification/Vfs.thy ===== *)
theory Vfs
  imports Disk Bitmap
begin

text \<open>
  The in-memory state the file operations share: the VFS inode with the ouiche_fs part
  (\<open>struct ouichefs_inode_info\<close>), the open file, and the file system \<open>fs\<close>, which extends
  the buffers with the superblock information and the inode cache.
\<close>

section \<open>Inodes, files, file system\<close>

record inode =
  i_mode :: "16 word"
  i_uid :: nat
  i_gid :: nat
  i_size :: int
  i_ctime :: timespec
  i_atime :: timespec
  i_mtime :: timespec
  i_blocks :: nat
  i_nlink :: nat
  index_block :: nat

record "file" =
  f_flags :: "32 word"
  f_inode :: nat

record fs = blockdev +
  sbi :: sb_info
  inodes :: "nat \<Rightarrow> inode"
  idirty :: "nat \<Rightarrow> bool"

definition O_WRONLY :: "32 word" where "O_WRONLY = 1"
definition O_RDWR :: "32 word" where "O_RDWR = 2"
definition O_RDONLY :: "32 word" where "O_RDONLY = 0"
definition O_TRUNC :: "32 word" where "O_TRUNC = 0x200"
definition O_APPEND :: "32 word" where "O_APPEND = 0x400"

text \<open>The error numbers the code returns.\<close>

definition EPERM :: int where "EPERM = 1"
definition EIO :: int where "EIO = 5"
definition ENOMEM :: int where "ENOMEM = 12"
definition EFAULT :: int where "EFAULT = 14"
definition EEXIST :: int where "EEXIST = 17"
definition ENOTDIR :: int where "ENOTDIR = 20"
definition EINVAL :: int where "EINVAL = 22"
definition EFBIG :: int where "EFBIG = 27"
definition ENOSPC :: int where "ENOSPC = 28"
definition EMLINK :: int where "EMLINK = 31"
definition ENAMETOOLONG :: int where "ENAMETOOLONG = 36"
definition ENOTEMPTY :: int where "ENOTEMPTY = 39"
definition ENODATA :: int where "ENODATA = 61"

lemmas errno_defs = EPERM_def EIO_def ENOMEM_def EFAULT_def EEXIST_def ENOTDIR_def EINVAL_def
  EFBIG_def ENOSPC_def EMLINK_def ENAMETOOLONG_def ENOTEMPTY_def ENODATA_def

definition set_inode :: "nat \<Rightarrow> inode \<Rightarrow> fs \<Rightarrow> fs" where
  "set_inode ino I s = s\<lparr>inodes := (inodes s)(ino := I)\<rparr>"

definition mark_inode_dirty :: "nat \<Rightarrow> fs \<Rightarrow> fs" where
  "mark_inode_dirty ino s = s\<lparr>idirty := (idirty s)(ino := True)\<rparr>"

lemma set_inode_simps [simp]:
  "bufs (set_inode ino I s) = bufs s" "dirty (set_inode ino I s) = dirty s"
  "media (set_inode ino I s) = media s" "sbi (set_inode ino I s) = sbi s"
  "inodes (set_inode ino I s) = (inodes s)(ino := I)" "idirty (set_inode ino I s) = idirty s"
  by (simp_all add: set_inode_def)

lemma mark_inode_dirty_simps [simp]:
  "bufs (mark_inode_dirty ino s) = bufs s" "dirty (mark_inode_dirty ino s) = dirty s"
  "media (mark_inode_dirty ino s) = media s" "sbi (mark_inode_dirty ino s) = sbi s"
  "inodes (mark_inode_dirty ino s) = inodes s"
  "idirty (mark_inode_dirty ino s) = (idirty s)(ino := True)"
  by (simp_all add: mark_inode_dirty_def)

lemma fs_buf_simps [simp]:
  "sbi (set_buf b bs s) = sbi s" "inodes (set_buf b bs s) = inodes s" "idirty (set_buf b bs s) = idirty s"
  "sbi (write_back b s) = sbi s" "inodes (write_back b s) = inodes s" "idirty (write_back b s) = idirty s"
  "sbi (mark_buffer_dirty b s) = sbi s" "inodes (mark_buffer_dirty b s) = inodes s"
  "idirty (mark_buffer_dirty b s) = idirty s"
  "sbi (store_index b idx s) = sbi s" "inodes (store_index b idx s) = inodes s"
  "idirty (store_index b idx s) = idirty s"
  by (simp_all add: set_buf_def write_back_def sync_dirty_buffer_def mark_buffer_dirty_def
      store_index_def)

lemma fs_update_simps [simp]:
  "load_index (set_inode ino I s) = load_index s"
  "load_index (mark_inode_dirty ino s) = load_index s"
  "load_index (s\<lparr>sbi := q\<rparr>) = load_index s"
  "wf_bufs (set_inode ino I s) = wf_bufs s"
  "wf_bufs (mark_inode_dirty ino s) = wf_bufs s"
  "wf_bufs (s\<lparr>sbi := q\<rparr>) = wf_bufs s"
  "wf_bufs (write_back b s) = wf_bufs s"
  by (simp_all add: load_index_def fun_eq_iff wf_bufs_def)

section \<open>Fragments\<close>

text \<open>
  A data block holds a fragment of the file: the first \<open>get_block_size\<close> bytes of its block.
  The file's content is the concatenation of the fragments, in the order of the index.
\<close>

definition fragment :: "(nat \<Rightarrow> byte list) \<Rightarrow> entry \<Rightarrow> byte list" where
  "fragment bs e = take (nat (get_block_size e)) (bs (get_block_number e))"

definition fragments :: "(nat \<Rightarrow> byte list) \<Rightarrow> entry list \<Rightarrow> byte list" where
  "fragments bs es = concat (map (fragment bs) es)"

definition data_entries :: "fs \<Rightarrow> nat \<Rightarrow> entry list" where
  "data_entries s ino = take (i_blocks (inodes s ino) - 1) (load_index s (index_block (inodes s ino)))"

definition file_content :: "fs \<Rightarrow> nat \<Rightarrow> byte list" where
  "file_content s ino = fragments (bufs s) (data_entries s ino)"

definition total_size :: "entry list \<Rightarrow> int" where
  "total_size es = sum_list (map get_block_size es)"

lemma fragments_simps [simp]:
  "fragments bs [] = []"
  "fragments bs (e # es) = fragment bs e @ fragments bs es"
  "fragments bs (es @ fs) = fragments bs es @ fragments bs fs"
  by (simp_all add: fragments_def)

lemma total_size_simps [simp]:
  "total_size [] = 0"
  "total_size (e # es) = get_block_size e + total_size es"
  "total_size (es @ fs) = total_size es + total_size fs"
  by (simp_all add: total_size_def)

lemma total_size_nonneg [simp]: "0 \<le> total_size es"
  by (simp add: total_size_def sum_list_int_nonneg)

lemma length_fragment:
  "length (bs (get_block_number e)) = 4096 \<Longrightarrow> length (fragment bs e) = nat (get_block_size e)"
  using nat_mono [OF get_block_size_le [of e]] by (simp add: fragment_def)

lemma length_fragments:
  "(\<And>b. length (bs b) = 4096) \<Longrightarrow> int (length (fragments bs es)) = total_size es"
  by (induction es) (simp_all add: length_fragment)

lemma fragments_cong:
  "(\<And>e. e \<in> set es \<Longrightarrow> bs (get_block_number e) = cs (get_block_number e)) \<Longrightarrow>
   fragments bs es = fragments cs es"
  by (induction es) (simp_all add: fragment_def)

lemma fragments_upd_other:
  "b \<notin> get_block_number ` set es \<Longrightarrow> fragments (bs(b := x)) es = fragments bs es"
  by (rule fragments_cong) auto

lemma fragment_empty: "get_block_size e = 0 \<Longrightarrow> fragment bs e = []"
  by (simp add: fragment_def)

lemma total_size_take_le: "total_size (take k es) \<le> total_size es"
proof -
  have "total_size es = total_size (take k es) + total_size (drop k es)"
    by (metis append_take_drop_id total_size_simps(3))
  then show ?thesis by (simp add: total_size_nonneg)
qed

section \<open>Well-formed files\<close>

text \<open>
  The invariant of a file that is read and written by the inserting operations: its index
  lists \<open>i_blocks - 1\<close> used slots followed by free (zero) slots; the slots name different
  blocks, none of them the index block itself; all of them are allocated; and the sizes of the
  fragments add up to the file size.
\<close>

definition file_blocks :: "fs \<Rightarrow> nat \<Rightarrow> nat set" where
  "file_blocks s ino =
     insert (index_block (inodes s ino)) (get_block_number ` set (data_entries s ino))"

definition allocated :: "sb_info \<Rightarrow> nat \<Rightarrow> bool" where
  "allocated q b \<longleftrightarrow> 0 < b \<and> b < nr_blocks q \<and> b \<notin> free_blocks q"

definition index_wf :: "nat \<Rightarrow> nat \<Rightarrow> entry list \<Rightarrow> bool" where
  "index_wf ib n idx \<longleftrightarrow> length idx = 1024 \<and> n \<le> 1024 \<and>
     distinct (ib # map get_block_number (take n idx)) \<and>
     0 \<notin> set (take n idx) \<and> drop n idx = replicate (1024 - n) 0"

definition fs_wf :: "fs \<Rightarrow> bool" where
  "fs_wf s \<longleftrightarrow> wf_bufs s \<and> block_map_wf (sbi s) \<and> nr_blocks (sbi s) \<le> 2 ^ 19"

definition file_wf :: "fs \<Rightarrow> nat \<Rightarrow> bool" where
  "file_wf s ino \<longleftrightarrow>
     (let I = inodes s ino; n = i_blocks I - 1; ib = index_block I in
      1 \<le> i_blocks I \<and> index_wf ib n (load_index s ib) \<and>
      (\<forall>b \<in> file_blocks s ino. allocated (sbi s) b) \<and>
      i_size I = total_size (data_entries s ino))"

lemma file_content_length:
  "\<lbrakk>fs_wf s; file_wf s ino\<rbrakk> \<Longrightarrow> int (length (file_content s ino)) = i_size (inodes s ino)"
  by (simp add: file_content_def length_fragments fs_wf_def wf_bufs_length file_wf_def Let_def)

text \<open>What the invariant says about the index block of a file, in the form the proofs use.\<close>

lemma file_wf_index:
  assumes "fs_wf s" "file_wf s ino"
  defines "n \<equiv> i_blocks (inodes s ino) - 1" and "idx \<equiv> load_index s (index_block (inodes s ino))"
  shows "n \<le> 1024" "length idx = 1024" "data_entries s ino = take n idx" "length (data_entries s ino) = n"
    "s32 (int (i_blocks (inodes s ino)) - 1) = int n" "i_size (inodes s ino) = total_size (take n idx)"
    "int (i_blocks (inodes s ino)) - 1 = int n" "i_blocks (inodes s ino) = Suc n"
  using assms by (auto simp: file_wf_def index_wf_def fs_wf_def data_entries_def Let_def s32_id)

lemma data_entries_allocated:
  "\<lbrakk>file_wf s ino; e \<in> set (data_entries s ino)\<rbrakk> \<Longrightarrow>
   allocated (sbi s) (get_block_number e) \<and> get_block_number e \<in> file_blocks s ino \<and>
   get_block_number e \<noteq> index_block (inodes s ino)"
  unfolding file_wf_def Let_def index_wf_def data_entries_def [symmetric]
  by (auto simp: file_blocks_def intro: rev_image_eqI)

lemma total_size_bound: "total_size es \<le> 4096 * int (length es)"
proof (induction es)
  case (Cons e es)
  with get_block_size_le [of e] show ?case by simp
qed simp

lemma file_size_bound: "\<lbrakk>fs_wf s; file_wf s ino\<rbrakk> \<Longrightarrow> i_size (inodes s ino) \<le> 4194304"
proof -
  assume wf: "fs_wf s" "file_wf s ino"
  note idx = file_wf_index [OF wf]
  show ?thesis using total_size_bound [of "data_entries s ino"] idx(1,3,4,6) by simp
qed

text \<open>
  The invariant over the regular files \<open>F\<close> of a mounted file system: each is well formed and no
  two of them share a block.
\<close>

definition files_wf :: "fs \<Rightarrow> nat set \<Rightarrow> bool" where
  "files_wf s F \<longleftrightarrow> fs_wf s \<and> (\<forall>ino \<in> F. file_wf s ino) \<and>
     (\<forall>ino \<in> F. \<forall>jno \<in> F. ino \<noteq> jno \<longrightarrow> file_blocks s ino \<inter> file_blocks s jno = {})"

lemma file_blocks_index: "index_block (inodes s ino) \<in> file_blocks s ino"
  by (simp add: file_blocks_def)

text \<open>A file whose inode and blocks did not change is what it was.\<close>

lemma file_unchanged:
  assumes "file_wf s ino" and "inodes s' ino = inodes s ino"
    and "\<And>b. b \<in> file_blocks s ino \<Longrightarrow> bufs s' b = bufs s b \<and> allocated (sbi s') b"
  shows "data_entries s' ino = data_entries s ino" "file_content s' ino = file_content s ino"
    "file_blocks s' ino = file_blocks s ino" "file_wf s' ino"
proof -
  have li: "load_index s' (index_block (inodes s ino)) = load_index s (index_block (inodes s ino))"
    using assms(3) [OF file_blocks_index] by (simp add: load_index_def)
  then show de: "data_entries s' ino = data_entries s ino" using assms(2) by (simp add: data_entries_def)
  then show fb: "file_blocks s' ino = file_blocks s ino" using assms(2) by (simp add: file_blocks_def)
  have "bufs s' (get_block_number e) = bufs s (get_block_number e)" if "e \<in> set (data_entries s ino)" for e
    using assms(3) that by (simp add: file_blocks_def)
  then show "file_content s' ino = file_content s ino"
    unfolding file_content_def de by (rule fragments_cong)
  show "file_wf s' ino" using assms li de fb by (simp add: file_wf_def Let_def)
qed

text \<open>
  The frame rule of the file operations: an operation on file \<open>ino\<close> that leaves it well formed, takes
  its blocks from the file itself and the free blocks, and leaves allocated blocks of others
  alone, keeps the invariant and the content of every other file.
\<close>

lemma files_wf_update:
  assumes fw: "files_wf s F" "ino \<in> F" and s': "fs_wf s'" "file_wf s' ino"
    and fb: "file_blocks s' ino \<subseteq> file_blocks s ino \<union> free_blocks (sbi s)"
    and inodes: "\<And>j. j \<noteq> ino \<Longrightarrow> inodes s' j = inodes s j"
    and keep: "\<And>b. \<lbrakk>allocated (sbi s) b; b \<notin> file_blocks s ino\<rbrakk> \<Longrightarrow> bufs s' b = bufs s b \<and> allocated (sbi s') b"
  shows "files_wf s' F" "\<And>j. \<lbrakk>j \<in> F; j \<noteq> ino\<rbrakk> \<Longrightarrow> file_content s' j = file_content s j"
proof -
  have un: "file_wf s' j" "file_blocks s' j = file_blocks s j" "file_content s' j = file_content s j"
    and dj: "file_blocks s' ino \<inter> file_blocks s j = {}" if j: "j \<in> F" "j \<noteq> ino" for j
  proof -
    have wj: "file_wf s j" "file_blocks s ino \<inter> file_blocks s j = {}" using fw j by (auto simp: files_wf_def)
    have al: "allocated (sbi s) b" if "b \<in> file_blocks s j" for b
      using that wj by (auto simp: file_wf_def Let_def)
    have "bufs s' b = bufs s b \<and> allocated (sbi s') b" if "b \<in> file_blocks s j" for b
      using that wj(2) al by (intro keep) auto
    from file_unchanged [OF wj(1) inodes [OF j(2)] this]
    show "file_wf s' j" "file_blocks s' j = file_blocks s j" "file_content s' j = file_content s j" by simp_all
    show "file_blocks s' ino \<inter> file_blocks s j = {}" using fb wj(2) al by (auto simp: allocated_def)
  qed
  have "file_blocks s' i \<inter> file_blocks s' j = {}" if "i \<in> F" "j \<in> F" "i \<noteq> j" for i j
    using that un(2) [of i] un(2) [of j] dj [of i] dj [of j] fw
    by (cases "i = ino"; cases "j = ino") (auto simp: files_wf_def)
  moreover have "file_wf s' j" if "j \<in> F" for j
    using un(1) [OF that] s'(2) by (cases "j = ino") auto
  ultimately show "files_wf s' F" using s'(1) by (simp add: files_wf_def)
  show "file_content s' j = file_content s j" if "j \<in> F" "j \<noteq> ino" for j using un(3) that .
qed

text \<open>
  The footprint of an operation on file \<open>ino\<close>: it changes this inode only (neither its type nor its index
  block), exchanges blocks between the file and the free blocks without losing one, and touches no
  other block.
\<close>

definition file_frame :: "fs \<Rightarrow> nat \<Rightarrow> fs \<Rightarrow> bool" where
  "file_frame s ino s' \<longleftrightarrow>
     (\<forall>j. j \<noteq> ino \<longrightarrow> inodes s' j = inodes s j) \<and>
     i_mode (inodes s' ino) = i_mode (inodes s ino) \<and> index_block (inodes s' ino) = index_block (inodes s ino) \<and>
     blocks_change (sbi s) (sbi s') \<and>
     free_blocks (sbi s') \<union> file_blocks s' ino = free_blocks (sbi s) \<union> file_blocks s ino \<and>
     (\<forall>b. b \<notin> free_blocks (sbi s) \<union> file_blocks s ino \<longrightarrow> bufs s' b = bufs s b)"

lemma file_frame_trans: "\<lbrakk>file_frame s ino t; file_frame t ino u\<rbrakk> \<Longrightarrow> file_frame s ino u"
proof -
  assume f: "file_frame s ino t" "file_frame t ino u"
  have "blocks_change (sbi s) (sbi u)"
    using f blocks_change_trans [of "sbi s" "sbi t" "sbi u"] by (simp add: file_frame_def)
  then show ?thesis using f unfolding file_frame_def by auto
qed

lemma file_frame_cong:
  assumes "bufs s' = bufs s" "sbi s' = sbi s" "inodes s' = inodes s"
  shows "file_frame s ino s'"
proof -
  have "data_entries s' ino = data_entries s ino" using assms by (simp add: data_entries_def load_index_def)
  then show ?thesis using assms by (simp add: file_frame_def file_blocks_def)
qed

text \<open>Such an operation takes from the free blocks what the file grows by.\<close>

lemma file_frame_count:
  assumes wf: "fs_wf s" "file_wf s ino" "fs_wf s'" "file_wf s' ino" and fr: "file_frame s ino s'"
  shows "nr_free_blocks (sbi s') + length (data_entries s' ino) = nr_free_blocks (sbi s) + length (data_entries s ino)"
proof -
  have c: "card (free_blocks (sbi t) \<union> file_blocks t ino) = nr_free_blocks (sbi t) + Suc (length (data_entries t ino))"
    if t: "fs_wf t" "file_wf t ino" for t
  proof -
    let ?ns = "index_block (inodes t ino) # map get_block_number (data_entries t ino)"
    have "free_blocks (sbi t) \<inter> file_blocks t ino = {}" using t(2) by (auto simp: file_wf_def Let_def allocated_def)
    moreover have "finite (free_blocks (sbi t))" "nr_free_blocks (sbi t) = card (free_blocks (sbi t))"
      using balloc.finite_avail [of "sbi t"] t(1) by (simp_all add: fs_wf_def block_map_wf_def)
    moreover have "distinct ?ns" using t(2) unfolding file_wf_def Let_def index_wf_def data_entries_def by blast
    then have "card (set ?ns) = length ?ns" by (rule distinct_card)
    then have "card (file_blocks t ino) = Suc (length (data_entries t ino))" by (simp add: file_blocks_def)
    moreover have "finite (file_blocks t ino)" by (simp add: file_blocks_def)
    ultimately show ?thesis by (simp add: card_Un_disjoint)
  qed
  have "free_blocks (sbi s') \<union> file_blocks s' ino = free_blocks (sbi s) \<union> file_blocks s ino" using fr by (simp add: file_frame_def)
  then show ?thesis using c [OF wf(1,2)] c [OF wf(3,4)] by simp
qed

end
