(* ===== verification/Cursor.thy ===== *)
theory Cursor
  imports Vfs
begin

text \<open>
  \<open>find_block_pos\<close> of file.c: from a byte position to the index of a data block and the
  position inside it, by walking the sizes of the blocks.
\<close>

section \<open>The walk\<close>

text \<open>
  \<open>Found i p\<close> is a return of 0 with the two output parameters set, \<open>NotFound\<close> a return of 1
  that leaves them untouched.
\<close>

datatype block_pos = NotFound | Found int int

function find_block_loop :: "entry list \<Rightarrow> int \<Rightarrow> int \<Rightarrow> int \<Rightarrow> block_pos option" where
  "find_block_loop idx nb_blocks current_block remaining_size =
     (if remaining_size = 0 then Some (Found current_block remaining_size)
      else if current_block = nb_blocks then Some NotFound
      else case arr idx current_block of
             None \<Rightarrow> None
           | Some e \<Rightarrow>
               (let block_size = get_block_size e in
                if s32 (remaining_size - block_size) \<le> 0
                then Some (Found current_block remaining_size)
                else find_block_loop idx nb_blocks (current_block + 1)
                       (s32 (remaining_size - block_size))))"
  by pat_completeness auto
termination
  by (relation "measure (\<lambda>(idx, nb, cur, rem). nat (int (length idx) - cur))")
    (auto dest: arr_SomeD)

declare find_block_loop.simps [simp del]

definition find_block_pos :: "int \<Rightarrow> entry list \<Rightarrow> int \<Rightarrow> block_pos option" where
  "find_block_pos pos idx nb_blocks = find_block_loop idx nb_blocks 0 (s32 pos)"

section \<open>What it computes\<close>

text \<open>
  The position \<open>(i, p)\<close> of byte \<open>pos\<close> in a list of fragments, as the walk chooses it: at the
  start of the file it is \<open>(0, 0)\<close>, otherwise the fragment that holds byte \<open>pos - 1\<close>, with
  \<open>p\<close> counted from its start (so \<open>p\<close> can be the fragment's end, never its beginning).
\<close>

definition located :: "entry list \<Rightarrow> int \<Rightarrow> nat \<Rightarrow> int \<Rightarrow> bool" where
  "located es pos i p \<longleftrightarrow>
     total_size (take i es) + p = pos \<and>
     (if pos = 0 then i = 0 else i < length es \<and> 0 < p \<and> p \<le> get_block_size (es ! i))"

lemma located_unique:
  assumes "located es pos i p" "located es pos j q"
  shows "i = j \<and> p = q"
proof -
  have less: False if "i < j" "located es pos i p" "located es pos j q" "0 < pos" for i j p q
  proof -
    have "take (Suc i) es = take i es @ [es ! i]" "i < length es"
      using that by (auto simp: located_def take_Suc_conv_app_nth)
    moreover have "total_size (take (Suc i) es) \<le> total_size (take j es)"
      using total_size_take_le [of "Suc i" "take j es"] that(1) by (simp add: min_def)
    ultimately show False using that by (auto simp: located_def)
  qed
  have "0 \<le> pos"
    using assms total_size_nonneg [of "take i es"] by (auto simp: located_def split: if_splits)
  moreover have "i = j" if "0 < pos"
    using less [of i j p q] less [of j i q p] assms that by (cases i j rule: linorder_cases) auto
  ultimately show ?thesis using assms by (cases "pos = 0") (auto simp: located_def)
qed

lemma find_block_loop_found:
  assumes "n \<le> length idx" "k \<le> n" "0 \<le> rem" "rem < 2147483648"
  shows "if total_size (drop k (take n idx)) < rem
    then find_block_loop idx (int n) (int k) rem = Some NotFound
    else \<exists>i p. find_block_loop idx (int n) (int k) rem = Some (Found (int (k + i)) p) \<and>
           located (drop k (take n idx)) rem i p"
  using assms
proof (induction "n - k" arbitrary: k rem)
  case 0
  then have "k = n" by simp
  then show ?case using 0
    by (auto simp: find_block_loop.simps [of idx "int n"] located_def
        intro: exI [of _ "0 :: nat"])
next
  case (Suc d)
  let ?e = "idx ! k"
  have k: "k < n" "k < length idx" using Suc.hyps(2) Suc.prems by auto
  then have es: "drop k (take n idx) = ?e # drop (Suc k) (take n idx)"
    by (simp add: Cons_nth_drop_Suc [symmetric])
  show ?case
  proof (cases "rem = 0 \<or> rem \<le> get_block_size ?e")
    case True
    have s: "s32 (rem - get_block_size ?e) = rem - get_block_size ?e"
      using Suc.prems get_block_size_le [of ?e] get_block_size_nonneg [of ?e] by (intro s32_id) linarith+
    have "find_block_loop idx (int n) (int k) rem = Some (Found (int k) rem)"
      using True k Suc.prems s
      by (auto simp: find_block_loop.simps [of idx "int n" "int k" rem] arr_int)
    moreover have "located (drop k (take n idx)) rem 0 rem"
      using True Suc.prems by (auto simp: located_def es)
    moreover have "\<not> total_size (drop k (take n idx)) < rem"
      using True total_size_nonneg [of "drop (Suc k) (take n idx)"] get_block_size_nonneg [of ?e]
      unfolding es total_size_simps by linarith
    ultimately show ?thesis by (auto intro!: exI [of _ 0] exI [of _ rem])
  next
    case False
    let ?r = "rem - get_block_size ?e"
    have r: "0 < ?r" "?r < 2147483648" using False Suc.prems get_block_size_nonneg [of ?e] by linarith+
    then have s: "s32 ?r = ?r" by (intro s32_id) linarith+
    have step: "find_block_loop idx (int n) (int k) rem = find_block_loop idx (int n) (int (Suc k)) ?r"
      using False k s r by (subst find_block_loop.simps) (simp add: arr_int ac_simps)
    have IH: "if total_size (drop (Suc k) (take n idx)) < ?r
      then find_block_loop idx (int n) (int (Suc k)) ?r = Some NotFound
      else \<exists>i p. find_block_loop idx (int n) (int (Suc k)) ?r = Some (Found (int (Suc k + i)) p) \<and>
             located (drop (Suc k) (take n idx)) ?r i p"
      using Suc.hyps Suc.prems k r by (intro Suc.hyps(1)) auto
    show ?thesis
    proof (cases "total_size (drop (Suc k) (take n idx)) < ?r")
      case True
      with IH step show ?thesis by (simp add: es)
    next
      case F2: False
      then obtain i p where ip: "find_block_loop idx (int n) (int (Suc k)) ?r = Some (Found (int (Suc k + i)) p)"
          "located (drop (Suc k) (take n idx)) ?r i p"
        using IH by auto
      then have "located (drop k (take n idx)) rem (Suc i) p"
        using False Suc.prems r by (auto simp: located_def es)
      with F2 ip step show ?thesis by (auto simp: es intro!: exI [of _ "Suc i"] exI [of _ p])
    qed
  qed
qed

lemma find_block_pos_located:
  assumes "n \<le> length idx" "0 \<le> pos" "pos < 2147483648" "pos \<le> total_size (take n idx)"
  obtains i p where "find_block_pos pos idx (int n) = Some (Found (int i) p)"
    and "located (take n idx) pos i p"
  using find_block_loop_found [of n idx 0 pos] assms
  by (auto simp: find_block_pos_def s32_id)

lemma find_block_pos_beyond:
  assumes "n \<le> length idx" "0 \<le> pos" "pos < 2147483648" "total_size (take n idx) < pos"
  shows "find_block_pos pos idx (int n) = Some NotFound"
  using find_block_loop_found [of n idx 0 pos] assms
  by (auto simp: find_block_pos_def s32_id)

section \<open>Splitting the content at a located position\<close>

lemma located_bounds:
  assumes "located es pos i p"
  shows "0 \<le> p" and "i \<le> length es" and "p \<le> 4096"
  using assms get_block_size_le [of "es ! i"]
  by (auto simp: located_def split: if_splits)

lemma located_end:
  "located es pos i p \<Longrightarrow> i < length es \<Longrightarrow> p \<le> get_block_size (es ! i)"
  by (auto simp: located_def split: if_splits)

lemma located_split:
  assumes len: "\<And>b. length (bs b) = 4096" and loc: "located es pos i p" and i: "i < length es"
  shows "take (nat pos) (fragments bs es) = fragments bs (take i es) @ take (nat p) (fragment bs (es ! i))"
    and "drop (nat pos) (fragments bs es) = drop (nat p) (fragment bs (es ! i)) @ fragments bs (drop (Suc i) es)"
proof -
  have es: "fragments bs es = fragments bs (take i es) @ fragment bs (es ! i) @ fragments bs (drop (Suc i) es)"
    using i unfolding fragments_def by (rule concat_map_split)
  have l: "int (length (fragments bs (take i es))) = total_size (take i es)"
    by (rule length_fragments) (rule len)
  have f: "length (fragment bs (es ! i)) = nat (get_block_size (es ! i))"
    by (rule length_fragment) (rule len)
  have pos: "nat pos = length (fragments bs (take i es)) + nat p"
    using loc l located_bounds(1) [OF loc] by (auto simp: located_def)
  have p: "nat p \<le> length (fragment bs (es ! i))"
    using located_end [OF loc i] f by simp
  show "take (nat pos) (fragments bs es) = fragments bs (take i es) @ take (nat p) (fragment bs (es ! i))"
    using p by (simp add: es pos)
  show "drop (nat pos) (fragments bs es) = drop (nat p) (fragment bs (es ! i)) @ fragments bs (drop (Suc i) es)"
    using p by (simp add: es pos)
qed

end
