(* ===== verification/Write.thy ===== *)
theory Write
  imports Cursor "HOL-Library.Signed_Division"
begin

text \<open>
  The operations of write.c: the block reservation both writes share, the overwriting
  \<open>ouichefs_write\<close>, and the inserting \<open>ouichefs_light_write\<close> with its helpers.

  Helpers that touch only the superblock information, the inode and the index take and return
  these values; the callers store the index back into its buffer at once. Helpers that touch data
  buffers as well work on the whole state and reload the index after every buffer update, so
  that an index block that is also listed as a data block is treated as the code treats it.
\<close>

section \<open>Flags, space and reservation\<close>

text \<open>Returns the result and the updated position. \<open>O_RDONLY\<close> is 0, so the test never fires.\<close>

definition write_flags :: "file \<Rightarrow> int \<Rightarrow> inode \<Rightarrow> int \<times> int" where
  "write_flags f pos I =
     (let pos = (if f_flags f AND O_APPEND \<noteq> 0 then i_size I else pos)
      in if f_flags f AND O_RDONLY \<noteq> 0 then (-1, pos) else (0, pos))"

text \<open>The loop of \<open>reserve_empty_blocks\<close> over the unsigned slot number \<open>bli\<close>.\<close>

function reserve_loop ::
    "sb_info \<Rightarrow> inode \<Rightarrow> entry list \<Rightarrow> nat \<Rightarrow> nat \<Rightarrow> (int \<times> sb_info \<times> inode \<times> entry list) option"
  where
  "reserve_loop q I idx bli stop =
     (if bli < stop then
        case arr idx (int bli) of
          None \<Rightarrow> None
        | Some e \<Rightarrow>
            if e \<noteq> 0 then reserve_loop q I idx (Suc bli) stop
            else
              (case get_free_block q of
                 None \<Rightarrow> None
               | Some (bno, q') \<Rightarrow>
                   if bno = 0 then Some (1, q', I, idx)
                   else reserve_loop q' (I\<lparr>i_blocks := u64 (int (i_blocks I) + 1)\<rparr>)
                          (idx[bli := set_block_size (set_block_number e bno) 0]) (Suc bli) stop)
      else Some (0, q, I, idx))"
  by pat_completeness auto
termination
  by (relation "measure (\<lambda>(q, I, idx, bli, stop). stop - bli)") auto

declare reserve_loop.simps [simp del]

definition reserve_empty_blocks ::
    "sb_info \<Rightarrow> inode \<Rightarrow> entry list \<Rightarrow> int \<Rightarrow> int \<Rightarrow> (int \<times> sb_info \<times> inode \<times> entry list) option" where
  "reserve_empty_blocks q I idx block_index nb_blocks =
     reserve_loop q I idx (u32 block_index) (u32 (block_index + nb_blocks))"

definition space_available :: "inode \<Rightarrow> sb_info \<Rightarrow> int \<Rightarrow> int" where
  "space_available I q nb_allocs =
     (if u64 (nb_allocs + int (i_blocks I) - 1) > OUICHEFS_BLOCK_SIZE div 4 then - ENOSPC
      else if u32 nb_allocs > nr_free_blocks q then - ENOSPC
      else 0)"

definition reserve_write_blocks ::
    "sb_info \<Rightarrow> inode \<Rightarrow> entry list \<Rightarrow> int \<Rightarrow> (int \<times> sb_info \<times> inode \<times> entry list) option" where
  "reserve_write_blocks q I idx nb_allocs =
     (let alloc_start = max (s32 (int (i_blocks I)) - 1) 0
      in reserve_empty_blocks q I idx alloc_start nb_allocs)"

section \<open>Overwriting\<close>

text \<open>The loop of \<open>ouichefs_write\<close>; it ends with the bytes that remain to be written.\<close>

function write_loop ::
    "kenv \<Rightarrow> nat \<Rightarrow> int \<Rightarrow> nat \<Rightarrow> byte list \<Rightarrow> fs \<Rightarrow> nat \<Rightarrow> int \<Rightarrow> int \<Rightarrow> (nat \<times> fs) option" where
  "write_loop env ib nb_blocks sz buff s remaining lbi lp =
     (if remaining \<noteq> 0 \<and> lbi < nb_blocks then
        case arr (load_index s ib) lbi of
          None \<Rightarrow> None
        | Some bno \<Rightarrow>
            if \<not> bread_ok env (unat bno) then Some (remaining, s)
            else
              (let available = u64 (int OUICHEFS_BLOCK_SIZE - lp) in
               if available \<le> 0 then Some (remaining, s)
               else
                 (let len = min available remaining in
                  case copy_from_user env buff (sz - remaining) len of (r, bytes) \<Rightarrow>
                  case mem_write (bufs s (unat bno)) lp bytes of
                    None \<Rightarrow> None
                  | Some b \<Rightarrow>
                      (let s = set_buf (unat bno) b s in
                       if r \<noteq> 0 then Some (remaining, s)
                       else write_loop env ib nb_blocks sz buff (write_back (unat bno) s)
                              (remaining - len) (lbi + 1) 0)))
      else Some (remaining, s))"
  by pat_completeness auto
termination
  by (relation "measure (\<lambda>(env, ib, nb, sz, buff, s, rem, lbi, lp). rem)") (auto simp: min_def)

declare write_loop.simps [simp del]

text \<open>The label \<open>write_end\<close> of \<open>ouichefs_write\<close>.\<close>

definition write_end :: "kenv \<Rightarrow> nat \<Rightarrow> nat \<Rightarrow> nat \<Rightarrow> int \<Rightarrow> fs \<Rightarrow> int \<times> int \<times> fs" where
  "write_end env ino sz remaining pos s =
     (let written = sz - remaining;
          new_file_size = u64 (pos + int written);
          I = inodes s ino;
          I = (if new_file_size > u64 (i_size I) then I\<lparr>i_size := int new_file_size\<rparr> else I);
          s = set_inode ino I s;
          s = (if written > 0
               then mark_inode_dirty ino
                      (set_inode ino (I\<lparr>i_mtime := current_time env, i_ctime := current_time env\<rparr>) s)
               else s)
      in (int written, pos + int written, s))"

definition ouichefs_write ::
    "kenv \<Rightarrow> file \<Rightarrow> byte list \<Rightarrow> nat \<Rightarrow> int \<Rightarrow> fs \<Rightarrow> (int \<times> int \<times> fs) option" where
  "ouichefs_write env f buff sz pos s =
     (let ino = f_inode f; I = inodes s ino; ib = index_block I in
      case write_flags f pos I of (r, pos) \<Rightarrow>
      if r < 0 then Some (- EINVAL, pos, s)
      else if u64 (pos + int sz) > OUICHEFS_MAX_FILESIZE then Some (- ENOSPC, pos, s)
      else
        (let nb_allocs = idiv_ceil (u32 (max (pos + int (u32 (int sz))) (i_size I))) OUICHEFS_BLOCK_SIZE;
             nb_allocs = max (s32 (int nb_allocs) - (s32 (int (i_blocks I)) - 1)) 0 in
         if space_available I (sbi s) nb_allocs < 0 then Some (- ENOSPC, pos, s)
         else if \<not> bread_ok env ib then Some (write_end env ino sz sz pos s)
         else
           do { (ret, q, I, idx) \<leftarrow> reserve_write_blocks (sbi s) I (load_index s ib) nb_allocs;
                let s = set_inode ino I (store_index ib idx (s\<lparr>sbi := q\<rparr>));
                if ret \<noteq> 0 then Some (write_end env ino sz sz pos s)
                else
                  do { let nb_blocks = s32 (int (i_blocks I) - 1);
                       let lbi = s32 (pos sdiv int OUICHEFS_BLOCK_SIZE);
                       let lp = pos smod int OUICHEFS_BLOCK_SIZE;
                       (remaining, s) \<leftarrow> write_loop env ib nb_blocks sz buff s sz lbi lp;
                       Some (write_end env ino sz remaining pos (write_back ib s)) } }))"

section \<open>Inserting: index helpers\<close>

function shift_loop :: "entry list \<Rightarrow> int \<Rightarrow> int \<Rightarrow> int \<Rightarrow> entry list option" where
  "shift_loop idx block_index nb_shift bli =
     (if bli \<ge> block_index then
        do { e \<leftarrow> arr idx bli;
             idx \<leftarrow> arr_set idx (bli + nb_shift) e;
             idx \<leftarrow> arr_set idx bli 0;
             shift_loop idx block_index nb_shift (bli - 1) }
      else Some idx)"
  by pat_completeness auto
termination
  by (relation "measure (\<lambda>(idx, block_index, nb_shift, bli). nat (bli - block_index + 1))") auto

declare shift_loop.simps [simp del]

definition shift_blocks :: "entry list \<Rightarrow> int \<Rightarrow> int \<Rightarrow> int \<Rightarrow> entry list option" where
  "shift_blocks idx block_index nb_shift last_bli = shift_loop idx block_index nb_shift last_bli"

text \<open>The loop that grows the blocks up to the cursor; it ends with \<open>filled\<close>, \<open>bli\<close> and the index.\<close>

function fill_loop :: "entry list \<Rightarrow> int \<Rightarrow> int \<Rightarrow> int \<Rightarrow> (int \<times> int \<times> entry list) option" where
  "fill_loop idx to_fill filled bli =
     (if filled < to_fill then
        case arr idx bli of
          None \<Rightarrow> None
        | Some e \<Rightarrow>
            (let remaining = int OUICHEFS_BLOCK_SIZE - get_block_size e;
                 block_size = min (to_fill - filled) remaining
             in fill_loop (idx[nat bli := add_block_size e block_size]) to_fill
                  (filled + block_size) (bli + 1))
      else Some (filled, bli, idx))"
  by pat_completeness auto
termination
  by (relation "measure (\<lambda>(idx, to_fill, filled, bli). nat (int (length idx) - bli))")
    (auto dest!: arr_SomeD)

declare fill_loop.simps [simp del]

text \<open>
  \<open>fill_to_reach_pos\<close>; the result is the C result, the updated superblock information, inode and
  index, and the two output parameters (arbitrary when the call fails).
\<close>

definition fill_to_reach_pos ::
    "sb_info \<Rightarrow> inode \<Rightarrow> entry list \<Rightarrow> int \<Rightarrow>
     (int \<times> sb_info \<times> inode \<times> entry list \<times> int \<times> int) option" where
  "fill_to_reach_pos q I idx pos =
     do { let last_bli = max (s32 (int (i_blocks I)) - 2) 0;
          e \<leftarrow> arr idx last_bli;
          let available_size = (if e = 0 then 0 else int OUICHEFS_BLOCK_SIZE - get_block_size e);
          let to_fill = s32 (pos - i_size I);
          let nb_blocks_to_fill =
            int (idiv_ceil (u32 (max (to_fill - available_size) 0)) OUICHEFS_BLOCK_SIZE);
          if space_available I q nb_blocks_to_fill < 0 then Some (- ENOSPC, q, I, idx, 0, 0)
          else
            do { let alloc_start = max (s32 (int (i_blocks I)) - 1) 0;
                 (_, q, I, idx) \<leftarrow> reserve_empty_blocks q I idx alloc_start nb_blocks_to_fill;
                 let bli = (if available_size > 0 then max (alloc_start - 1) 0 else alloc_start);
                 (filled, bli, idx) \<leftarrow> fill_loop idx to_fill 0 bli;
                 let bli = bli - 1;
                 let I = I\<lparr>i_size := i_size I + filled\<rparr>;
                 e \<leftarrow> arr idx bli;
                 let last_block_size = get_block_size e;
                 let full = (last_block_size = int OUICHEFS_BLOCK_SIZE);
                 Some (0, q, I, idx, if full then bli + 1 else bli, if full then 0 else last_block_size) } }"

section \<open>Inserting: data blocks\<close>

definition move_old_content_to ::
    "kenv \<Rightarrow> nat \<Rightarrow> int \<Rightarrow> int \<Rightarrow> int \<Rightarrow> fs \<Rightarrow> (int \<times> fs) option" where
  "move_old_content_to env ib from_i to_i lp s =
     do { ef \<leftarrow> arr (load_index s ib) from_i;
          et \<leftarrow> arr (load_index s ib) to_i;
          let to_copy = get_block_size ef - lp;
          let bf = get_block_number ef;
          let bt = get_block_number et;
          if \<not> bread_ok env bf \<or> \<not> bread_ok env bt then Some (- EIO, s)
          else if to_copy < 0 then None
          else
            do { src \<leftarrow> mem_read (bufs s bf) lp (nat to_copy);
                 b \<leftarrow> mem_write (bufs s bt) 0 src;
                 let s = set_buf bt b s;
                 b \<leftarrow> mem_write (bufs s bf) lp (replicate (nat to_copy) 0);
                 let s = set_buf bf b s;
                 ef \<leftarrow> arr (load_index s ib) from_i;
                 idx \<leftarrow> arr_set (load_index s ib) from_i (sub_block_size ef to_copy);
                 et \<leftarrow> arr idx to_i;
                 idx \<leftarrow> arr_set idx to_i (set_block_size et to_copy);
                 Some (0, write_back bt (store_index ib idx s)) } }"

text \<open>The loop of \<open>ouichefs_light_write\<close>; it ends with \<open>ret\<close>, the bytes that remain, the state.\<close>

function light_write_loop ::
    "kenv \<Rightarrow> nat \<Rightarrow> int \<Rightarrow> nat \<Rightarrow> byte list \<Rightarrow> fs \<Rightarrow> nat \<Rightarrow> int \<Rightarrow> int \<Rightarrow> (int \<times> nat \<times> fs) option" where
  "light_write_loop env ib nb_blocks sz buff s remaining lbi lp =
     (if remaining \<noteq> 0 \<and> lbi < nb_blocks then
        case arr (load_index s ib) lbi of
          None \<Rightarrow> None
        | Some bno \<Rightarrow>
            (let b = get_block_number bno in
             if \<not> bread_ok env b then Some (- EIO, remaining, s)
             else
               (let available = u64 (int OUICHEFS_BLOCK_SIZE - lp) in
                if available = 0 then Some (- ENODATA, remaining, s)
                else
                  (let len = min available remaining in
                   case copy_from_user env buff (sz - remaining) len of (r, bytes) \<Rightarrow>
                   case mem_write (bufs s b) lp bytes of
                     None \<Rightarrow> None
                   | Some blk \<Rightarrow>
                       (let s = set_buf b blk s in
                        if r \<noteq> 0 then Some (- EIO, remaining, s)
                        else
                          (case arr (load_index s ib) lbi of
                             None \<Rightarrow> None
                           | Some e \<Rightarrow>
                               (let s = store_index ib ((load_index s ib)[nat lbi := set_block_size e (lp + int len)]) s
                                in light_write_loop env ib nb_blocks sz buff (write_back b s)
                                     (remaining - len) (lbi + 1) 0))))))
      else Some (0, remaining, s))"
  by pat_completeness auto
termination
  by (relation "measure (\<lambda>(env, ib, nb, sz, buff, s, rem, lbi, lp). rem)") (auto simp: min_def)

declare light_write_loop.simps [simp del]

section \<open>Inserting: the operation\<close>

text \<open>
  Where the insertion starts: by filling up to the cursor when it lies beyond the end of the
  file, else by walking the block sizes. Result: \<open>ret\<close>, the state, the block index, the position
  in it, and the flags \<open>move_old_content\<close> and \<open>shift_old_content\<close> with \<open>last_bli\<close>. When the walk
  finds nothing the code goes on with variables it never set.
\<close>

definition light_write_place ::
    "nat \<Rightarrow> int \<Rightarrow> fs \<Rightarrow> (int \<times> fs \<times> int \<times> int \<times> bool \<times> bool \<times> int) option" where
  "light_write_place ino pos s =
     (let I = inodes s ino; ib = index_block I in
      if pos > i_size I then
        do { (ret, q, I, idx, lbi, lp) \<leftarrow> fill_to_reach_pos (sbi s) I (load_index s ib) pos;
             Some (ret, set_inode ino I (store_index ib idx (s\<lparr>sbi := q\<rparr>)), lbi, lp, False, False, 0) }
      else
        do { r \<leftarrow> find_block_pos pos (load_index s ib) (s32 (int (i_blocks I) - 1));
             case r of
               NotFound \<Rightarrow> None
             | Found lbi lp \<Rightarrow>
                 do { e \<leftarrow> arr (load_index s ib) lbi;
                      let to_copy = u64 (get_block_size e - lp);
                      let last_bli = max (s32 (int (i_blocks I)) - 2) 0;
                      Some (0, s, lbi, lp, to_copy > 0, lbi \<noteq> last_bli, last_bli) } })"

text \<open>How many blocks are needed, and their reservation after the block of the cursor.\<close>

definition light_write_alloc ::
    "nat \<Rightarrow> nat \<Rightarrow> int \<Rightarrow> int \<Rightarrow> bool \<Rightarrow> bool \<Rightarrow> int \<Rightarrow> fs \<Rightarrow> (int \<times> int \<times> fs) option" where
  "light_write_alloc ino sz lbi lp move_old shift_old last_bli s =
     (let I = inodes s ino; ib = index_block I; idx = load_index s ib;
          available_size = int OUICHEFS_BLOCK_SIZE - lp;
          remaining_size = max (s32 (int sz) - available_size) 0;
          nb_allocs = int (idiv_ceil (u32 remaining_size) OUICHEFS_BLOCK_SIZE) + of_bool move_old in
      do { e \<leftarrow> arr idx lbi;
           let nb_allocs = nb_allocs + of_bool (e = 0);
           if space_available I (sbi s) nb_allocs < 0 then Some (- ENOSPC, nb_allocs, s)
           else
             do { let alloc_index_start = (if e = 0 then lbi else lbi + 1);
                  idx \<leftarrow> (if shift_old \<and> nb_allocs > 0
                         then shift_blocks idx alloc_index_start nb_allocs last_bli else Some idx);
                  (_, q, I, idx) \<leftarrow> reserve_empty_blocks (sbi s) I idx alloc_index_start nb_allocs;
                  Some (0, nb_allocs, set_inode ino I (store_index ib idx (s\<lparr>sbi := q\<rparr>))) } })"

text \<open>The label \<open>write_end\<close> of \<open>ouichefs_light_write\<close>.\<close>

definition light_write_end ::
    "kenv \<Rightarrow> nat \<Rightarrow> nat \<Rightarrow> nat \<Rightarrow> int \<Rightarrow> int \<Rightarrow> fs \<Rightarrow> int \<times> int \<times> fs" where
  "light_write_end env ino sz remaining pos ret s =
     (let written = sz - remaining;
          I = inodes s ino;
          s = (if written > 0
               then mark_inode_dirty ino
                      (set_inode ino (I\<lparr>i_size := i_size I + int written,
                         i_mtime := current_time env, i_ctime := current_time env\<rparr>) s)
               else s)
      in (if ret = 0 then int written else ret, pos + int written, s))"

definition ouichefs_light_write ::
    "kenv \<Rightarrow> file \<Rightarrow> byte list \<Rightarrow> nat \<Rightarrow> int \<Rightarrow> fs \<Rightarrow> (int \<times> int \<times> fs) option" where
  "ouichefs_light_write env f buff sz pos s =
     (let ino = f_inode f; I = inodes s ino; ib = index_block I in
      case write_flags f pos I of (r, pos) \<Rightarrow>
      if r < 0 then Some (- EINVAL, pos, s)
      else if u64 (pos + int sz) > OUICHEFS_MAX_FILESIZE then Some (- ENOSPC, pos, s)
      else if \<not> bread_ok env ib then Some (light_write_end env ino sz sz pos (- EIO) s)
      else
        do { (ret, s, lbi, lp, move_old, shift_old, last_bli) \<leftarrow> light_write_place ino pos s;
             if ret < 0 then Some (light_write_end env ino sz sz pos ret (write_back ib s))
             else
               do { (ret, nb_allocs, s) \<leftarrow>
                      light_write_alloc ino sz lbi lp move_old shift_old last_bli s;
                    if ret < 0 then Some (light_write_end env ino sz sz pos ret (write_back ib s))
                    else
                      do { (ret, s) \<leftarrow> (if move_old then move_old_content_to env ib lbi (lbi + nb_allocs) lp s
                                        else Some (ret, s));
                           if ret < 0 then Some (light_write_end env ino sz sz pos ret (write_back ib s))
                           else
                             do { let nb_blocks = s32 (int (i_blocks (inodes s ino)) - 1);
                                  (ret, remaining, s) \<leftarrow>
                                    light_write_loop env ib nb_blocks sz buff s sz lbi lp;
                                  Some (light_write_end env ino sz remaining pos ret (write_back ib s)) } } } })"

end
