(* ===== verification/Reserve.thy ===== *)
theory Reserve
  imports Write
begin

text \<open>
  What the index helpers of write.c do: \<open>reserve_empty_blocks\<close> fills a run of free slots with fresh
  blocks, \<open>shift_blocks\<close> opens a gap in the index. Both rest on the contract of the block
  allocator (interpretation \<open>balloc\<close>).
\<close>

section \<open>Reservation\<close>

lemma reserve_loop_spec:
  assumes "block_map_wf q" "nr_blocks q \<le> 2 ^ 19" "k \<le> nr_free_blocks q"
    and "i_blocks I + k < 2 ^ 64"
  shows "\<exists>bs q'. reserve_loop q I (A @ replicate k 0 @ R) (length A) (length A + k) =
      Some (0, q', I\<lparr>i_blocks := i_blocks I + k\<rparr>, A @ map fresh_entry bs @ R) \<and>
    length bs = k \<and> distinct bs \<and> set bs \<subseteq> free_blocks q \<and> block_map_wf q' \<and>
    free_blocks q' = free_blocks q - set bs \<and> nr_blocks q' = nr_blocks q \<and>
    blocks_change q q'"
  using assms
proof (induction k arbitrary: q I A)
  case 0
  then show ?case by (auto simp: reserve_loop.simps [of q I _ "length A"] intro!: exI [of _ q])
next
  case (Suc k)
  have "0 < nr_free_blocks q" using Suc.prems by simp
  from balloc.alloc_fresh [OF Suc.prems(1) this] obtain b q1 where q1:
      "get_free_block q = Some (b, q1)" "b \<in> free_blocks q" "0 < b" "b < nr_blocks q"
      "block_map_wf q1" "free_blocks q1 = free_blocks q - {b}" "nr_blocks q1 = nr_blocks q"
      "nr_free_blocks q1 = nr_free_blocks q - 1"
    by blast
  let ?I = "I\<lparr>i_blocks := i_blocks I + 1\<rparr>"
  have u: "u64 (int (i_blocks I) + 1) = i_blocks I + 1"
    using Suc.prems(4) by (simp add: u64_id nat_add_distrib)
  have "\<exists>bs q'. reserve_loop q1 ?I ((A @ [fresh_entry b]) @ replicate k 0 @ R)
        (length (A @ [fresh_entry b])) (length (A @ [fresh_entry b]) + k) =
      Some (0, q', ?I\<lparr>i_blocks := i_blocks ?I + k\<rparr>, (A @ [fresh_entry b]) @ map fresh_entry bs @ R) \<and>
    length bs = k \<and> distinct bs \<and> set bs \<subseteq> free_blocks q1 \<and> block_map_wf q' \<and>
    free_blocks q' = free_blocks q1 - set bs \<and> nr_blocks q' = nr_blocks q1 \<and>
    blocks_change q1 q'"
    using Suc.prems q1 by (intro Suc.IH) auto
  then obtain bs q' where IH: "reserve_loop q1 ?I (A @ fresh_entry b # replicate k 0 @ R)
        (Suc (length A)) (Suc (length A + k)) =
      Some (0, q', I\<lparr>i_blocks := i_blocks I + Suc k\<rparr>, A @ fresh_entry b # map fresh_entry bs @ R)"
    "length bs = k" "distinct bs" "set bs \<subseteq> free_blocks q1" "block_map_wf q'"
    "free_blocks q' = free_blocks q1 - set bs" "nr_blocks q' = nr_blocks q1"
    "blocks_change q1 q'"
    by auto
  have "reserve_loop q I (A @ replicate (Suc k) 0 @ R) (length A) (length A + Suc k) =
      reserve_loop q1 ?I (A @ fresh_entry b # replicate k 0 @ R) (Suc (length A)) (Suc (length A + k))"
    using q1 u by (subst reserve_loop.simps) (simp add: arr_int fresh_entry_def)
  then have call: "reserve_loop q I (A @ replicate (Suc k) 0 @ R) (length A) (length A + Suc k) =
      Some (0, q', I\<lparr>i_blocks := i_blocks I + Suc k\<rparr>, A @ map fresh_entry (b # bs) @ R)"
    using IH(1) by simp
  show ?case
  proof (intro exI [of _ "b # bs"] exI [of _ q'] conjI)
    show "blocks_change q q'"
      using blocks_change_trans [OF blocks_change_alloc(1) [OF q1(1)] IH(8)] .
  qed (use call IH(2-7) q1 in auto)
qed

lemma reserve_empty_blocks_spec:
  assumes "block_map_wf q" "nr_blocks q \<le> 2 ^ 19" "k \<le> nr_free_blocks q"
    and "i_blocks I + k < 2 ^ 64" "length A + k < 2 ^ 32"
  shows "\<exists>bs q'. reserve_empty_blocks q I (A @ replicate k 0 @ R) (int (length A)) (int k) =
      Some (0, q', I\<lparr>i_blocks := i_blocks I + k\<rparr>, A @ map fresh_entry bs @ R) \<and>
    length bs = k \<and> distinct bs \<and> set bs \<subseteq> free_blocks q \<and> block_map_wf q' \<and>
    free_blocks q' = free_blocks q - set bs \<and> nr_blocks q' = nr_blocks q \<and>
    blocks_change q q'"
proof -
  have "u32 (int (length A)) = length A" "u32 (int (length A) + int k) = length A + k"
    using assms(5) by (simp_all add: u32_id nat_add_distrib)
  then show ?thesis
    unfolding reserve_empty_blocks_def using reserve_loop_spec [OF assms(1-4)] by simp
qed

section \<open>Opening a gap\<close>

lemma shift_loop_spec:
  assumes "0 < k"
  shows "shift_loop (A @ B @ replicate k 0 @ R) (int (length A)) (int k) (int (length A + length B) - 1) =
    Some (A @ replicate k 0 @ B @ R)"
proof (induction B arbitrary: R rule: rev_induct)
  case Nil
  then show ?case by (simp add: shift_loop.simps [of "A @ replicate k 0 @ R"])
next
  case (snoc b B)
  let ?j = "length A + length B"
  obtain k' where k: "k = Suc k'" using assms by (cases k) auto
  have e: "arr (A @ (B @ [b]) @ replicate k 0 @ R) (int ?j) = Some b"
    by (subst arr_int) (simp_all add: nth_append)
  have s1: "arr_set (A @ (B @ [b]) @ replicate k 0 @ R) (int ?j + int k) b =
      Some (A @ B @ b # replicate k' 0 @ b # R)"
  proof -
    have "replicate k (0 :: entry) @ R = replicate k' 0 @ 0 # R"
      by (simp add: k replicate_append_same [symmetric])
    then have "(A @ (B @ [b]) @ replicate k 0 @ R)[?j + k := b] =
        (A @ B @ b # replicate k' 0 @ 0 # R)[?j + k := b]"
      by simp
    also have "\<dots> = A @ B @ b # replicate k' 0 @ b # R"
      by (simp add: k list_update_append)
    finally show ?thesis by (simp add: arr_set_def nat_add_distrib nat_int_add)
  qed
  have s2: "arr_set (A @ B @ b # replicate k' 0 @ b # R) (int ?j) 0 =
      Some (A @ B @ replicate k 0 @ b # R)"
    by (simp add: arr_set_def k list_update_append nat_int_add replicate_append_same [symmetric])
  have "shift_loop (A @ (B @ [b]) @ replicate k 0 @ R) (int (length A)) (int k) (int ?j) =
      shift_loop (A @ B @ replicate k 0 @ b # R) (int (length A)) (int k) (int ?j - 1)"
    using e s1 s2 by (subst shift_loop.simps) (simp add: add.commute)
  then show ?case using snoc.IH [of "b # R"] by simp
qed

lemma shift_blocks_spec:
  "0 < k \<Longrightarrow>
   shift_blocks (A @ B @ replicate k 0 @ R) (int (length A)) (int k) (int (length A + length B) - 1) =
   Some (A @ replicate k 0 @ B @ R)"
  unfolding shift_blocks_def by (rule shift_loop_spec)

section \<open>The space check\<close>

lemma space_available_iff:
  assumes "1 \<le> i_blocks I" "i_blocks I \<le> 1025" "k < 2 ^ 31"
  shows "space_available I q (int k) < 0 \<longleftrightarrow> 1024 < k + (i_blocks I - 1) \<or> nr_free_blocks q < k"
    and "\<not> space_available I q (int k) < 0 \<Longrightarrow> space_available I q (int k) = 0"
    and "space_available I q (int k) < 0 \<Longrightarrow> space_available I q (int k) = - ENOSPC"
proof -
  have "u64 (int k + int (i_blocks I) - 1) = k + (i_blocks I - 1)" "u32 (int k) = k"
    using assms by (simp_all add: u64_id u32_id)
  then show "space_available I q (int k) < 0 \<longleftrightarrow> 1024 < k + (i_blocks I - 1) \<or> nr_free_blocks q < k"
    by (auto simp: space_available_def OUICHEFS_BLOCK_SIZE_def ENOSPC_def)
qed (auto simp: space_available_def ENOSPC_def split: if_splits)

end
