(* ===== verification/Read.thy ===== *)
theory Read
  imports Cursor "HOL-Library.Signed_Division"
begin

text \<open>
  The three read operations of read.c. \<open>ouichefs_read\<close> treats every data block as full but the
  last, \<open>ouichefs_light_read\<close> reads files with insertions (fragments of any size), and
  \<open>ouichefs_read_cached\<close> does so through the page cache.

  A read returns the C result, the new file position and the user buffer. \<open>None\<close> means that the
  copy leaves the data block's buffer.
\<close>

section \<open>The operations\<close>

definition read_flags :: "file \<Rightarrow> int" where
  "read_flags f = (if f_flags f AND O_WRONLY \<noteq> 0 then -1 else 0)"

text \<open>The loop of \<open>ouichefs_read\<close>; it ends with the bytes that remain and the user buffer.\<close>

function read_loop ::
    "kenv \<Rightarrow> fs \<Rightarrow> nat \<Rightarrow> int \<Rightarrow> int \<Rightarrow> nat \<Rightarrow> byte list \<Rightarrow> nat \<Rightarrow> int \<Rightarrow> int \<Rightarrow> (nat \<times> byte list) option"
  where
  "read_loop env s ib nb_blocks last_block_size sz buff remaining lbi lp =
     (if remaining \<noteq> 0 \<and> lbi < nb_blocks then
        case arr (load_index s ib) lbi of
          None \<Rightarrow> None
        | Some bno \<Rightarrow>
            if \<not> bread_ok env (unat bno) then Some (remaining, buff)
            else
              (let available = (if lbi = nb_blocks - 1 then u64 (last_block_size - lp)
                                else u64 (int OUICHEFS_BLOCK_SIZE - lp)) in
               if available = 0 then Some (remaining, buff)
               else
                 (let len = min available remaining in
                  case mem_read (bufs s (unat bno)) lp len of
                    None \<Rightarrow> None
                  | Some src \<Rightarrow>
                      (case copy_to_user env buff (sz - remaining) src of (r, buff') \<Rightarrow>
                        if r \<noteq> 0 then Some (remaining, buff')
                        else read_loop env s ib nb_blocks last_block_size sz buff'
                               (remaining - len) (lbi + 1) 0)))
      else Some (remaining, buff))"
  by pat_completeness auto
termination
  by (relation "measure (\<lambda>(env, s, ib, nb, last, sz, buff, rem, lbi, lp). rem)") (auto simp: min_def)

declare read_loop.simps [simp del]

definition ouichefs_read ::
    "kenv \<Rightarrow> file \<Rightarrow> byte list \<Rightarrow> nat \<Rightarrow> int \<Rightarrow> fs \<Rightarrow> (int \<times> int \<times> byte list) option" where
  "ouichefs_read env f buff sz pos s =
     (let I = inodes s (f_inode f) in
      if read_flags f < 0 then Some (- EINVAL, pos, buff)
      else if \<not> bread_ok env (index_block I) then Some (0, pos, buff)
      else
        (let last = i_size I smod int OUICHEFS_BLOCK_SIZE;
             last = (if last = 0 \<and> i_size I \<noteq> 0 then int OUICHEFS_BLOCK_SIZE else last);
             nb_blocks = s32 (int (i_blocks I) - 1);
             lbi = s32 (pos sdiv int OUICHEFS_BLOCK_SIZE);
             lp = pos smod int OUICHEFS_BLOCK_SIZE in
         do { (remaining, buff') \<leftarrow>
                read_loop env s (index_block I) nb_blocks last sz buff sz lbi lp;
              Some (int (sz - remaining), pos + int (sz - remaining), buff') }))"

text \<open>The loop of \<open>ouichefs_light_read\<close>.\<close>

function light_read_loop ::
    "kenv \<Rightarrow> fs \<Rightarrow> nat \<Rightarrow> int \<Rightarrow> nat \<Rightarrow> byte list \<Rightarrow> nat \<Rightarrow> int \<Rightarrow> int \<Rightarrow> (nat \<times> byte list) option"
  where
  "light_read_loop env s ib nb_blocks sz buff remaining lbi lp =
     (if remaining \<noteq> 0 \<and> lbi < nb_blocks then
        case arr (load_index s ib) lbi of
          None \<Rightarrow> None
        | Some bno \<Rightarrow>
            if \<not> bread_ok env (get_block_number bno) then Some (remaining, buff)
            else
              (let available = u64 (get_block_size bno - lp) in
               if available \<le> 0 then Some (remaining, buff)
               else
                 (let len = min available remaining in
                  case mem_read (bufs s (get_block_number bno)) lp len of
                    None \<Rightarrow> None
                  | Some src \<Rightarrow>
                      (case copy_to_user env buff (sz - remaining) src of (r, buff') \<Rightarrow>
                        if r \<noteq> 0 then Some (remaining, buff')
                        else light_read_loop env s ib nb_blocks sz buff'
                               (remaining - len) (lbi + 1) 0)))
      else Some (remaining, buff))"
  by pat_completeness auto
termination
  by (relation "measure (\<lambda>(env, s, ib, nb, sz, buff, rem, lbi, lp). rem)") (auto simp: min_def)

declare light_read_loop.simps [simp del]

definition ouichefs_light_read ::
    "kenv \<Rightarrow> file \<Rightarrow> byte list \<Rightarrow> nat \<Rightarrow> int \<Rightarrow> fs \<Rightarrow> (int \<times> int \<times> byte list) option" where
  "ouichefs_light_read env f buff sz pos s =
     (let I = inodes s (f_inode f); ib = index_block I in
      if read_flags f < 0 then Some (- EINVAL, pos, buff)
      else if \<not> bread_ok env ib then Some (0, pos, buff)
      else
        (let nb_blocks = s32 (int (i_blocks I) - 1) in
         do { r \<leftarrow> find_block_pos pos (load_index s ib) nb_blocks;
              case r of
                NotFound \<Rightarrow> Some (0, pos, buff)
              | Found lbi lp \<Rightarrow>
                  do { (remaining, buff') \<leftarrow>
                         light_read_loop env s ib nb_blocks sz buff sz lbi lp;
                       Some (int (sz - remaining), pos + int (sz - remaining), buff') } }))"

text \<open>
  The loop of \<open>ouichefs_read_cached\<close>. \<open>mapping k\<close> is the page \<open>read_mapping_page\<close> returns for
  page index \<open>k\<close>, \<open>None\<close> when it fails. The copy always goes to the start of the user buffer.
\<close>

function read_cached_loop ::
    "kenv \<Rightarrow> (int \<Rightarrow> byte list option) \<Rightarrow> entry list \<Rightarrow> int \<Rightarrow> byte list \<Rightarrow> int \<Rightarrow> int \<Rightarrow> int \<Rightarrow>
     (int \<times> byte list) option"
  where
  "read_cached_loop env mapping idx nb_blocks buff remaining lbi lp =
     (if remaining \<noteq> 0 \<and> lbi < nb_blocks then
        case mapping lbi of
          None \<Rightarrow> Some (remaining, buff)
        | Some page \<Rightarrow>
            (case arr idx lbi of
               None \<Rightarrow> None
             | Some e \<Rightarrow>
                 (let available = get_block_size e - lp in
                  if available \<le> 0 then Some (remaining, buff)
                  else
                    (let len = min available remaining in
                     if len < 0 then None
                     else
                       case mem_read page lp (nat len) of
                         None \<Rightarrow> None
                       | Some src \<Rightarrow>
                           (case copy_to_user env buff 0 src of (r, buff') \<Rightarrow>
                              if r \<noteq> 0 then Some (remaining, buff')
                              else read_cached_loop env mapping idx nb_blocks buff'
                                     (remaining - len) (lbi + 1) 0))))
      else Some (remaining, buff))"
  by pat_completeness auto
termination
  by (relation "measure (\<lambda>(env, mapping, idx, nb, buff, rem, lbi, lp). nat (nb - lbi))") auto

declare read_cached_loop.simps [simp del]

definition ouichefs_read_cached ::
    "kenv \<Rightarrow> (int \<Rightarrow> byte list option) \<Rightarrow> file \<Rightarrow> byte list \<Rightarrow> nat \<Rightarrow> int \<Rightarrow> fs \<Rightarrow>
     (int \<times> int \<times> byte list) option" where
  "ouichefs_read_cached env mapping f buff sz pos s =
     (let I = inodes s (f_inode f); ib = index_block I in
      if read_flags f < 0 then Some (- EINVAL, pos, buff)
      else if \<not> bread_ok env ib then Some (int sz - s32 (int sz), pos + (int sz - s32 (int sz)), buff)
      else
        (let nb_blocks = s32 (int (i_blocks I) - 1) in
         do { r \<leftarrow> find_block_pos pos (load_index s ib) nb_blocks;
              case r of
                NotFound \<Rightarrow> Some (int sz - s32 (int sz), pos + (int sz - s32 (int sz)), buff)
              | Found lbi lp \<Rightarrow>
                  do { (remaining, buff') \<leftarrow>
                         read_cached_loop env mapping (load_index s ib) nb_blocks buff
                           (s32 (int sz)) lbi lp;
                       Some (int sz - remaining, pos + (int sz - remaining), buff') } }))"

section \<open>Reading fragments\<close>

text \<open>No user copy faults, and every block of the file can be read.\<close>

definition io_ok :: "kenv \<Rightarrow> fs \<Rightarrow> nat \<Rightarrow> bool" where
  "io_ok env s ino \<longleftrightarrow> (\<forall>off len. uncopied env off len = 0) \<and> (\<forall>b \<in> file_blocks s ino. bread_ok env b)"

text \<open>
  The bytes the loop can deliver from fragment \<open>i\<close>, position \<open>p\<close>: it stops at the first empty
  fragment, and at once when \<open>p\<close> is the end of fragment \<open>i\<close>.
\<close>

definition readable :: "(nat \<Rightarrow> byte list) \<Rightarrow> entry list \<Rightarrow> nat \<Rightarrow> int \<Rightarrow> byte list" where
  "readable bs es i p =
     (if i < length es \<and> p < get_block_size (es ! i)
      then drop (nat p) (fragment bs (es ! i)) @
           fragments bs (takeWhile (\<lambda>e. \<not> block_empty e) (drop (Suc i) es))
      else [])"

lemma readable_next:
  "readable bs es (Suc i) 0 = fragments bs (takeWhile (\<lambda>e. \<not> block_empty e) (drop (Suc i) es))"
proof (cases "Suc i < length es")
  case True
  then have "drop (Suc i) es = es ! Suc i # drop (Suc (Suc i)) es" by (simp add: Cons_nth_drop_Suc)
  moreover have "0 < get_block_size (es ! Suc i) \<longleftrightarrow> \<not> block_empty (es ! Suc i)"
    using get_block_size_zero_iff [of "es ! Suc i"] get_block_size_nonneg [of "es ! Suc i"] by linarith
  ultimately show ?thesis using True by (simp add: readable_def)
qed (simp add: readable_def)

lemma overlay_overlay:
  "off + length xs + length ys \<le> length b \<Longrightarrow>
   overlay (overlay b off xs) (off + length xs) ys = overlay b off (xs @ ys)"
  by (auto simp: overlay_def ac_simps)

lemma copy_to_user_ok:
  "\<forall>off len. uncopied env off len = 0 \<Longrightarrow> copy_to_user env buff off src = (0, overlay buff off src)"
  by (simp add: copy_to_user_def)

lemma light_read_loop_spec:
  assumes "wf_bufs s" and "\<forall>off len. uncopied env off len = 0"
    and "n \<le> 1024" and "es = take n (load_index s ib)"
    and "\<forall>e \<in> set es. bread_ok env (get_block_number e)"
    and "remaining \<le> sz" "length buff = sz"
    and "i \<le> n" "0 \<le> p" "i < n \<Longrightarrow> p \<le> get_block_size (es ! i)"
  shows "light_read_loop env s ib (int n) sz buff remaining (int i) p =
    (let d = take remaining (readable (bufs s) es i p)
     in Some (remaining - length d, overlay buff (sz - remaining) d))"
  using assms(6-10)
proof (induction "n - i" arbitrary: i p remaining buff)
  case 0
  have "length es = n" using assms by simp
  with 0 show ?case by (simp add: light_read_loop.simps [of env s ib] readable_def)
next
  case (Suc k)
  have len: "length es = n" "\<And>b. length (bufs s b) = 4096"
    using assms by (simp_all add: wf_bufs_length)
  have i: "i < n" using Suc.hyps(2) by simp
  let ?e = "es ! i" and ?f = "drop (nat p) (fragment (bufs s) (es ! i))"
  have e: "load_index s ib ! i = ?e" "?e \<in> set es" using i assms(4) len(1) nth_mem [of i es] by simp_all
  have p: "0 \<le> p" "p \<le> get_block_size ?e" using Suc.prems i by auto
  show ?case
  proof (cases "remaining = 0 \<or> p = get_block_size ?e")
    case True
    then have "take remaining (readable (bufs s) es i p) = []" by (auto simp: readable_def)
    moreover have "light_read_loop env s ib (int n) sz buff remaining (int i) p = Some (remaining, buff)"
      using True e i assms(1,3,5) by (auto simp: light_read_loop.simps [of env s ib] arr_int u64_def)
    ultimately show ?thesis by (simp only: Let_def list.size overlay_Nil diff_zero)
  next
    case False
    then have lt: "p < get_block_size ?e" "remaining \<noteq> 0" using p by auto
    define av where "av = nat (get_block_size ?e - p)"
    define len where "len = min av remaining"
    have av: "u64 (get_block_size ?e - p) = av" "0 < av" "int av + p = get_block_size ?e" "length ?f = av"
    proof -
      have "get_block_size ?e - p < 18446744073709551616" using p get_block_size_le [of ?e] by linarith
      then show "u64 (get_block_size ?e - p) = av" using lt by (simp add: av_def u64_id)
      show "length ?f = av" using lt p len(2) by (simp add: av_def length_fragment nat_diff_distrib)
    qed (use lt p in \<open>simp_all add: av_def\<close>)
    have len0: "0 < len" "len \<le> remaining" "len \<le> av" using av lt by (auto simp: len_def)
    have rd: "mem_read (bufs s (get_block_number ?e)) p len = Some (take len ?f)"
    proof -
      have "p + int len \<le> 4096" using len0 av get_block_size_le [of ?e] by linarith
      then have "mem_read (bufs s (get_block_number ?e)) p len =
          Some (take len (drop (nat p) (bufs s (get_block_number ?e))))"
        using p by (simp add: mem_read_in len)
      also have "take len (drop (nat p) (bufs s (get_block_number ?e))) = take len ?f"
      proof -
        have "len \<le> nat (get_block_size ?e) - nat p" using len0 av(3) p by linarith
        then show ?thesis by (simp add: fragment_def drop_take)
      qed
      finally show ?thesis .
    qed
    have step: "light_read_loop env s ib (int n) sz buff remaining (int i) p =
      light_read_loop env s ib (int n) sz (overlay buff (sz - remaining) (take len ?f))
        (remaining - len) (int (Suc i)) 0"
      using lt i e assms(1-3,5) av rd len0
      by (subst light_read_loop.simps)
        (simp add: arr_int copy_to_user_ok len_def Let_def ac_simps)
    have lf: "length (take len ?f) = len" using len0 av by simp
    have fits: "sz - remaining + len \<le> length buff" using len0 Suc.prems by linarith
    have IH: "light_read_loop env s ib (int n) sz (overlay buff (sz - remaining) (take len ?f))
        (remaining - len) (int (Suc i)) 0 =
      (let d = take (remaining - len) (readable (bufs s) es (Suc i) 0)
       in Some (remaining - len - length d,
            overlay (overlay buff (sz - remaining) (take len ?f)) (sz - (remaining - len)) d))"
      using Suc.hyps(2) Suc.prems i len0 lf fits
      by (intro Suc.hyps(1)) (auto simp: le_diff_conv)
    define d where "d = take (remaining - len) (readable (bufs s) es (Suc i) 0)"
    have split: "take remaining (readable (bufs s) es i p) = take len ?f @ d"
    proof -
      have "readable (bufs s) es i p = ?f @ readable (bufs s) es (Suc i) 0"
        using lt i len by (simp add: readable_next) (simp add: readable_def)
      moreover have "take remaining ?f = take len ?f" using av by (simp add: len_def min_def)
      ultimately show ?thesis
        using av by (simp add: d_def len_def min_def)
    qed
    have "sz - (remaining - len) = sz - remaining + len" using len0 Suc.prems by linarith
    moreover have "sz - remaining + len + length d \<le> length buff"
      using len0 Suc.prems by (simp add: d_def)
    ultimately have "overlay (overlay buff (sz - remaining) (take len ?f)) (sz - (remaining - len)) d
        = overlay buff (sz - remaining) (take len ?f @ d)"
      using overlay_overlay [of "sz - remaining" "take len ?f" d buff] lf by simp
    with IH step split lf show ?thesis by (simp add: d_def [symmetric] Let_def)
  qed
qed

lemma light_read_located:
  assumes wf: "fs_wf s" "file_wf s ino" and f: "f_inode f = ino" "read_flags f = 0"
    and io: "io_ok env s ino" and pos: "0 \<le> pos" "pos \<le> i_size (inodes s ino)"
    and loc: "located (data_entries s ino) pos i p" and buff: "length buff = sz"
  shows "ouichefs_light_read env f buff sz pos s =
    (let d = take sz (readable (bufs s) (data_entries s ino) i p)
     in Some (int (length d), pos + int (length d), overlay buff 0 d))"
proof -
  let ?I = "inodes s ino"
  define n where "n = i_blocks ?I - 1"
  note idx = file_wf_index [OF wf, folded n_def]
  have "pos < 2147483648" using pos(2) file_size_bound [OF wf] by linarith
  then obtain j q where j: "find_block_pos pos (load_index s (index_block ?I)) (int n) = Some (Found (int j) q)"
      "located (data_entries s ino) pos j q"
    using find_block_pos_located [of n "load_index s (index_block ?I)" pos] pos idx by auto
  with loc have ij: "j = i" "q = p" using located_unique by blast+
  have "i \<le> n" "0 \<le> p" "i < n \<Longrightarrow> p \<le> get_block_size (data_entries s ino ! i)"
    using located_bounds [OF loc] located_end [OF loc] idx by auto
  then have "light_read_loop env s (index_block ?I) (int n) sz buff sz (int i) p =
    (let d = take sz (readable (bufs s) (data_entries s ino) i p)
     in Some (sz - length d, overlay buff (sz - sz) d))"
    using wf(1) io idx buff data_entries_allocated [OF wf(2)]
    by (intro light_read_loop_spec) (auto simp: fs_wf_def io_ok_def)
  moreover have "bread_ok env (index_block ?I)"
    using io by (simp add: io_ok_def file_blocks_def)
  ultimately show ?thesis
    using f j ij idx by (simp add: ouichefs_light_read_def Let_def)
qed

lemma light_read_beyond:
  assumes wf: "fs_wf s" "file_wf s ino" and f: "f_inode f = ino" "read_flags f = 0"
    and io: "io_ok env s ino" and pos: "i_size (inodes s ino) < pos" "pos < 2147483648"
  shows "ouichefs_light_read env f buff sz pos s = Some (0, pos, buff)"
proof -
  let ?I = "inodes s ino"
  define n where "n = i_blocks ?I - 1"
  note idx = file_wf_index [OF wf, folded n_def]
  have "0 \<le> pos" using pos idx(6) total_size_nonneg [of "take n (load_index s (index_block ?I))"] by linarith
  then have "find_block_pos pos (load_index s (index_block ?I)) (int n) = Some NotFound"
    using pos idx by (intro find_block_pos_beyond) auto
  moreover have "bread_ok env (index_block ?I)"
    using io by (simp add: io_ok_def file_blocks_def)
  ultimately show ?thesis using f idx by (simp add: ouichefs_light_read_def Let_def)
qed

end
