(* ===== verification/Insert.thy ===== *)
theory Insert
  imports Reserve Read
begin

text \<open>
  Correctness of \<open>ouichefs_light_write\<close>: a write inserts its bytes at the cursor and keeps
  everything else. The proof follows the phases of the code: the gap opened in the index and the
  move of the old tail keep the content, the write loop appends to the block of the cursor.
\<close>

section \<open>Fragments that are also on the medium\<close>

definition synced :: "'a blockdev_scheme \<Rightarrow> entry list \<Rightarrow> bool" where
  "synced s es \<longleftrightarrow> (\<forall>e \<in> set es. fragment (media s) e = fragment (bufs s) e)"

lemma synced_simps [simp]:
  "synced s []"
  "synced s (e # es) \<longleftrightarrow> fragment (media s) e = fragment (bufs s) e \<and> synced s es"
  "synced s (es @ fs) \<longleftrightarrow> synced s es \<and> synced s fs"
  by (auto simp: synced_def)

lemma synced_cong:
  "(\<And>e. e \<in> set es \<Longrightarrow> bufs s (get_block_number e) = bufs t (get_block_number e) \<and>
     media s (get_block_number e) = media t (get_block_number e)) \<Longrightarrow> synced s es = synced t es"
  by (simp add: synced_def fragment_def)

section \<open>The write loop\<close>

lemma light_write_loop_0 [simp]:
  "light_write_loop env ib nb sz buff s 0 lbi lp = Some (0, 0, s)"
  by (simp add: light_write_loop.simps)

text \<open>One iteration, on an index that does not contain its own block.\<close>

lemma light_write_loop_step:
  assumes "wf_bufs s" "\<forall>off len. uncopied env off len = 0"
    and "load_index s ib = xs @ e # ys" "get_block_number e \<noteq> ib" "bread_ok env (get_block_number e)"
    and "0 < remaining" "remaining \<le> sz" "length buff = sz"
    and "int (length xs) < nb" "p < 4096"
  defines "len \<equiv> min (4096 - p) remaining"
  defines "d \<equiv> take len (drop (sz - remaining) buff)"
  defines "e' \<equiv> set_block_size e (int (p + len))"
  defines "s1 \<equiv> write_back (get_block_number e) (store_index ib (xs @ e' # ys)
      (set_buf (get_block_number e) (overlay (bufs s (get_block_number e)) p d) s))"
  shows "light_write_loop env ib nb sz buff s remaining (int (length xs)) (int p) =
      light_write_loop env ib nb sz buff s1 (remaining - len) (int (Suc (length xs))) 0"
    and "wf_bufs s1" "load_index s1 ib = xs @ e' # ys" "length d = len" "0 < len"
    and "fragment (bufs s1) e' = take p (bufs s (get_block_number e)) @ d"
    and "media s1 (get_block_number e) = bufs s1 (get_block_number e)"
    and "\<And>b. b \<noteq> ib \<Longrightarrow> b \<noteq> get_block_number e \<Longrightarrow> bufs s1 b = bufs s b \<and> media s1 b = media s b"
    and "sbi s1 = sbi s" "inodes s1 = inodes s" "idirty s1 = idirty s"
proof -
  let ?b = "get_block_number e"
  have len: "0 < len" "len \<le> remaining" "p + len \<le> 4096" using assms(6,10) by (auto simp: len_def)
  then show "0 < len" by simp
  show ld: "length d = len" using len assms(7,8) by (simp add: d_def)
  have lidx: "length (xs @ e # ys) = 1024" using assms(1,3) length_load_index by metis
  have u: "u64 (4096 - int p) = 4096 - p" using assms(10) by (simp add: u64_id nat_diff_distrib)
  have cp: "copy_from_user env buff (sz - remaining) len = (0, d)"
    using assms(2) by (simp add: copy_from_user_def d_def)
  have mw: "mem_write (bufs s ?b) (int p) d = Some (overlay (bufs s ?b) p d)"
    using len ld assms(1) by (simp add: mem_write_in wf_bufs_length)
  have "arr (xs @ e # ys) (int (length xs)) = Some e" by (simp add: arr_int)
  then show "light_write_loop env ib nb sz buff s remaining (int (length xs)) (int p) =
      light_write_loop env ib nb sz buff s1 (remaining - len) (int (Suc (length xs))) 0"
    using assms(3-6,9) u cp mw len
    by (subst light_write_loop.simps)
      (simp add: OUICHEFS_BLOCK_SIZE_def len_def [symmetric] Let_def s1_def e'_def add.commute)
  have wf1: "wf_bufs (set_buf ?b (overlay (bufs s ?b) p d) s)"
    using assms(1) len ld by (intro wf_bufs_set_buf) (simp_all add: wf_bufs_length)
  then show "wf_bufs s1" using lidx by (simp add: s1_def wf_bufs_store_index)
  show "load_index s1 ib = xs @ e' # ys" using lidx by (simp add: s1_def load_store_index)
  have "get_block_size e' = int (p + len)" using len by (simp add: e'_def)
  then show "fragment (bufs s1) e' = take p (bufs s ?b) @ d"
    using len ld assms(1,4) take_overlay [of p d "bufs s ?b"]
    by (simp add: fragment_def e'_def s1_def wf_bufs_length nat_int_add)
qed (use assms(4) in \<open>auto simp: s1_def\<close>)

text \<open>
  The loop over the blocks \<open>es\<close>: the first holds \<open>p\<close> bytes, the others are empty, and together
  they have room. It appends the bytes to the fragments and leaves every other block alone.
\<close>

lemma light_write_loop_spec:
  assumes "\<forall>off len. uncopied env off len = 0"
    and "wf_bufs s" "load_index s ib = xs @ es @ ys"
    and "distinct (ib # map get_block_number es)" "\<forall>e \<in> set es. bread_ok env (get_block_number e)"
    and "remaining \<le> sz" "length buff = sz" "int (length xs + length es) \<le> nb"
    and "es \<noteq> [] \<Longrightarrow> get_block_size (hd es) = int p" "\<forall>e \<in> set (tl es). get_block_size e = 0"
    and "p < 4096 \<or> remaining = 0" "remaining + p \<le> 4096 * length es"
  shows "\<exists>es' s'. light_write_loop env ib nb sz buff s remaining (int (length xs)) (int p) = Some (0, 0, s') \<and>
    wf_bufs s' \<and> load_index s' ib = xs @ es' @ ys \<and> map get_block_number es' = map get_block_number es \<and>
    fragments (bufs s') es' = fragments (bufs s) es @ take remaining (drop (sz - remaining) buff) \<and>
    total_size es' = total_size es + int remaining \<and> (synced s es \<longrightarrow> synced s' es') \<and>
    (\<forall>b. b \<noteq> ib \<longrightarrow> b \<notin> get_block_number ` set es \<longrightarrow> bufs s' b = bufs s b \<and> media s' b = media s b) \<and>
    sbi s' = sbi s \<and> inodes s' = inodes s \<and> idirty s' = idirty s"
  using assms(2-)
proof (induction es arbitrary: s xs remaining p)
  case Nil
  then show ?case by (auto intro!: exI [of _ "[]"])
next
  case (Cons e es)
  show ?case
  proof (cases "remaining = 0")
    case True
    then show ?thesis using Cons.prems by (intro exI [of _ "e # es"] exI [of _ s]) simp
  next
    case False
    let ?b = "get_block_number e"
    define len where "len = min (4096 - p) remaining"
    define d where "d = take len (drop (sz - remaining) buff)"
    define e' where "e' = set_block_size e (int (p + len))"
    define s1 where "s1 = write_back ?b (store_index ib (xs @ e' # es @ ys)
        (set_buf ?b (overlay (bufs s ?b) p d) s))"
    have pre: "load_index s ib = xs @ e # (es @ ys)" "?b \<noteq> ib" "bread_ok env ?b" "0 < remaining"
        "int (length xs) < nb" "p < 4096"
      using Cons.prems False by auto
    note step = light_write_loop_step [OF Cons.prems(1) assms(1) pre(1-4) Cons.prems(5,6) pre(5,6),
        folded len_def, folded d_def e'_def, folded s1_def]
    have fit: "remaining - len \<le> 4096 * length es" using Cons.prems(11) by (auto simp: len_def)
    have len: "len \<le> remaining" by (simp add: len_def)
    have other: "bufs s1 (get_block_number x) = bufs s (get_block_number x) \<and>
        media s1 (get_block_number x) = media s (get_block_number x)" if "x \<in> set es" for x
      using that Cons.prems(3) by (intro step(8)) (auto intro: rev_image_eqI)
    have tl0: "\<forall>x \<in> set (tl es). get_block_size x = 0" using Cons.prems(9) by (cases es) auto
    have "\<exists>es' s'. light_write_loop env ib nb sz buff s1 (remaining - len) (int (length (xs @ [e']))) (int 0) = Some (0, 0, s') \<and>
      wf_bufs s' \<and> load_index s' ib = (xs @ [e']) @ es' @ ys \<and> map get_block_number es' = map get_block_number es \<and>
      fragments (bufs s') es' = fragments (bufs s1) es @ take (remaining - len) (drop (sz - (remaining - len)) buff) \<and>
      total_size es' = total_size es + int (remaining - len) \<and> (synced s1 es \<longrightarrow> synced s' es') \<and>
      (\<forall>b. b \<noteq> ib \<longrightarrow> b \<notin> get_block_number ` set es \<longrightarrow> bufs s' b = bufs s1 b \<and> media s' b = media s1 b) \<and>
      sbi s' = sbi s1 \<and> inodes s' = inodes s1 \<and> idirty s' = idirty s1"
      using step(2,3) Cons.prems fit tl0
      by (intro Cons.IH) auto
    then obtain es' s' where IH:
      "light_write_loop env ib nb sz buff s1 (remaining - len) (int (Suc (length xs))) 0 = Some (0, 0, s')"
      "wf_bufs s'" "load_index s' ib = xs @ e' # es' @ ys" "map get_block_number es' = map get_block_number es"
      "fragments (bufs s') es' = fragments (bufs s1) es @ take (remaining - len) (drop (sz - (remaining - len)) buff)"
      "total_size es' = total_size es + int (remaining - len)" "synced s1 es \<longrightarrow> synced s' es'"
      "\<forall>b. b \<noteq> ib \<longrightarrow> b \<notin> get_block_number ` set es \<longrightarrow> bufs s' b = bufs s1 b \<and> media s' b = media s1 b"
      "sbi s' = sbi s1" "inodes s' = inodes s1" "idirty s' = idirty s1"
      by auto
    have eb: "?b \<notin> get_block_number ` set es" using Cons.prems(3) by auto
    have nb: "get_block_number e' = ?b" "get_block_size e' = int (p + len)"
      using pre(6) by (auto simp: e'_def len_def)
    have frag: "fragment (bufs s') e' = fragment (bufs s) e @ d"
    proof -
      have "fragment (bufs s') e' = fragment (bufs s1) e'"
        using IH(8) eb pre(2) by (simp add: fragment_def nb)
      also have "\<dots> = take p (bufs s ?b) @ d" by (rule step(6))
      also have "take p (bufs s ?b) = fragment (bufs s) e"
        using Cons.prems(8) by (simp add: fragment_def)
      finally show ?thesis .
    qed
    have data: "take remaining (drop (sz - remaining) buff) =
        d @ take (remaining - len) (drop (sz - (remaining - len)) buff)"
    proof -
      have "sz - (remaining - len) = len + (sz - remaining)" using len Cons.prems(5) by linarith
      then show ?thesis
        using take_add [of len "remaining - len" "drop (sz - remaining) buff"] len
        by (simp add: d_def)
    qed
    have empty: "fragments (bufs s1) es = []" "fragments (bufs s) es = []"
      using Cons.prems(9) by (auto simp: fragments_def fragment_empty)
    have sync: "synced s (e # es) \<longrightarrow> synced s' (e' # es')"
      using synced_cong [of es s1 s] other IH(7,8) step(7) eb pre(2)
      by (auto simp: fragment_def nb)
    show ?thesis
      using step IH nb frag data empty sync len eb Cons.prems(8) pre(2)
      by (intro exI [of _ "e' # es'"] exI [of _ s']) auto
  qed
qed

section \<open>Moving the old tail\<close>

lemma arr_mid: "arr (xs @ x # ys) (int (length xs)) = Some x"
  by (simp add: arr_int)

lemma arr_set_mid: "arr_set (xs @ x # ys) (int (length xs)) v = Some (xs @ v # ys)"
  by (simp add: arr_set_int)

lemma move_old_content_to_spec:
  assumes "wf_bufs s" "load_index s ib = xs @ ef # ms @ et # ys"
    and "distinct (ib # map get_block_number (xs @ ef # ms @ et # ys'))"
    and "bread_ok env (get_block_number ef)" "bread_ok env (get_block_number et)"
    and "int p \<le> get_block_size ef"
  defines "ef' \<equiv> sub_block_size ef (get_block_size ef - int p)"
    and "et' \<equiv> set_block_size et (get_block_size ef - int p)"
  shows "\<exists>s'. move_old_content_to env ib (int (length xs)) (int (length xs + Suc (length ms))) (int p) s = Some (0, s') \<and>
    wf_bufs s' \<and> load_index s' ib = xs @ ef' # ms @ et' # ys \<and>
    fragment (bufs s') ef' = take p (fragment (bufs s) ef) \<and>
    fragment (bufs s') et' = drop p (fragment (bufs s) ef) \<and>
    fragment (media s') et' = fragment (bufs s') et' \<and>
    (fragment (media s) ef = fragment (bufs s) ef \<longrightarrow> fragment (media s') ef' = fragment (bufs s') ef') \<and>
    (\<forall>b. b \<noteq> ib \<longrightarrow> b \<noteq> get_block_number ef \<longrightarrow> b \<noteq> get_block_number et \<longrightarrow>
       bufs s' b = bufs s b \<and> media s' b = media s b) \<and>
    sbi s' = sbi s \<and> inodes s' = inodes s \<and> idirty s' = idirty s"
proof -
  define bf bt where "bf = get_block_number ef" and "bt = get_block_number et"
  define c where "c = nat (get_block_size ef - int p)"
  have c: "get_block_size ef - int p = int c" "p + c \<le> 4096" "get_block_size ef = int (p + c)"
    using assms(6) get_block_size_le [of ef] by (auto simp: c_def)
  have ne: "bf \<noteq> ib" "bt \<noteq> ib" "bt \<noteq> bf" using assms(3) by (auto simp: bf_def bt_def)
  have L: "length (bufs s b) = 4096" for b using assms(1) by (rule wf_bufs_length)
  have lidx: "length (xs @ ef # ms @ et # ys) = 1024" using assms(1,2) length_load_index by metis
  let ?src = "take c (drop p (bufs s bf))"
  let ?s1 = "set_buf bt (overlay (bufs s bt) 0 ?src) s"
  let ?s2 = "set_buf bf (overlay (bufs s bf) p (replicate c 0)) ?s1"
  let ?s3 = "write_back bt (store_index ib (xs @ ef' # ms @ et' # ys) ?s2)"
  have et: "arr (xs @ x # ms @ et # ys) (int (length xs + Suc (length ms))) = Some et"
      "arr_set (xs @ x # ms @ et # ys) (int (length xs + Suc (length ms))) v = Some (xs @ x # ms @ v # ys)" for x v
    using arr_mid [of "xs @ x # ms" et ys] arr_set_mid [of "xs @ x # ms" et ys v] by simp_all
  have rd: "mem_read (bufs s bf) (int p) c = Some ?src" "mem_write (bufs s bt) 0 ?src = Some (overlay (bufs s bt) 0 ?src)"
      "mem_write (bufs s bf) (int p) (replicate c 0) = Some (overlay (bufs s bf) p (replicate c 0))"
    using c L by (simp_all add: mem_read_in mem_write_in)
  have mv: "move_old_content_to env ib (int (length xs)) (int (length xs + Suc (length ms))) (int p) s = Some (0, ?s3)"
    unfolding move_old_content_to_def assms(2) arr_mid et Let_def
    using assms(2,4,5) c ne rd arr_mid [of xs ef "ms @ et # ys"]
      arr_set_mid [of xs ef "ms @ et # ys"] et [of ef'] et [of ef]
    by (simp add: bf_def [symmetric] bt_def [symmetric] ef'_def et'_def)
  have wf2: "wf_bufs ?s2" using assms(1) c L by (intro wf_bufs_set_buf) simp_all
  then have wf3: "wf_bufs ?s3" using lidx by (simp add: wf_bufs_store_index)
  have sz: "get_block_size ef' = int p" "get_block_size et' = int c"
    using c by (simp_all add: ef'_def et'_def)
  have num: "get_block_number ef' = bf" "get_block_number et' = bt"
    by (simp_all add: ef'_def et'_def bf_def bt_def)
  have frag: "fragment (bufs s) ef = take (p + c) (bufs s bf)"
    using c by (simp add: fragment_def bf_def nat_int_add)
  have f1: "fragment (bufs ?s3) ef' = take p (fragment (bufs s) ef)"
    using ne L c by (simp add: fragment_def [of _ ef'] frag num sz take_overlay_le)
  have f2: "fragment (bufs ?s3) et' = drop p (fragment (bufs s) ef)"
    using ne L c take_overlay [of 0 ?src "bufs s bt"]
    by (simp add: fragment_def [of _ et'] frag num sz drop_take)
  have f3: "fragment (media s) ef = fragment (bufs s) ef \<longrightarrow> fragment (media ?s3) ef' = fragment (bufs ?s3) ef'"
  proof
    assume m: "fragment (media s) ef = fragment (bufs s) ef"
    have "fragment (media ?s3) ef' = take p (fragment (media s) ef)"
      using ne c by (simp add: fragment_def num sz bf_def [symmetric] nat_int_add)
    then show "fragment (media ?s3) ef' = fragment (bufs ?s3) ef'" using f1 m by simp
  qed
  have f4: "fragment (media ?s3) et' = fragment (bufs ?s3) et'"
    by (simp add: fragment_def num)
  have idx3: "load_index ?s3 ib = xs @ ef' # ms @ et' # ys" using lidx by (simp add: load_store_index)
  have other: "bufs ?s3 b = bufs s b \<and> media ?s3 b = media s b" if "b \<noteq> ib" "b \<noteq> bf" "b \<noteq> bt" for b
    using that by simp
  show ?thesis
    using mv wf3 idx3 f1 f2 f3 f4 other
    by (intro exI [of _ ?s3]) (simp add: bf_def [symmetric] bt_def [symmetric])
qed

section \<open>Finding the place\<close>

lemma light_write_place_found:
  assumes wf: "fs_wf s" "file_wf s ino" and pos: "0 \<le> pos" "pos \<le> i_size (inodes s ino)"
    and loc: "located (data_entries s ino) pos i p"
  defines "n \<equiv> i_blocks (inodes s ino) - 1"
  shows "light_write_place ino pos s =
    Some (0, s, int i, p, i < n \<and> p < get_block_size (data_entries s ino ! i),
      int i \<noteq> max (int n - 1) 0, max (int n - 1) 0)"
proof -
  let ?I = "inodes s ino" and ?idx = "load_index s (index_block (inodes s ino))"
  note idx = file_wf_index [OF wf, folded n_def]
  have "pos < 2147483648" using pos(2) file_size_bound [OF wf] by linarith
  then obtain j q where j: "find_block_pos pos ?idx (int n) = Some (Found (int j) q)"
      "located (data_entries s ino) pos j q"
    using find_block_pos_located [of n ?idx pos] pos idx by auto
  with loc have ij: "j = i" "q = p" using located_unique by blast+
  have i: "i \<le> n" "i = n \<Longrightarrow> n = 0 \<and> p = 0"
    using loc located_bounds(2) [OF loc] idx(4) by (auto simp: located_def split: if_splits)
  have i1024: "i < 1024" using i idx(1) by linarith
  have mv: "0 < u64 (get_block_size (?idx ! i) - p) \<longleftrightarrow> i < n \<and> p < get_block_size (data_entries s ino ! i)"
  proof (cases "i < n")
    case True
    then have e: "data_entries s ino ! i = ?idx ! i" using idx(3) by simp
    have "p \<le> get_block_size (?idx ! i)" using located_end [OF loc] True idx(4) e by simp
    then show ?thesis using True e located_bounds(1) [OF loc] get_block_size_le [of "?idx ! i"]
      by (simp add: u64_id)
  next
    case False
    then have n0: "n = 0" "i = 0" "p = 0" using i by auto
    have "drop n ?idx = replicate (1024 - n) 0"
      using wf(2) by (simp add: file_wf_def index_wf_def Let_def n_def)
    then have "?idx = replicate 1024 0" using n0 by simp
    then have "?idx ! 0 = 0" by (metis nth_replicate zero_less_numeral)
    then show ?thesis using n0 by (simp add: u64_def)
  qed
  have last: "max (s32 (int (i_blocks ?I)) - 2) 0 = max (int n - 1) 0"
    using idx(1,8) by (simp add: s32_id)
  show ?thesis
    unfolding light_write_place_def Let_def idx(5) last
    using pos(2) j ij i1024 idx(2) mv by (simp add: arr_int)
qed

section \<open>Reserving the blocks\<close>

text \<open>
  The number of blocks an insertion of \<open>sz\<close> bytes at position \<open>p\<close> of a block needs beside
  that block, and the number it reserves: one more when an old tail has to move away, one more
  when the file has no block yet.
\<close>

definition extra_blocks :: "nat \<Rightarrow> int \<Rightarrow> nat" where
  "extra_blocks sz p = idiv_ceil (nat (max (int sz - (4096 - p)) 0)) 4096"

definition reserved_blocks :: "entry list \<Rightarrow> nat \<Rightarrow> nat \<Rightarrow> int \<Rightarrow> nat" where
  "reserved_blocks es sz i p =
     extra_blocks sz p + of_bool (i < length es \<and> p < get_block_size (es ! i)) + of_bool (es = [])"

lemma extra_blocks_fit:
  assumes "0 \<le> p" "p \<le> 4096" "sz \<le> 4194304"
  shows "int sz + p \<le> 4096 * int (Suc (extra_blocks sz p))" and "extra_blocks sz p \<le> 1024"
proof -
  let ?r = "nat (max (int sz - (4096 - p)) 0)"
  have r: "?r < 2 ^ 32" "int ?r = max (int sz - (4096 - p)) 0" "?r \<le> 1024 * 4096" using assms by auto
  have "?r \<le> extra_blocks sz p * 4096"
    unfolding extra_blocks_def using r(1) by (rule idiv_ceil_covers) simp
  then have "int ?r \<le> int (extra_blocks sz p) * 4096" by linarith
  with r(2) show "int sz + p \<le> 4096 * int (Suc (extra_blocks sz p))" by simp
  show "extra_blocks sz p \<le> 1024"
    unfolding extra_blocks_def using r(1,3) by (intro idiv_ceil_least) simp_all
qed

text \<open>The index of a well-formed file, cut at the slot after the cursor.\<close>

lemma file_index_split:
  assumes "fs_wf s" "file_wf s ino"
  defines "es \<equiv> data_entries s ino"
  shows "load_index s (index_block (inodes s ino)) = es @ replicate (1024 - length es) 0"
    and "length es \<le> 1024" "length es = i_blocks (inodes s ino) - 1" "1 \<le> i_blocks (inodes s ino)"
    and "0 \<notin> set es" "distinct (index_block (inodes s ino) # map get_block_number es)"
proof -
  let ?n = "i_blocks (inodes s ino) - 1" and ?idx = "load_index s (index_block (inodes s ino))"
  note idx = file_wf_index [OF assms(1,2)]
  have "drop ?n ?idx = replicate (1024 - ?n) 0" "0 \<notin> set (take ?n ?idx)"
      "distinct (index_block (inodes s ino) # map get_block_number (take ?n ?idx))"
    using assms(2) by (simp_all add: file_wf_def index_wf_def Let_def)
  moreover have "?idx = take ?n ?idx @ drop ?n ?idx" by simp
  ultimately show "?idx = es @ replicate (1024 - length es) 0" "0 \<notin> set es"
      "distinct (index_block (inodes s ino) # map get_block_number es)"
    using idx(3,4) by (simp_all add: es_def)
  show "length es \<le> 1024" "length es = ?n" using idx(1,4) by (simp_all add: es_def)
  show "1 \<le> i_blocks (inodes s ino)" using assms(2) by (simp add: file_wf_def Let_def)
qed

lemma located_index:
  "located es pos i p \<Longrightarrow> (es = [] \<and> i = 0 \<and> p = 0) \<or> i < length es"
  by (auto simp: located_def split: if_splits)

lemma gap_shift:
  assumes "length es + m \<le> 1024" "i < length es"
  shows "(if int i \<noteq> max (int (length es) - 1) 0 \<and> 0 < int m
      then shift_blocks (es @ replicate (1024 - length es) 0) (int (Suc i)) (int m) (max (int (length es) - 1) 0)
      else Some (es @ replicate (1024 - length es) 0)) =
    Some (take (Suc i) es @ replicate m 0 @ drop (Suc i) es @ replicate (1024 - length es - m) 0)"
proof -
  let ?A = "take (Suc i) es" and ?B = "drop (Suc i) es"
  have z: "replicate (1024 - length es) (0 :: entry) = replicate m 0 @ replicate (1024 - length es - m) 0"
    using assms(1) by (simp add: replicate_add [symmetric])
  have A: "length ?A = Suc i" "max (int (length es) - 1) 0 = int (length ?A + length ?B) - 1"
    using assms(2) by simp_all
  have es: "es = ?A @ ?B" by simp
  show ?thesis
  proof (cases "int i \<noteq> max (int (length es) - 1) 0 \<and> 0 < int m")
    case True
    then have "0 < m" by simp
    then have "shift_blocks (?A @ ?B @ replicate m 0 @ replicate (1024 - length es - m) 0) (int (length ?A)) (int m)
        (int (length ?A + length ?B) - 1) =
      Some (?A @ replicate m 0 @ ?B @ replicate (1024 - length es - m) 0)"
      by (rule shift_blocks_spec)
    moreover have "es @ replicate (1024 - length es) 0 = ?A @ ?B @ replicate m 0 @ replicate (1024 - length es - m) 0"
      by (simp only: z append_assoc [symmetric] append_take_drop_id)
    ultimately show ?thesis using True A by simp
  next
    case False
    then have "m = 0 \<or> ?B = []" using assms(2) by auto
    then have "es @ replicate (1024 - length es) 0 =
        ?A @ replicate m 0 @ ?B @ replicate (1024 - length es - m) 0"
      using es z by (metis append_Nil append_assoc append_self_conv replicate_0 diff_zero)
    with False show ?thesis by (simp only: if_False)
  qed
qed

lemma light_write_alloc_spec:
  assumes wf: "fs_wf s" "file_wf s ino" and loc: "located (data_entries s ino) pos i p"
    and sz: "sz \<le> 4194304"
  defines "es \<equiv> data_entries s ino" and "I \<equiv> inodes s ino"
  defines "m \<equiv> reserved_blocks es sz i p" and "c \<equiv> (if es = [] then 0 else Suc i)"
  defines "call \<equiv> light_write_alloc ino sz (int i) p (i < length es \<and> p < get_block_size (es ! i))
      (int i \<noteq> max (int (length es) - 1) 0) (max (int (length es) - 1) 0) s"
  shows "1024 < length es + m \<or> nr_free_blocks (sbi s) < m \<Longrightarrow> call = Some (- ENOSPC, int m, s)"
    and "\<lbrakk>length es + m \<le> 1024; m \<le> nr_free_blocks (sbi s)\<rbrakk> \<Longrightarrow>
      \<exists>bs q. call = Some (0, int m, set_inode ino (I\<lparr>i_blocks := i_blocks I + m\<rparr>)
          (store_index (index_block I)
             (take c es @ map fresh_entry bs @ drop c es @ replicate (1024 - length es - m) 0)
             (s\<lparr>sbi := q\<rparr>))) \<and>
        length bs = m \<and> distinct bs \<and> set bs \<subseteq> free_blocks (sbi s) \<and> block_map_wf q \<and>
        free_blocks q = free_blocks (sbi s) - set bs \<and> nr_blocks q = nr_blocks (sbi s) \<and>
        blocks_change (sbi s) q"
proof -
  note ix = file_index_split [OF wf, folded es_def I_def]
  let ?idx = "es @ replicate (1024 - length es) 0"
  note i = located_index [OF loc, folded es_def]
  have p: "0 \<le> p" "p \<le> 4096" using located_bounds [OF loc] by auto
  have "i < length ?idx" using i ix(2) by auto
  then have e1: "arr ?idx (int i) = Some (?idx ! i)" by (rule arr_int)
  have e2: "(?idx ! i = 0) = (es = [])"
  proof (cases "es = []")
    case False
    then have "i < length es" using i by simp
    then have "?idx ! i \<in> set es" by (simp add: nth_append)
    with ix(5) False show ?thesis by auto
  qed (use i in simp)
  have s32: "s32 (int sz) = int sz" using sz by (simp add: s32_id)
  have kk: "idiv_ceil (u32 (max (int sz - (int OUICHEFS_BLOCK_SIZE - p)) 0)) OUICHEFS_BLOCK_SIZE = extra_blocks sz p"
    using p sz by (simp add: extra_blocks_def OUICHEFS_BLOCK_SIZE_def u32_id)
  have mm: "int (extra_blocks sz p) + of_bool (i < length es \<and> p < get_block_size (es ! i)) + of_bool (es = []) = int m"
    by (simp add: m_def reserved_blocks_def)
  have m: "m < 2 ^ 31" using extra_blocks_fit(2) [OF p sz] by (simp add: m_def reserved_blocks_def)
  have ib: "1 \<le> i_blocks I" "i_blocks I \<le> 1025" using ix by auto
  note space = space_available_iff [OF ib m, of "sbi s", folded ix(3)]
  have shift: "(if int i \<noteq> max (int (length es) - 1) 0 \<and> 0 < int m
      then shift_blocks ?idx (if es = [] then int i else int i + 1) (int m) (max (int (length es) - 1) 0)
      else Some ?idx) = Some (take c es @ replicate m 0 @ drop c es @ replicate (1024 - length es - m) 0)"
    if "length es + m \<le> 1024"
  proof (cases "es = []")
    case True
    with i that show ?thesis by (simp add: c_def replicate_add [symmetric])
  next
    case False
    with i have "i < length es" by simp
    moreover have "(if es = [] then int i else int i + 1) = int (Suc i)" "c = Suc i"
      using False by (simp_all add: c_def)
    ultimately show ?thesis using gap_shift [OF that] by (simp only:)
  qed
  have call: "call = (if space_available I (sbi s) (int m) < 0 then Some (- ENOSPC, int m, s)
     else do { idx \<leftarrow> (if int i \<noteq> max (int (length es) - 1) 0 \<and> 0 < int m
                 then shift_blocks ?idx (if es = [] then int i else int i + 1) (int m) (max (int (length es) - 1) 0)
                 else Some ?idx);
               (_, q, I', idx) \<leftarrow> reserve_empty_blocks (sbi s) I idx (if es = [] then int i else int i + 1) (int m);
               Some (0, int m, set_inode ino I' (store_index (index_block I) idx (s\<lparr>sbi := q\<rparr>))) })"
    unfolding call_def light_write_alloc_def Let_def I_def [symmetric] ix(1) e1 bind.bind_lunit
      e2 s32 kk mm by simp
  show "1024 < length es + m \<or> nr_free_blocks (sbi s) < m \<Longrightarrow> call = Some (- ENOSPC, int m, s)"
    using call space by (simp add: add.commute)
  assume fit: "length es + m \<le> 1024" "m \<le> nr_free_blocks (sbi s)"
  have c: "(if es = [] then int i else int i + 1) = int (length (take c es))"
    using i by (auto simp: c_def)
  have "\<exists>bs q. reserve_empty_blocks (sbi s) I
      (take c es @ replicate m 0 @ (drop c es @ replicate (1024 - length es - m) 0)) (int (length (take c es))) (int m) =
      Some (0, q, I\<lparr>i_blocks := i_blocks I + m\<rparr>, take c es @ map fresh_entry bs @ (drop c es @ replicate (1024 - length es - m) 0)) \<and>
    length bs = m \<and> distinct bs \<and> set bs \<subseteq> free_blocks (sbi s) \<and> block_map_wf q \<and>
    free_blocks q = free_blocks (sbi s) - set bs \<and> nr_blocks q = nr_blocks (sbi s) \<and>
    blocks_change (sbi s) q"
    using wf(1) fit ib ix(2) by (intro reserve_empty_blocks_spec) (auto simp: fs_wf_def)
  then show "\<exists>bs q. call = Some (0, int m, set_inode ino (I\<lparr>i_blocks := i_blocks I + m\<rparr>)
          (store_index (index_block I)
             (take c es @ map fresh_entry bs @ drop c es @ replicate (1024 - length es - m) 0)
             (s\<lparr>sbi := q\<rparr>))) \<and>
        length bs = m \<and> distinct bs \<and> set bs \<subseteq> free_blocks (sbi s) \<and> block_map_wf q \<and>
        free_blocks q = free_blocks (sbi s) - set bs \<and> nr_blocks q = nr_blocks (sbi s) \<and>
        blocks_change (sbi s) q"
    unfolding call using shift [OF fit(1)] space(1) fit c
    by (elim exE) (auto intro!: exI)
qed

section \<open>The file with the gap\<close>

text \<open>No fault in user copies, and every block of the partition can be read.\<close>

definition disk_ok :: "kenv \<Rightarrow> fs \<Rightarrow> bool" where
  "disk_ok env s \<longleftrightarrow> (\<forall>off len. uncopied env off len = 0) \<and> (\<forall>b < nr_blocks (sbi s). bread_ok env b)"

lemma disk_ok_index: "\<lbrakk>file_wf s ino; disk_ok env s\<rbrakk> \<Longrightarrow> bread_ok env (index_block (inodes s ino))"
  by (simp add: file_wf_def Let_def file_blocks_def allocated_def disk_ok_def)

lemma disk_ok_data: "\<lbrakk>file_wf s ino; disk_ok env s; e \<in> set (data_entries s ino)\<rbrakk> \<Longrightarrow> bread_ok env (get_block_number e)"
  by (simp add: file_wf_def Let_def file_blocks_def allocated_def disk_ok_def)

text \<open>
  \<open>grown s ino m k s2 ns\<close>: state \<open>s2\<close> is \<open>s\<close> with \<open>m\<close> blocks added to the file \<open>ino\<close> and \<open>k\<close> bytes
  added to its fragments, which are now \<open>ns\<close>; the inode's size is not updated yet. Blocks that
  were neither free nor part of the file are untouched.
\<close>

definition grown :: "fs \<Rightarrow> nat \<Rightarrow> nat \<Rightarrow> int \<Rightarrow> fs \<Rightarrow> entry list \<Rightarrow> bool" where
  "grown s ino m k s2 ns \<longleftrightarrow>
     (let es = data_entries s ino; I = inodes s ino; ib = index_block I in
      wf_bufs s2 \<and> load_index s2 ib = ns @ replicate (1024 - length ns) 0 \<and>
      length ns = length es + m \<and> length ns \<le> 1024 \<and> distinct (ib # map get_block_number ns) \<and>
      get_block_number ` set ns = get_block_number ` set es \<union> (free_blocks (sbi s) - free_blocks (sbi s2)) \<and>
      total_size ns = total_size es + k \<and> (synced s es \<longrightarrow> synced s2 ns) \<and>
      inodes s2 = (inodes s)(ino := I\<lparr>i_blocks := i_blocks I + m\<rparr>) \<and> idirty s2 = idirty s \<and>
      block_map_wf (sbi s2) \<and> free_blocks (sbi s2) \<subseteq> free_blocks (sbi s) \<and>
      blocks_change (sbi s) (sbi s2) \<and>
      (\<forall>b. b \<noteq> ib \<longrightarrow> b \<notin> get_block_number ` set ns \<longrightarrow> bufs s2 b = bufs s b \<and> media s2 b = media s b))"

lemma fresh_entries:
  assumes "\<forall>b \<in> set bs. b < 2 ^ 19"
  shows "map get_block_number (map fresh_entry bs) = bs" "total_size (map fresh_entry bs) = 0"
    "fragments f (map fresh_entry bs) = []" "\<forall>e \<in> set (map fresh_entry bs). get_block_size e = 0"
    "get_block_number ` fresh_entry ` set bs = set bs"
proof -
  have f: "get_block_number (fresh_entry b) = b" "get_block_size (fresh_entry b) = 0" if "b \<in> set bs" for b
    using fresh_entry_fields [of b] that assms by blast+
  then show "map get_block_number (map fresh_entry bs) = bs"
    "\<forall>e \<in> set (map fresh_entry bs). get_block_size e = 0"
    "get_block_number ` fresh_entry ` set bs = set bs"
    by (simp_all add: map_idI image_image)
  then show "fragments f (map fresh_entry bs) = []" by (simp add: fragments_def fragment_empty)
  show "total_size (map fresh_entry bs) = 0"
    using f by (induction bs) (simp_all add: total_size_def)
qed

lemma free_blocks_less: "b \<in> free_blocks q \<Longrightarrow> b < nr_blocks q"
  by (simp add: free_blocks_def ones_def)

lemma grown_alloc:
  assumes wf: "fs_wf s" "file_wf s ino"
  defines "es \<equiv> data_entries s ino" and "I \<equiv> inodes s ino"
  assumes es: "es = A @ B" and fit: "length es + m \<le> 1024"
    and bs: "length bs = m" "distinct bs" "set bs \<subseteq> free_blocks (sbi s)"
    and q: "block_map_wf q" "free_blocks q = free_blocks (sbi s) - set bs" "nr_blocks q = nr_blocks (sbi s)"
      "blocks_change (sbi s) q"
  defines "s2 \<equiv> set_inode ino (I\<lparr>i_blocks := i_blocks I + m\<rparr>) (store_index (index_block I)
       (A @ map fresh_entry bs @ B @ replicate (1024 - length es - m) 0) (s\<lparr>sbi := q\<rparr>))"
  shows "grown s ino m 0 s2 (A @ map fresh_entry bs @ B)"
    and "\<And>b. b \<noteq> index_block I \<Longrightarrow> bufs s2 b = bufs s b"
proof -
  note ix = file_index_split [OF wf, folded es_def I_def]
  have b19: "\<forall>b \<in> set bs. b < 2 ^ 19"
    using bs(3) free_blocks_less wf(1) by (fastforce simp: fs_wf_def)
  note fe = fresh_entries [OF b19]
  let ?ns = "A @ map fresh_entry bs @ B"
  let ?idx = "?ns @ replicate (1024 - length ?ns) 0"
  have len: "length ?ns = length es + m" "length ?idx = 1024" using bs(1) es fit by simp_all
  have idx: "?idx = A @ map fresh_entry bs @ B @ replicate (1024 - length es - m) 0"
    using bs(1) es by simp
  have used: "b \<notin> free_blocks (sbi s)" if "b \<in> get_block_number ` set es \<or> b = index_block I" for b
    using that data_entries_allocated [OF wf(2)] wf(2)
    by (auto simp: es_def I_def allocated_def file_wf_def file_blocks_def Let_def)
  have dist: "distinct (index_block I # map get_block_number ?ns)"
    using ix(6) bs(2,3) used fe(1) unfolding es by (auto simp: image_iff)
  have img: "get_block_number ` set ?ns = get_block_number ` set es \<union> set bs"
    using fe(5) by (auto simp: es)
  have fr: "free_blocks (sbi s) - free_blocks q = set bs" using bs(3) q(2) by auto
  have sy: "synced s es \<longrightarrow> synced s2 ?ns"
  proof
    assume "synced s es"
    moreover have "synced s2 es = synced s es"
    proof (rule synced_cong)
      fix e assume "e \<in> set es"
      then have "get_block_number e \<noteq> index_block I" using ix(6) by (auto simp: image_iff)
      then show "bufs s2 (get_block_number e) = bufs s (get_block_number e) \<and>
          media s2 (get_block_number e) = media s (get_block_number e)" by (simp add: s2_def)
    qed
    moreover have "synced s2 (map fresh_entry bs)"
      using fe(4) by (simp add: synced_def fragment_empty)
    ultimately show "synced s2 ?ns" by (simp add: es)
  qed
  show "grown s ino m 0 s2 ?ns"
    unfolding grown_def Let_def es_def [symmetric] I_def [symmetric]
  proof (intro conjI)
    show "wf_bufs s2" using wf(1) len(2) idx by (simp add: s2_def wf_bufs_store_index fs_wf_def)
    show "load_index s2 (index_block I) = ?idx" using len(2) idx by (simp add: s2_def load_store_index)
    show "total_size ?ns = total_size es + 0" using fe(2) by (simp add: es)
    show "get_block_number ` set ?ns = get_block_number ` set es \<union> (free_blocks (sbi s) - free_blocks (sbi s2))"
      using img fr by (simp add: s2_def)
    show "blocks_change (sbi s) (sbi s2)"
      using q(4) by (simp add: s2_def)
  qed (use len fit dist sy q in \<open>auto simp: s2_def\<close>)
  show "bufs s2 b = bufs s b" if "b \<noteq> index_block I" for b using that by (simp add: s2_def)
qed

text \<open>Later phases rewrite sizes and bytes of the file's own blocks only.\<close>

lemma grown_step:
  assumes "grown s ino m k s2 ns" and "wf_bufs s3"
    and "load_index s3 (index_block (inodes s ino)) = ns' @ replicate (1024 - length ns) 0"
    and "map get_block_number ns' = map get_block_number ns"
    and "total_size ns' = total_size ns + d" "synced s2 ns \<longrightarrow> synced s3 ns'"
    and "\<And>b. \<lbrakk>b \<noteq> index_block (inodes s ino); b \<notin> get_block_number ` set ns\<rbrakk> \<Longrightarrow>
      bufs s3 b = bufs s2 b \<and> media s3 b = media s2 b"
    and "sbi s3 = sbi s2" "inodes s3 = inodes s2" "idirty s3 = idirty s2"
  shows "grown s ino m (k + d) s3 ns'"
proof -
  have "get_block_number ` set ns' = get_block_number ` set ns" "length ns' = length ns"
    using assms(4) by (metis list.set_map, metis length_map)
  then show ?thesis using assms unfolding grown_def Let_def by auto
qed

text \<open>
  \<open>opened s ino pos m s2 X W T\<close>: the gap at byte \<open>pos\<close> is open. The slots \<open>X\<close> come before the block
  of the cursor, the slots \<open>W\<close> take the new bytes (only the first of them holds bytes already, up
  to the cursor), the slots \<open>T\<close> hold what follows the cursor.
\<close>

definition opened ::
    "fs \<Rightarrow> nat \<Rightarrow> int \<Rightarrow> nat \<Rightarrow> fs \<Rightarrow> entry list \<Rightarrow> entry list \<Rightarrow> entry list \<Rightarrow> bool" where
  "opened s ino pos m s2 X W T \<longleftrightarrow> grown s ino m 0 s2 (X @ W @ T) \<and>
     (\<forall>e \<in> set (tl W). get_block_size e = 0) \<and>
     fragments (bufs s2) (X @ W) = take (nat pos) (file_content s ino) \<and>
     fragments (bufs s2) T = drop (nat pos) (file_content s ino)"

lemma fragments_agree:
  "\<lbrakk>\<And>b. b \<noteq> ib \<Longrightarrow> bs b = cs b; ib \<notin> get_block_number ` set es\<rbrakk> \<Longrightarrow> fragments bs es = fragments cs es"
  by (rule fragments_cong) (metis image_eqI)

text \<open>Reservation alone opens the gap when nothing follows the cursor in its block.\<close>

lemma opened_no_move:
  assumes wf: "fs_wf s" "file_wf s ino" and loc: "located (data_entries s ino) pos i p"
  defines "es \<equiv> data_entries s ino" and "I \<equiv> inodes s ino"
  assumes nmv: "\<not> (i < length es \<and> p < get_block_size (es ! i))"
  defines "c \<equiv> (if es = [] then 0 else Suc i)"
  assumes grown: "grown s ino m 0 s2 (take c es @ map fresh_entry bs @ drop c es)"
    and agree: "\<And>b. b \<noteq> index_block I \<Longrightarrow> bufs s2 b = bufs s b"
    and bs: "length bs = m" "set bs \<subseteq> free_blocks (sbi s)"
    and m: "m = k + of_bool (es = [])"
  shows "\<exists>W. opened s ino pos m s2 (take i es) W (drop c es) \<and> length W = Suc k \<and>
    get_block_size (hd W) = p"
proof -
  have b19: "\<forall>b \<in> set bs. b < 2 ^ 19"
    using bs(2) free_blocks_less wf(1) by (fastforce simp: fs_wf_def)
  note fe = fresh_entries [OF b19] and i = located_index [OF loc, folded es_def]
  have ib: "index_block I \<notin> get_block_number ` set es"
    using file_index_split(6) [OF wf] by (auto simp: es_def I_def)
  have sub: "fragments (bufs s2) xs = fragments (bufs s) xs" if "set xs \<subseteq> set es" for xs
    using that ib by (intro fragments_agree [of "index_block I", OF agree]) auto
  have len: "\<And>b. length (bufs s b) = 4096" using wf(1) by (simp add: fs_wf_def wf_bufs_length)
  show ?thesis
  proof (cases "es = []")
    case True
    then obtain b bs' where "bs = b # bs'" using m bs(1) by (cases bs) auto
    then show ?thesis using True i loc grown fe m bs(1)
      by (intro exI [of _ "map fresh_entry bs"])
        (auto simp: opened_def c_def es_def [symmetric] file_content_def)
  next
    case False
    then have il: "i < length es" "c = Suc i" using i by (auto simp: c_def)
    have p: "p = get_block_size (es ! i)" using nmv il located_end [OF loc] by (auto simp: es_def)
    have t: "take (Suc i) es = take i es @ [es ! i]" using il by (simp add: take_Suc_conv_app_nth)
    note sp = located_split [OF len loc [folded es_def] il(1)]
    have "length (fragment (bufs s) (es ! i)) = nat p" using len p by (simp add: length_fragment)
    then have tk: "take (nat pos) (file_content s ino) = fragments (bufs s) (take (Suc i) es)"
        "drop (nat pos) (file_content s ino) = fragments (bufs s) (drop (Suc i) es)"
      using sp by (simp_all add: file_content_def es_def [symmetric] t)
    have "opened s ino pos m s2 (take i es) (es ! i # map fresh_entry bs) (drop c es)"
      unfolding opened_def
      using grown tk sub [of "take (Suc i) es"] sub [of "drop (Suc i) es"] fe(3,4) il t
        set_take_subset [of "Suc i" es] set_drop_subset [of "Suc i" es]
      by auto
    then show ?thesis using m bs(1) False p by (intro exI [of _ "es ! i # map fresh_entry bs"]) simp
  qed
qed

text \<open>Otherwise the bytes after the cursor move to the last of the reserved blocks.\<close>

lemma grown_move:
  assumes g: "grown s ino m k s2 (X @ ef # F @ et # B)"
    and br: "bread_ok env (get_block_number ef)" "bread_ok env (get_block_number et)"
    and p: "int p \<le> get_block_size ef" and et: "get_block_size et = 0"
  shows "\<exists>s3 ef' et'. move_old_content_to env (index_block (inodes s ino)) (int (length X))
      (int (length X + Suc (length F))) (int p) s2 = Some (0, s3) \<and>
    grown s ino m k s3 (X @ ef' # F @ et' # B) \<and> get_block_size ef' = int p \<and>
    fragment (bufs s3) ef' = take p (fragment (bufs s2) ef) \<and>
    fragment (bufs s3) et' = drop p (fragment (bufs s2) ef) \<and>
    (\<forall>e \<in> set (X @ F @ B). bufs s3 (get_block_number e) = bufs s2 (get_block_number e))"
proof -
  define ib Z where "ib = index_block (inodes s ino)"
    and "Z = replicate (1024 - length (X @ ef # F @ et # B)) (0 :: entry)"
  have gg: "wf_bufs s2" "load_index s2 ib = X @ ef # F @ et # (B @ Z)"
      "distinct (ib # map get_block_number (X @ ef # F @ et # B))"
    using g unfolding grown_def Let_def ib_def [symmetric] Z_def [symmetric] by simp_all
  define ef' et' where "ef' = sub_block_size ef (get_block_size ef - int p)"
    and "et' = set_block_size et (get_block_size ef - int p)"
  from move_old_content_to_spec [OF gg br p, folded ef'_def et'_def]
  obtain s3 where mv: "move_old_content_to env ib (int (length X)) (int (length X + Suc (length F))) (int p) s2 = Some (0, s3)"
      "wf_bufs s3" "load_index s3 ib = X @ ef' # F @ et' # B @ Z"
    and fr: "fragment (bufs s3) ef' = take p (fragment (bufs s2) ef)" "fragment (bufs s3) et' = drop p (fragment (bufs s2) ef)"
    and sy: "fragment (media s3) et' = fragment (bufs s3) et'"
      "fragment (media s2) ef = fragment (bufs s2) ef \<longrightarrow> fragment (media s3) ef' = fragment (bufs s3) ef'"
    and other: "\<And>b. \<lbrakk>b \<noteq> ib; b \<noteq> get_block_number ef; b \<noteq> get_block_number et\<rbrakk> \<Longrightarrow>
      bufs s3 b = bufs s2 b \<and> media s3 b = media s2 b"
    and rest: "sbi s3 = sbi s2" "inodes s3 = inodes s2" "idirty s3 = idirty s2"
    by blast
  have keep: "bufs s3 (get_block_number e) = bufs s2 (get_block_number e) \<and>
      media s3 (get_block_number e) = media s2 (get_block_number e)" if "e \<in> set (X @ F @ B)" for e
    using that gg(3) by (intro other) (auto simp: image_iff)
  have sz: "get_block_size ef' = int p" "get_block_size et' = get_block_size ef - int p"
    using p get_block_size_le [of ef] by (simp_all add: ef'_def et'_def)
  have num: "map get_block_number (X @ ef' # F @ et' # B) = map get_block_number (X @ ef # F @ et # B)"
    by (simp add: ef'_def et'_def)
  have "synced s2 (X @ F @ B) = synced s3 (X @ F @ B)" using keep by (intro synced_cong) auto
  then have "synced s2 (X @ ef # F @ et # B) \<longrightarrow> synced s3 (X @ ef' # F @ et' # B)" using sy by auto
  then have "grown s ino m (k + 0) s3 (X @ ef' # F @ et' # B)"
    using mv(3) num sz et rest other
    by (intro grown_step [OF g mv(2)]) (simp_all add: ib_def Z_def)
  with mv(1) sz fr keep show ?thesis
    by (intro exI [of _ s3] exI [of _ ef'] exI [of _ et']) (simp add: ib_def)
qed

lemma opened_move:
  assumes wf: "fs_wf s" "file_wf s ino" and loc: "located (data_entries s ino) pos i p"
    and ok: "disk_ok env s"
  defines "es \<equiv> data_entries s ino" and "I \<equiv> inodes s ino"
  assumes mv: "i < length es" "p < get_block_size (es ! i)"
    and grown: "grown s ino m 0 s2 (take (Suc i) es @ map fresh_entry bs @ drop (Suc i) es)"
    and agree: "\<And>b. b \<noteq> index_block I \<Longrightarrow> bufs s2 b = bufs s b"
    and bs: "length bs = m" "set bs \<subseteq> free_blocks (sbi s)" and m: "m = Suc k"
  shows "\<exists>s3 W t. move_old_content_to env (index_block I) (int i) (int i + int m) p s2 = Some (0, s3) \<and>
    opened s ino pos m s3 (take i es) W (t # drop (Suc i) es) \<and> length W = Suc k \<and>
    get_block_size (hd W) = p"
proof -
  have b19: "\<forall>b \<in> set bs. b < 2 ^ 19 \<and> b < nr_blocks (sbi s)"
    using bs(2) free_blocks_less wf(1) by (fastforce simp: fs_wf_def)
  obtain cs t where cs: "bs = cs @ [t]" "length cs = k" using bs(1) m by (cases bs rule: rev_cases) auto
  define p' where "p' = nat p"
  have p: "p = int p'" using located_bounds(1) [OF loc] by (simp add: p'_def)
  have b19c: "\<forall>b \<in> set cs. b < 2 ^ 19" using b19 cs by simp
  note fe = fresh_entries [OF b19c]
  have ft: "get_block_number (fresh_entry t) = t" "get_block_size (fresh_entry t) = 0"
    using fresh_entry_fields [of t] b19 cs by auto
  let ?X = "take i es" and ?B = "drop (Suc i) es" and ?F = "map fresh_entry cs"
  have t: "take (Suc i) es = ?X @ [es ! i]" "length ?X = i" using mv by (simp_all add: take_Suc_conv_app_nth)
  have g: "grown s ino m 0 s2 (?X @ es ! i # ?F @ fresh_entry t # ?B)" using grown t cs by simp
  have "es ! i \<in> set es" using mv by simp
  then have "get_block_number (es ! i) < nr_blocks (sbi s)"
    using data_entries_allocated [OF wf(2)] by (auto simp: es_def allocated_def)
  then have br: "bread_ok env (get_block_number (es ! i))" "bread_ok env (get_block_number (fresh_entry t))"
    using ok ft b19 cs by (auto simp: disk_ok_def)
  have "int p' \<le> get_block_size (es ! i)" using mv p by simp
  from grown_move [OF g br this ft(2)] obtain s3 ef' et' where
    s3: "move_old_content_to env (index_block I) (int i) (int i + int m) p s2 = Some (0, s3)"
      "grown s ino m 0 s3 (?X @ ef' # ?F @ et' # ?B)" "get_block_size ef' = p"
      "fragment (bufs s3) ef' = take p' (fragment (bufs s2) (es ! i))"
      "fragment (bufs s3) et' = drop p' (fragment (bufs s2) (es ! i))"
      "\<forall>e \<in> set (?X @ ?F @ ?B). bufs s3 (get_block_number e) = bufs s2 (get_block_number e)"
    unfolding t(2) using p cs m by (auto simp: I_def add.left_commute)
  have ib: "index_block I \<notin> get_block_number ` set es"
    using file_index_split(6) [OF wf] by (auto simp: es_def I_def)
  have sub: "fragments (bufs s2) xs = fragments (bufs s) xs" if "set xs \<subseteq> set es" for xs
    using that ib by (intro fragments_agree [of "index_block I", OF agree]) auto
  have fx: "fragments (bufs s3) xs = fragments (bufs s) xs" if "xs = ?X \<or> xs = ?B" for xs
  proof -
    have "fragments (bufs s3) xs = fragments (bufs s2) xs"
      using that s3(6) by (intro fragments_cong) auto
    moreover have "set xs \<subseteq> set es" using that set_take_subset set_drop_subset by metis
    ultimately show ?thesis using sub by simp
  qed
  have fi: "fragment (bufs s2) (es ! i) = fragment (bufs s) (es ! i)"
    using sub [of "[es ! i]"] \<open>es ! i \<in> set es\<close> by simp
  have len: "\<And>b. length (bufs s b) = 4096" using wf(1) by (simp add: fs_wf_def wf_bufs_length)
  note sp = located_split [OF len loc [folded es_def] mv(1)]
  have "opened s ino pos m s3 ?X (ef' # ?F) (et' # ?B)"
    unfolding opened_def using s3(2,4,5) fx fi sp fe(3,4) by (simp add: p'_def file_content_def es_def [symmetric])
  with s3 cs show ?thesis by (intro exI [of _ s3] exI [of _ "ef' # ?F"] exI [of _ et']) simp
qed

end
