(* ===== verification/Demo.thy ===== *)
theory Demo
  imports Vfs
begin

text \<open>
  A small mounted partition on which the theorems are instantiated: 16 blocks, laid out as
  mkfs does (superblock, inode store, the two bitmaps, the root directory in block 4), with two
  regular files. File 2 is ``hello'' in one fragment (index block 5, data block 6); file 3 holds
  two fragments (index block 7, data blocks 8 and 9). Blocks 10 to 15 are free.
\<close>

definition demo_sb :: sb_info where
  "demo_sb = \<lparr>nr_blocks = 16, nr_inodes = 56, nr_istore_blocks = 1, nr_ifree_blocks = 1,
     nr_bfree_blocks = 1, nr_free_inodes = 52, nr_free_blocks = 6,
     ifree_bitmap = [0xF0, 0xFF, 0xFF, 0xFF, 0xFF, 0xFF, 0xFF], bfree_bitmap = [0x00, 0xFC]\<rparr>"

definition demo_time :: timespec where
  "demo_time = \<lparr>tv_sec = 1700000000, tv_nsec = 0\<rparr>"

definition demo_env :: kenv where
  "demo_env = \<lparr>bread_ok = (\<lambda>_. True), uncopied = (\<lambda>_ _. 0), current_time = demo_time,
     memcpy_overlap = (\<lambda>b dst src n. overlay b dst (take n (drop src b))),
     iget_locked = (\<lambda>_. Some True), kzalloc_ok = (\<lambda>_. True), d_make_root_ok = True,
     init_owner = (\<lambda>_ mode. (0, 0, mode))\<rparr>"

definition demo_inode :: "int \<Rightarrow> nat \<Rightarrow> nat \<Rightarrow> inode" where
  "demo_inode sz blocks index =
     \<lparr>i_mode = 0x81A4, i_uid = 0, i_gid = 0, i_size = sz, i_ctime = demo_time, i_atime = demo_time,
      i_mtime = demo_time, i_blocks = blocks, i_nlink = 1, index_block = index\<rparr>"

definition demo_bytes :: "byte list \<Rightarrow> byte list" where
  "demo_bytes bs = overlay (replicate 4096 0) 0 bs"

definition demo_entry :: "nat \<Rightarrow> int \<Rightarrow> entry" where
  "demo_entry b sz = set_block_size (set_block_number 0 b) sz"

definition demo_fs :: fs where
  "demo_fs =
     store_index 5 (demo_entry 6 5 # replicate 1023 0)
      (store_index 7 (demo_entry 8 3 # demo_entry 9 2 # replicate 1022 0)
       (set_buf 6 (demo_bytes [104, 101, 108, 108, 111])
        (set_buf 8 (demo_bytes [1, 2, 3])
         (set_buf 9 (demo_bytes [4, 5])
           \<lparr>bufs = (\<lambda>_. replicate 4096 0), dirty = (\<lambda>_. False), media = (\<lambda>_. replicate 4096 0),
            sbi = demo_sb,
            inodes = (\<lambda>ino. if ino = 2 then demo_inode 5 2 5 else demo_inode 5 3 7),
            idirty = (\<lambda>_. False)\<rparr>))))"

definition demo_file :: "nat \<Rightarrow> file" where
  "demo_file ino = \<lparr>f_flags = O_RDWR, f_inode = ino\<rparr>"

lemma demo_entry_fields [simp]:
  "\<lbrakk>b < 2 ^ 19; 0 \<le> sz; sz \<le> 4096\<rbrakk> \<Longrightarrow>
   get_block_number (demo_entry b sz) = b \<and> get_block_size (demo_entry b sz) = sz"
  by (simp add: demo_entry_def get_set_block_number)

lemma demo_entry_nonzero [simp]: "\<lbrakk>0 < b; b < 2 ^ 19; 0 < sz; sz \<le> 4096\<rbrakk> \<Longrightarrow> demo_entry b sz \<noteq> 0"
  using demo_entry_fields [of b sz] by (metis get_block_zero(1) less_irrefl less_imp_le)

lemma length_demo_bytes [simp]: "length bs \<le> 4096 \<Longrightarrow> length (demo_bytes bs) = 4096"
  by (simp add: demo_bytes_def)

lemma demo_free: "free_blocks demo_sb = {10, 11, 12, 13, 14, 15}"
proof -
  have "free_blocks demo_sb = set (filter (test_bit (bfree_bitmap demo_sb)) [0..<16])"
    by (auto simp: free_blocks_def ones_def demo_sb_def)
  also have "filter (test_bit (bfree_bitmap demo_sb)) [0..<16] = [10, 11, 12, 13, 14, 15]"
    by code_simp
  finally show ?thesis by simp
qed

lemma demo_index:
  "load_index demo_fs 5 = demo_entry 6 5 # replicate 1023 0"
  "load_index demo_fs 7 = demo_entry 8 3 # demo_entry 9 2 # replicate 1022 0"
  by (simp_all add: demo_fs_def load_store_index)

lemma demo_inodes [simp]:
  "inodes demo_fs 2 = demo_inode 5 2 5" "inodes demo_fs 3 = demo_inode 5 3 7"
  "i_size (demo_inode a b c) = a" "i_blocks (demo_inode a b c) = b" "index_block (demo_inode a b c) = c"
  "sbi demo_fs = demo_sb" "nr_free_blocks demo_sb = 6" "nr_blocks demo_sb = 16"
  "nr_inodes demo_sb = 56" "nr_free_inodes demo_sb = 52"
  by (simp_all add: demo_fs_def demo_inode_def demo_sb_def)

lemma demo_entries [simp]:
  "data_entries demo_fs 2 = [demo_entry 6 5]"
  "data_entries demo_fs 3 = [demo_entry 8 3, demo_entry 9 2]"
  by (simp_all add: data_entries_def demo_index)

lemma demo_bufs:
  "bufs demo_fs 6 = demo_bytes [104, 101, 108, 108, 111]" "bufs demo_fs 8 = demo_bytes [1, 2, 3]"
  "bufs demo_fs 9 = demo_bytes [4, 5]"
  by (simp_all add: demo_fs_def)

lemma demo_content [simp]:
  "file_content demo_fs 2 = [104, 101, 108, 108, 111]" "file_content demo_fs 3 = [1, 2, 3, 4, 5]"
  by (simp_all add: file_content_def fragment_def demo_bufs demo_bytes_def overlay_def)

lemma demo_files_wf: "files_wf demo_fs {2, 3}"
proof -
  have "wf_bufs demo_fs"
    by (simp add: demo_fs_def wf_bufs_store_index wf_bufs_set_buf)
      (intro wf_bufs_store_index wf_bufs_set_buf; simp add: wf_bufs_def OUICHEFS_BLOCK_SIZE_def)
  moreover have "block_map_wf demo_sb"
    using demo_free by (simp add: block_map_wf_def) (simp add: demo_sb_def bitmap_bits_def)
  moreover have "file_wf demo_fs 2" "file_wf demo_fs 3"
    by (auto simp: file_wf_def Let_def index_wf_def demo_index file_blocks_def allocated_def demo_free)
  ultimately show ?thesis by (auto simp: files_wf_def fs_wf_def file_blocks_def)
qed

lemma demo_wf:
  "fs_wf demo_fs" "file_wf demo_fs 2" "file_wf demo_fs 3" "file_blocks demo_fs 2 = {5, 6}"
  "file_blocks demo_fs 3 = {7, 8, 9}"
  using demo_files_wf by (auto simp: files_wf_def file_blocks_def)

text \<open>The same partition where file 2 fills its only block.\<close>

definition demo_full :: fs where
  "demo_full = set_inode 2 (demo_inode 4096 2 5) (store_index 5 (demo_entry 6 4096 # replicate 1023 0) demo_fs)"

lemma demo_full_simps [simp]:
  "inodes demo_full 2 = demo_inode 4096 2 5" "sbi demo_full = demo_sb"
  "load_index demo_full 5 = demo_entry 6 4096 # replicate 1023 0"
  "data_entries demo_full 2 = [demo_entry 6 4096]"
  by (simp_all add: demo_full_def data_entries_def load_store_index)

lemma demo_full_content:
  "file_content demo_full 2 = demo_bytes [104, 101, 108, 108, 111]"
  by (simp add: file_content_def fragment_def) (simp add: demo_full_def demo_bufs)

lemma demo_full_wf: "fs_wf demo_full" "file_wf demo_full 2"
proof -
  show "fs_wf demo_full" using demo_wf(1)
    by (simp add: fs_wf_def) (simp add: demo_full_def wf_bufs_store_index)
  show "file_wf demo_full 2"
    by (auto simp: file_wf_def Let_def index_wf_def file_blocks_def allocated_def demo_free)
qed

text \<open>A partition without free blocks, where file 2 has a byte in each of 1024 blocks.\<close>

definition demo_max_sb :: sb_info where
  "demo_max_sb = demo_sb\<lparr>nr_blocks := 2048, nr_free_blocks := 0, bfree_bitmap := replicate 256 0\<rparr>"

definition demo_max_entries :: "entry list" where
  "demo_max_entries = map (\<lambda>b. demo_entry b 1) [100..<1124]"

definition demo_max :: fs where
  "demo_max = store_index 5 demo_max_entries
     (set_inode 2 (demo_inode 1024 1025 5) (demo_fs\<lparr>sbi := demo_max_sb\<rparr>))"

lemma demo_max_facts:
  "data_entries demo_max 2 = demo_max_entries" "fs_wf demo_max" "file_wf demo_max 2"
proof -
  have len: "length demo_max_entries = 1024" by (simp add: demo_max_entries_def del: upt_rec_numeral)
  have nums: "map get_block_number demo_max_entries = [100..<1124]"
    unfolding demo_max_entries_def map_map by (rule map_idI) (simp del: upt_rec_numeral)
  have img: "get_block_number ` set demo_max_entries = {100..<1124}"
    using arg_cong [OF nums, of set] by (simp del: upt_rec_numeral)
  have sz: "total_size demo_max_entries = 1024"
  proof -
    have "map get_block_size demo_max_entries = replicate 1024 1"
      by (rule nth_equalityI) (simp_all add: demo_max_entries_def del: upt_rec_numeral)
    then show ?thesis by (simp add: total_size_def sum_list_replicate)
  qed
  have z: "0 \<notin> set demo_max_entries" using img by (metis atLeastLessThan_iff get_block_zero(2) imageI not_numeral_le_zero)
  have free: "free_blocks demo_max_sb = {}"
    by (auto simp: free_blocks_def ones_def demo_max_sb_def test_bit_def less_mult_imp_div_less)
  have li: "load_index demo_max 5 = demo_max_entries" using len by (simp add: demo_max_def load_store_index)
  have I: "inodes demo_max 2 = demo_inode 1024 1025 5" "sbi demo_max = demo_max_sb" by (simp_all add: demo_max_def)
  show de: "data_entries demo_max 2 = demo_max_entries" using li I len by (simp add: data_entries_def)
  show "fs_wf demo_max"
    using demo_wf(1) free len I
    by (simp add: fs_wf_def block_map_wf_def) (simp add: demo_max_def wf_bufs_store_index demo_max_sb_def bitmap_bits_def)
  have "index_wf 5 1024 demo_max_entries" using len nums img z by (simp add: index_wf_def del: upt_rec_numeral)
  moreover have "\<forall>b \<in> insert 5 {100..<1124}. allocated demo_max_sb b"
    using free by (auto simp: allocated_def demo_max_sb_def)
  ultimately show "file_wf demo_max 2"
    using I li de sz img by (simp add: file_wf_def file_blocks_def Let_def)
qed

end
