(* ===== verification/LightWrite.thy ===== *)
theory LightWrite
  imports Insert Demo
begin

text \<open>
  The contract of \<open>ouichefs_light_write\<close> at a position inside the file: the bytes are inserted
  at the cursor, the file stays well formed, no other block changes, and what was on the medium
  before is on the medium after.
\<close>

section \<open>The file after the write loop\<close>

lemma outside_entries:
  assumes "distinct (ib # map get_block_number (X @ W @ T))" "e \<in> set (X @ T)"
  shows "get_block_number e \<noteq> ib" "get_block_number e \<notin> get_block_number ` set W"
  using assms by auto

lemma fragments_keep:
  assumes "\<And>b. \<lbrakk>b \<noteq> ib; b \<notin> get_block_number ` set W\<rbrakk> \<Longrightarrow> bs b = cs b"
    and "distinct (ib # map get_block_number (X @ W @ T))"
  shows "fragments bs X = fragments cs X" "fragments bs T = fragments cs T"
  using outside_entries [OF assms(2)] assms(1) by (auto intro!: fragments_cong)

lemma grown_bread:
  assumes wf: "fs_wf s" "file_wf s ino" and ok: "disk_ok env s" and g: "grown s ino m k s3 ns" and e: "e \<in> set ns"
  shows "bread_ok env (get_block_number e)"
proof -
  have "get_block_number ` set ns \<subseteq> get_block_number ` set (data_entries s ino) \<union> free_blocks (sbi s)"
    using g unfolding grown_def Let_def by auto
  then have "get_block_number e \<in> get_block_number ` set (data_entries s ino) \<union> free_blocks (sbi s)"
    using e by auto
  then have "get_block_number e < nr_blocks (sbi s)"
    using data_entries_allocated [OF wf(2)] free_blocks_less by (auto simp: allocated_def)
  then show "bread_ok env (get_block_number e)" using ok by (simp add: disk_ok_def)
qed

lemma opened_loop:
  assumes op: "opened s ino pos m s3 X W T" and wf: "fs_wf s" "file_wf s ino" and ok: "disk_ok env s"
    and W: "W \<noteq> []" "get_block_size (hd W) = int p" "p < 4096 \<or> sz = 0" "sz + p \<le> 4096 * length W"
    and buff: "length buff = sz"
  defines "nb \<equiv> int (length (X @ W @ T))"
  shows "\<exists>s4 ns. light_write_loop env (index_block (inodes s ino)) nb sz buff s3 sz (int (length X)) (int p) = Some (0, 0, s4) \<and>
    grown s ino m (int sz) s4 ns \<and>
    fragments (bufs s4) ns = take (nat pos) (file_content s ino) @ buff @ drop (nat pos) (file_content s ino)"
proof -
  define ib Z where "ib = index_block (inodes s ino)"
    and "Z = replicate (1024 - length (X @ W @ T)) (0 :: entry)"
  have g: "grown s ino m 0 s3 (X @ W @ T)" and tl0: "\<forall>e \<in> set (tl W). get_block_size e = 0"
    and fr: "fragments (bufs s3) (X @ W) = take (nat pos) (file_content s ino)"
      "fragments (bufs s3) T = drop (nat pos) (file_content s ino)"
    using op by (simp_all add: opened_def)
  have gg: "wf_bufs s3" "load_index s3 ib = X @ W @ (T @ Z)"
      "distinct (ib # map get_block_number (X @ W @ T))"
    using g unfolding grown_def Let_def ib_def [symmetric] Z_def [symmetric] by auto
  have br: "\<forall>e \<in> set W. bread_ok env (get_block_number e)" using grown_bread [OF wf ok g] by simp
  have "\<exists>W' s4. light_write_loop env ib nb sz buff s3 sz (int (length X)) (int p) = Some (0, 0, s4) \<and>
    wf_bufs s4 \<and> load_index s4 ib = X @ W' @ (T @ Z) \<and> map get_block_number W' = map get_block_number W \<and>
    fragments (bufs s4) W' = fragments (bufs s3) W @ take sz (drop (sz - sz) buff) \<and>
    total_size W' = total_size W + int sz \<and> (synced s3 W \<longrightarrow> synced s4 W') \<and>
    (\<forall>b. b \<noteq> ib \<longrightarrow> b \<notin> get_block_number ` set W \<longrightarrow> bufs s4 b = bufs s3 b \<and> media s4 b = media s3 b) \<and>
    sbi s4 = sbi s3 \<and> inodes s4 = inodes s3 \<and> idirty s4 = idirty s3"
    using ok gg br W tl0 buff
    by (intro light_write_loop_spec) (auto simp: disk_ok_def nb_def)
  then obtain W' s4 where L: "light_write_loop env ib nb sz buff s3 sz (int (length X)) (int p) = Some (0, 0, s4)"
    "wf_bufs s4" "load_index s4 ib = X @ W' @ (T @ Z)" "map get_block_number W' = map get_block_number W"
    "fragments (bufs s4) W' = fragments (bufs s3) W @ buff"
    "total_size W' = total_size W + int sz" "synced s3 W \<longrightarrow> synced s4 W'"
    "\<And>b. \<lbrakk>b \<noteq> ib; b \<notin> get_block_number ` set W\<rbrakk> \<Longrightarrow> bufs s4 b = bufs s3 b \<and> media s4 b = media s3 b"
    "sbi s4 = sbi s3" "inodes s4 = inodes s3" "idirty s4 = idirty s3"
    using buff by auto
  have keep': "fragments (bufs s4) X = fragments (bufs s3) X" "fragments (bufs s4) T = fragments (bufs s3) T"
    using fragments_keep [of ib W "bufs s4" "bufs s3", OF _ gg(3)] L(8) by blast+
  have "synced s3 (X @ T) = synced s4 (X @ T)"
    using outside_entries [OF gg(3)] L(8) by (intro synced_cong) metis
  then have "grown s ino m (0 + int sz) s4 (X @ W' @ T)"
    using L by (intro grown_step [OF g]) (auto simp: ib_def Z_def)
  moreover have "fragments (bufs s4) (X @ W' @ T) = take (nat pos) (file_content s ino) @ buff @ drop (nat pos) (file_content s ino)"
    unfolding fr [symmetric] using keep' L(5) by simp
  ultimately show ?thesis using L(1) by (auto simp: ib_def)
qed

section \<open>The file at the end\<close>

text \<open>Once the inode has the new size, a grown file is well formed again.\<close>

lemma grown_file_wf:
  assumes wf: "fs_wf s" "file_wf s ino" and g: "grown s ino m k s4 ns"
    and "bufs s' = bufs s4" "sbi s' = sbi s4"
    and I: "index_block (inodes s' ino) = index_block (inodes s ino)"
      "i_blocks (inodes s' ino) = i_blocks (inodes s ino) + m" "i_size (inodes s' ino) = i_size (inodes s ino) + k"
  shows "fs_wf s'" "file_wf s' ino" "data_entries s' ino = ns" "file_content s' ino = fragments (bufs s4) ns"
proof -
  define ib es where "ib = index_block (inodes s ino)" and "es = data_entries s ino"
  note ix = file_index_split [OF wf, folded ib_def es_def]
  note gg = g [unfolded grown_def Let_def, folded ib_def es_def]
  have li: "load_index s' ib = ns @ replicate (1024 - length ns) 0"
    using gg assms(4) load_index_cong [of s' ib s4] by simp
  have q: "nr_blocks (sbi s4) = nr_blocks (sbi s)"
    using gg by (blast intro: blocks_change_nr_blocks)
  have n: "i_blocks (inodes s' ino) - 1 = length ns" using I(2) gg ix(3,4) by simp
  show de: "data_entries s' ino = ns" using li n I(1) by (simp add: data_entries_def ib_def)
  then show "file_content s' ino = fragments (bufs s4) ns" using assms(4) by (simp add: file_content_def)
  have fb: "0 \<notin> free_blocks (sbi s)" using wf(1) by (simp add: fs_wf_def block_map_wf_def)
  have al: "allocated (sbi s4) b" if "b = ib \<or> b \<in> get_block_number ` set ns" for b
  proof (cases "b \<in> free_blocks (sbi s)")
    case True
    then have nib: "b \<noteq> ib" "b \<notin> get_block_number ` set es"
      using wf(2) data_entries_allocated [OF wf(2)]
      by (auto simp: file_wf_def file_blocks_def Let_def allocated_def ib_def es_def)
    then show ?thesis using that True gg q fb free_blocks_less [OF True]
      by (auto simp: allocated_def intro: gr0I)
  next
    case False
    then have "b = ib \<or> b \<in> get_block_number ` set es" using that gg by auto
    then have "allocated (sbi s) b"
      using wf(2) by (auto simp: file_wf_def file_blocks_def Let_def ib_def es_def)
    then show ?thesis using gg q by (auto simp: allocated_def)
  qed
  have "e \<noteq> 0" if "e \<in> set ns" for e
    using al [of "get_block_number e"] that by (auto simp: allocated_def)
  then have "index_wf ib (length ns) (ns @ replicate (1024 - length ns) 0)"
    using gg by (auto simp: index_wf_def)
  moreover have "i_size (inodes s' ino) = total_size ns"
    using I(3) gg wf(2) by (simp add: file_wf_def Let_def es_def)
  ultimately show "file_wf s' ino"
    using al de li n I(1,2) ix(4) assms(5) unfolding file_wf_def Let_def
    by (simp add: ib_def file_blocks_def)
  show "fs_wf s'" using wf(1) gg q assms(4,5) by (simp add: fs_wf_def wf_bufs_def)
qed

section \<open>The operation\<close>

text \<open>The position a write starts at.\<close>

definition write_pos :: "file \<Rightarrow> int \<Rightarrow> fs \<Rightarrow> int" where
  "write_pos f pos s = (if f_flags f AND O_APPEND \<noteq> 0 then i_size (inodes s (f_inode f)) else pos)"

lemma write_flags_eq: "write_flags f pos (inodes s (f_inode f)) = (0, write_pos f pos s)"
  by (simp add: write_flags_def write_pos_def O_RDONLY_def)

lemma insert_opened:
  assumes wf: "fs_wf s" "file_wf s ino" and loc: "located (data_entries s ino) pos i p"
    and ok: "disk_ok env s" and sz: "sz \<le> 4194304"
  defines "es \<equiv> data_entries s ino" and "I \<equiv> inodes s ino"
  defines "m \<equiv> reserved_blocks es sz i p" and "mv \<equiv> i < length es \<and> p < get_block_size (es ! i)"
  assumes fit: "length es + m \<le> 1024" "m \<le> nr_free_blocks (sbi s)"
  shows "\<exists>s2 s3 X W T.
    light_write_alloc ino sz (int i) p mv (int i \<noteq> max (int (length es) - 1) 0) (max (int (length es) - 1) 0) s =
      Some (0, int m, s2) \<and>
    (if mv then move_old_content_to env (index_block I) (int i) (int i + int m) p s2 else Some (0, s2)) = Some (0, s3) \<and>
    opened s ino pos m s3 X W T \<and> length X = i \<and> length W = Suc (extra_blocks sz p) \<and> get_block_size (hd W) = p"
proof -
  define c where "c = (if es = [] then 0 else Suc i)"
  note al = light_write_alloc_spec(2) [OF wf loc sz, folded es_def I_def, folded m_def mv_def c_def, OF fit]
  then obtain bs q where al: "light_write_alloc ino sz (int i) p mv (int i \<noteq> max (int (length es) - 1) 0)
        (max (int (length es) - 1) 0) s =
      Some (0, int m, set_inode ino (I\<lparr>i_blocks := i_blocks I + m\<rparr>) (store_index (index_block I)
        (take c es @ map fresh_entry bs @ drop c es @ replicate (1024 - length es - m) 0) (s\<lparr>sbi := q\<rparr>)))"
    and bs: "length bs = m" "distinct bs" "set bs \<subseteq> free_blocks (sbi s)"
    and q: "block_map_wf q" "free_blocks q = free_blocks (sbi s) - set bs" "nr_blocks q = nr_blocks (sbi s)"
      "blocks_change (sbi s) q"
    by blast
  define s2 where "s2 = set_inode ino (I\<lparr>i_blocks := i_blocks I + m\<rparr>) (store_index (index_block I)
        (take c es @ map fresh_entry bs @ drop c es @ replicate (1024 - length es - m) 0) (s\<lparr>sbi := q\<rparr>))"
  note ga = grown_alloc [OF wf _ fit(1) [unfolded es_def] bs q, of "take c es" "drop c es",
      folded es_def I_def, folded s2_def]
  have g: "grown s ino m 0 s2 (take c es @ map fresh_entry bs @ drop c es)"
    "\<And>b. b \<noteq> index_block I \<Longrightarrow> bufs s2 b = bufs s b" using ga by simp_all
  have li: "length (take i es) = i" using located_bounds(2) [OF loc] by (simp add: es_def)
  show ?thesis
  proof (cases mv)
    case True
    then have i: "i < length es" "p < get_block_size (es ! i)" "c = Suc i" "m = Suc (extra_blocks sz p)"
      by (auto simp: mv_def c_def m_def reserved_blocks_def)
    from opened_move [OF wf loc ok i(1,2) [unfolded es_def] g [unfolded i(3) es_def I_def] bs(1,3) i(4)]
    show ?thesis using al True li unfolding es_def [symmetric] I_def [symmetric] s2_def [symmetric] by fastforce
  next
    case False
    then have m: "m = extra_blocks sz p + of_bool (es = [])"
      by (auto simp: mv_def m_def reserved_blocks_def)
    from opened_no_move [OF wf loc False [unfolded mv_def es_def] g [unfolded c_def es_def I_def] bs(1,3) m [unfolded es_def]]
    show ?thesis using al False li unfolding es_def [symmetric] I_def [symmetric] s2_def [symmetric] by fastforce
  qed
qed

text \<open>
  The call, for a cursor in the file: the checks pass, the position is found, and then it is the
  reservation that decides.
\<close>

lemma light_write_unfold:
  assumes wf: "fs_wf s" "file_wf s ino" and ino: "f_inode f = ino" and ok: "bread_ok env (index_block (inodes s ino))"
    and wp: "write_pos f pos s = wp" "0 \<le> wp" "wp \<le> i_size (inodes s ino)" "wp + int sz \<le> 4194304"
    and loc: "located (data_entries s ino) wp i p"
  defines "es \<equiv> data_entries s ino" and "ib \<equiv> index_block (inodes s ino)"
  defines "mv \<equiv> i < length es \<and> p < get_block_size (es ! i)"
  shows "ouichefs_light_write env f buff sz pos s =
    do { (ret, nb_allocs, s) \<leftarrow> light_write_alloc ino sz (int i) p mv (int i \<noteq> max (int (length es) - 1) 0)
           (max (int (length es) - 1) 0) s;
         if ret < 0 then Some (light_write_end env ino sz sz wp ret (write_back ib s))
         else
           do { (ret, s) \<leftarrow> (if mv then move_old_content_to env ib (int i) (int i + nb_allocs) p s else Some (ret, s));
                if ret < 0 then Some (light_write_end env ino sz sz wp ret (write_back ib s))
                else
                  do { (ret, remaining, s) \<leftarrow>
                         light_write_loop env ib (s32 (int (i_blocks (inodes s ino)) - 1)) sz buff s sz (int i) p;
                       Some (light_write_end env ino sz remaining wp ret (write_back ib s)) } } }"
proof -
  have n: "i_blocks (inodes s ino) - 1 = length es" using file_index_split(3) [OF wf] by (simp add: es_def)
  have "u64 (wp + int sz) = nat (wp + int sz)" using wp by (intro u64_id) auto
  then have "\<not> OUICHEFS_MAX_FILESIZE < u64 (wp + int sz)" using wp by (simp add: OUICHEFS_MAX_FILESIZE_def)
  then show ?thesis
    unfolding ouichefs_light_write_def Let_def ino ib_def [symmetric]
    using light_write_place_found [OF wf wp(2,3) loc, unfolded n, folded es_def, folded mv_def]
      write_flags_eq [of f pos s] ok ino wp(1)
    by (simp add: ib_def [symmetric])
qed

lemma grown_i_blocks:
  assumes "fs_wf s" "file_wf s ino" "grown s ino m k s3 ns"
  shows "s32 (int (i_blocks (inodes s3 ino)) - 1) = int (length ns)"
proof -
  note ix = file_index_split(3,4) [OF assms(1,2)]
  have "inodes s3 ino = (inodes s ino)\<lparr>i_blocks := i_blocks (inodes s ino) + m\<rparr>"
      "length ns = length (data_entries s ino) + m" "length ns \<le> 1024"
    using assms(3) by (simp_all add: grown_def Let_def)
  then show ?thesis using ix by (simp add: s32_id)
qed

lemma light_write_insert:
  assumes wf: "fs_wf s" "file_wf s ino" and ino: "f_inode f = ino" and ok: "disk_ok env s"
    and wp: "write_pos f pos s = wp" "0 \<le> wp" "wp \<le> i_size (inodes s ino)" "wp + int sz \<le> 4194304"
    and loc: "located (data_entries s ino) wp i p" and buff: "length buff = sz"
  defines "es \<equiv> data_entries s ino" and "ib \<equiv> index_block (inodes s ino)"
  defines "m \<equiv> reserved_blocks es sz i p"
  shows "1024 < length es + m \<or> nr_free_blocks (sbi s) < m \<Longrightarrow>
      ouichefs_light_write env f buff sz pos s = Some (- ENOSPC, wp, write_back ib s)" (is "?full \<Longrightarrow> ?A")
    and "\<lbrakk>length es + m \<le> 1024; m \<le> nr_free_blocks (sbi s); p < 4096 \<or> sz = 0\<rbrakk> \<Longrightarrow>
      \<exists>s4 ns. ouichefs_light_write env f buff sz pos s =
          Some (light_write_end env ino sz 0 wp 0 (write_back ib s4)) \<and>
        grown s ino m (int sz) s4 ns \<and>
        fragments (bufs s4) ns = take (nat wp) (file_content s ino) @ buff @ drop (nat wp) (file_content s ino)"
    and "\<lbrakk>length es + m \<le> 1024; m \<le> nr_free_blocks (sbi s); p = 4096; 0 < sz\<rbrakk> \<Longrightarrow>
      \<exists>s4 ns. ouichefs_light_write env f buff sz pos s = Some (- ENODATA, wp, write_back ib s4) \<and>
        grown s ino m 0 s4 ns \<and> fragments (bufs s4) ns = file_content s ino"
proof -
  have ibok: "bread_ok env ib"
    using wf(2) ok by (auto simp: file_wf_def Let_def file_blocks_def allocated_def disk_ok_def ib_def)
  have sz: "sz \<le> 4194304" using wp by linarith
  note call = light_write_unfold [OF wf ino ibok [unfolded ib_def] wp loc, folded es_def ib_def]
  have ez: "light_write_end env ino sz sz wp r t = (if r = 0 then 0 else r, wp, t)" for r t
    by (simp add: light_write_end_def)
  show ?A if ?full
    using light_write_alloc_spec(1) [OF wf loc sz, folded es_def, folded m_def, OF that] call
    by (simp add: ez ENOSPC_def)
  assume fit: "length es + m \<le> 1024" "m \<le> nr_free_blocks (sbi s)"
  from insert_opened [OF wf loc ok sz, folded es_def ib_def, folded m_def, OF fit]
  obtain s2 s3 X W T where st: "light_write_alloc ino sz (int i) p (i < length es \<and> p < get_block_size (es ! i))
        (int i \<noteq> max (int (length es) - 1) 0) (max (int (length es) - 1) 0) s = Some (0, int m, s2)"
      "(if i < length es \<and> p < get_block_size (es ! i)
        then move_old_content_to env ib (int i) (int i + int m) p s2 else Some (0, s2)) = Some (0, s3)"
    and op: "opened s ino wp m s3 X W T" and W: "length X = i" "length W = Suc (extra_blocks sz p)" "get_block_size (hd W) = p"
    by blast
  have g: "grown s ino m 0 s3 (X @ W @ T)" using op by (simp add: opened_def)
  define nb where "nb = int (length (X @ W @ T))"
  have call: "ouichefs_light_write env f buff sz pos s =
      do { (ret, remaining, s) \<leftarrow> light_write_loop env ib nb sz buff s3 sz (int i) p;
           Some (light_write_end env ino sz remaining wp ret (write_back ib s)) }"
    using call st grown_i_blocks [OF wf g] by (simp add: nb_def)
  show "\<exists>s4 ns. ouichefs_light_write env f buff sz pos s = Some (light_write_end env ino sz 0 wp 0 (write_back ib s4)) \<and>
        grown s ino m (int sz) s4 ns \<and>
        fragments (bufs s4) ns = take (nat wp) (file_content s ino) @ buff @ drop (nat wp) (file_content s ino)"
    if "p < 4096 \<or> sz = 0"
  proof -
    have p: "0 \<le> p" "p \<le> 4096" using located_bounds [OF loc] by auto
    then obtain p' where p': "p = int p'" using nonneg_int_cases by blast
    have "int sz + p \<le> 4096 * int (length W)" using extra_blocks_fit(1) [OF p sz] W by simp
    then have "W \<noteq> []" "sz + p' \<le> 4096 * length W" using W p' by auto
    from opened_loop [OF op wf ok this(1) W(3) [unfolded p'] _ this(2) buff, folded ib_def nb_def]
    show ?thesis using that call p' W(1) by auto
  qed
  show "\<exists>s4 ns. ouichefs_light_write env f buff sz pos s = Some (- ENODATA, wp, write_back ib s4) \<and>
        grown s ino m 0 s4 ns \<and> fragments (bufs s4) ns = file_content s ino"
    if "p = 4096" "0 < sz"
  proof -
    have "W \<noteq> []" using W(2) by auto
    then obtain w W' where w: "W = w # W'" by (cases W) auto
    have li: "load_index s3 ib = X @ w # (W' @ T @ replicate (1024 - length (X @ W @ T)) 0)"
      using g w unfolding grown_def Let_def ib_def by (metis append_Cons append_assoc)
    have "bread_ok env (get_block_number w)" using grown_bread [OF wf ok g, of w] w by simp
    then have "light_write_loop env ib nb sz buff s3 sz (int i) p = Some (- ENODATA, sz, s3)"
      using li that W(1) w arr_mid [of X w]
      by (subst light_write_loop.simps) (simp add: nb_def OUICHEFS_BLOCK_SIZE_def u64_def)
    moreover have "fragments (bufs s3) (X @ W @ T) = file_content s ino"
      using op unfolding opened_def by (metis append_assoc append_take_drop_id fragments_simps(3))
    ultimately show ?thesis
      using call g by (intro exI [of _ s3] exI [of _ "X @ W @ T"]) (simp add: ez ENODATA_def)
  qed
qed

section \<open>Correctness\<close>

lemma light_write_end_done:
  "light_write_end env ino sz 0 wp 0 s = (int sz, wp + int sz,
     if 0 < sz then mark_inode_dirty ino (set_inode ino ((inodes s ino)\<lparr>i_size := i_size (inodes s ino) + int sz,
       i_mtime := current_time env, i_ctime := current_time env\<rparr>) s) else s)"
  by (simp add: light_write_end_def Let_def)

text \<open>The other files of the file system while one file grows.\<close>

lemma grown_others:
  assumes fw: "files_wf s F" "ino \<in> F" and g: "grown s ino m k s4 ns"
    and s': "bufs s' = bufs s4" "sbi s' = sbi s4" "\<And>j. j \<noteq> ino \<Longrightarrow> inodes s' j = inodes s4 j"
    and I: "index_block (inodes s' ino) = index_block (inodes s ino)"
      "i_blocks (inodes s' ino) = i_blocks (inodes s ino) + m" "i_size (inodes s' ino) = i_size (inodes s ino) + k"
  shows "files_wf s' F" "\<And>j. \<lbrakk>j \<in> F; j \<noteq> ino\<rbrakk> \<Longrightarrow> file_content s' j = file_content s j"
proof -
  have wf: "fs_wf s" "file_wf s ino" using fw by (auto simp: files_wf_def)
  note gw = grown_file_wf [OF wf g s'(1,2) I]
  define ib es where "ib = index_block (inodes s ino)" and "es = data_entries s ino"
  note gg = g [unfolded grown_def Let_def, folded ib_def es_def]
  have q: "nr_blocks (sbi s4) = nr_blocks (sbi s)"
    using gg by (blast intro: blocks_change_nr_blocks)
  have fb: "file_blocks s' ino \<subseteq> file_blocks s ino \<union> free_blocks (sbi s)"
    using gg gw(3) I(1) by (auto simp: file_blocks_def ib_def es_def)
  have keep: "bufs s' b = bufs s b \<and> allocated (sbi s') b" if al: "allocated (sbi s) b" and b: "b \<notin> file_blocks s ino" for b
  proof -
    have "b \<noteq> ib" "b \<notin> get_block_number ` set ns"
      using al b gg by (auto simp: file_blocks_def ib_def es_def allocated_def)
    then show ?thesis using gg al q s' by (auto simp: allocated_def)
  qed
  have "inodes s' j = inodes s j" if "j \<noteq> ino" for j using that s'(3) gg by simp
  from files_wf_update [OF fw gw(1,2) fb this keep]
  show "files_wf s' F" "\<And>j. \<lbrakk>j \<in> F; j \<noteq> ino\<rbrakk> \<Longrightarrow> file_content s' j = file_content s j" by simp_all
qed

lemma grown_frame:
  assumes wf: "fs_wf s" "file_wf s ino" and g: "grown s ino m k s4 ns"
    and s': "bufs s' = bufs s4" "sbi s' = sbi s4" "\<And>j. j \<noteq> ino \<Longrightarrow> inodes s' j = inodes s4 j"
    and I: "index_block (inodes s' ino) = index_block (inodes s ino)"
      "i_blocks (inodes s' ino) = i_blocks (inodes s ino) + m" "i_size (inodes s' ino) = i_size (inodes s ino) + k"
      "i_mode (inodes s' ino) = i_mode (inodes s ino)"
  shows "file_frame s ino s'"
proof -
  note gw = grown_file_wf(3) [OF wf g s'(1,2) I(1-3)]
  have "get_block_number ` set ns = get_block_number ` set (data_entries s ino) \<union> (free_blocks (sbi s) - free_blocks (sbi s4))"
    "free_blocks (sbi s4) \<subseteq> free_blocks (sbi s)"
    "\<forall>b. b \<noteq> index_block (inodes s ino) \<longrightarrow> b \<notin> get_block_number ` set ns \<longrightarrow> bufs s4 b = bufs s b \<and> media s4 b = media s b"
    "blocks_change (sbi s) (sbi s4)"
    "\<forall>j. j \<noteq> ino \<longrightarrow> inodes s4 j = inodes s j"
    using g by (simp_all add: grown_def Let_def)
  with s' I gw show ?thesis unfolding file_frame_def by (auto simp: file_blocks_def)
qed

lemma synced_fragments: "synced s es \<Longrightarrow> fragments (media s) es = fragments (bufs s) es"
  by (induction es) simp_all

lemma light_write_done:
  assumes fw: "files_wf s F" "ino \<in> F" and ino: "f_inode f = ino" and ok: "disk_ok env s"
    and wp: "write_pos f pos s = wp" "0 \<le> wp" "wp \<le> i_size (inodes s ino)" "wp + int sz \<le> 4194304"
    and loc: "located (data_entries s ino) wp i p" and p: "p < 4096 \<or> sz = 0" and buff: "length buff = sz"
  defines "es \<equiv> data_entries s ino"
  defines "m \<equiv> reserved_blocks es sz i p"
  assumes fit: "length es + m \<le> 1024" "m \<le> nr_free_blocks (sbi s)"
  shows "\<exists>s'. ouichefs_light_write env f buff sz pos s = Some (int sz, wp + int sz, s') \<and>
    file_content s' ino = take (nat wp) (file_content s ino) @ buff @ drop (nat wp) (file_content s ino) \<and>
    i_size (inodes s' ino) = i_size (inodes s ino) + int sz \<and> files_wf s' F \<and>
    (\<forall>j \<in> F - {ino}. file_content s' j = file_content s j) \<and>
    (synced s es \<longrightarrow> synced s' (data_entries s' ino)) \<and>
    media s' (index_block (inodes s' ino)) = bufs s' (index_block (inodes s' ino)) \<and> file_frame s ino s' \<and>
    length (data_entries s' ino) = length es + m"
proof -
  define ib where "ib = index_block (inodes s ino)"
  have wf: "fs_wf s" "file_wf s ino" using fw by (auto simp: files_wf_def)
  from light_write_insert(2) [OF wf ino ok wp loc buff, folded es_def ib_def, folded m_def, OF fit p]
  obtain s4 ns where call: "ouichefs_light_write env f buff sz pos s =
        Some (light_write_end env ino sz 0 wp 0 (write_back ib s4))"
    and g: "grown s ino m (int sz) s4 ns"
    and c: "fragments (bufs s4) ns = take (nat wp) (file_content s ino) @ buff @ drop (nat wp) (file_content s ino)"
    by blast
  define s' where "s' = snd (snd (light_write_end env ino sz 0 wp 0 (write_back ib s4)))"
  have in4: "inodes s4 = (inodes s)(ino := (inodes s ino)\<lparr>i_blocks := i_blocks (inodes s ino) + m\<rparr>)"
      "distinct (ib # map get_block_number ns)" "synced s es \<longrightarrow> synced s4 ns" "length ns = length es + m"
    using g unfolding grown_def Let_def ib_def es_def by blast+
  have s': "bufs s' = bufs s4" "sbi s' = sbi s4" "\<And>j. j \<noteq> ino \<Longrightarrow> inodes s' j = inodes s4 j"
      "index_block (inodes s' ino) = index_block (inodes s ino)"
      "i_blocks (inodes s' ino) = i_blocks (inodes s ino) + m" "i_size (inodes s' ino) = i_size (inodes s ino) + int sz"
      "media s' = (media s4)(ib := bufs s4 ib)" "i_mode (inodes s' ino) = i_mode (inodes s ino)"
    by (simp_all add: s'_def light_write_end_done in4(1))
  note gw = grown_file_wf [OF wf g s'(1,2,4-6)] and go = grown_others [OF fw g s'(1-6)] and gf = grown_frame [OF wf g s'(1-6,8)]
  have "synced s' ns = synced s4 ns"
    using in4(2) s'(1,7) by (intro synced_cong) (auto simp: image_iff)
  moreover have "ouichefs_light_write env f buff sz pos s = Some (int sz, wp + int sz, s')"
    using call by (simp add: s'_def light_write_end_done)
  ultimately show ?thesis using gw go gf c s' in4(3,4)
    by (intro exI [of _ s']) (simp add: ib_def)
qed

text \<open>
  C6: A write of \<open>sz\<close> bytes at a position \<open>wp\<close> inside a well-formed file (or at its end), for which
  the blocks are available, returns \<open>sz\<close>, advances the position by \<open>sz\<close>, and inserts exactly the
  user's bytes at \<open>wp\<close>: the bytes before stay, the bytes after follow the inserted ones. (The block
  of the cursor must not be full up to the cursor: property C9 says what happens then.)
\<close>

theorem light_write_inserts:
  assumes "files_wf s F" "ino \<in> F" "f_inode f = ino" "disk_ok env s"
    and "write_pos f pos s = wp" "0 \<le> wp" "wp \<le> i_size (inodes s ino)" "wp + int sz \<le> 4194304"
    and "located (data_entries s ino) wp i p" "p < 4096 \<or> sz = 0" "length buff = sz"
    and "length (data_entries s ino) + reserved_blocks (data_entries s ino) sz i p \<le> 1024"
    and "reserved_blocks (data_entries s ino) sz i p \<le> nr_free_blocks (sbi s)"
  shows "\<exists>s'. ouichefs_light_write env f buff sz pos s = Some (int sz, wp + int sz, s') \<and>
    file_content s' ino = take (nat wp) (file_content s ino) @ buff @ drop (nat wp) (file_content s ino) \<and>
    i_size (inodes s' ino) = i_size (inodes s ino) + int sz"
  using light_write_done [OF assms] by blast

lemma demo_insert:
  "disk_ok demo_env demo_fs" "write_pos (demo_file ino) pos demo_fs = pos" "f_inode (demo_file ino) = ino"
  "located [demo_entry 6 5] 2 0 2" "located [demo_entry 8 3, demo_entry 9 2] 4 1 1"
  "reserved_blocks [demo_entry 6 5] 3 0 2 = 1"
  "reserved_blocks [demo_entry 8 3, demo_entry 9 2] 4100 1 1 = 2"
  by (simp_all add: disk_ok_def demo_env_def write_pos_def demo_file_def O_RDWR_def O_APPEND_def located_def
      reserved_blocks_def extra_blocks_def idiv_ceil_def)

theorem light_write_inserts_witness:
  "\<exists>s'. ouichefs_light_write demo_env (demo_file 2) [7, 8, 9] 3 2 demo_fs = Some (3, 5, s') \<and>
     file_content s' 2 = [104, 101, 7, 8, 9, 108, 108, 111] \<and> i_size (inodes s' 2) = 8"
  using light_write_inserts [OF demo_files_wf _ demo_insert(3) demo_insert(1) demo_insert(2), of 2 2 3 0 2 "[7, 8, 9]"]
  by (simp add: demo_insert)

text \<open>
  The same write keeps the whole file system well formed (\<open>files_wf\<close>: allocation bitmap and
  counter, every file's index, sizes and block ownership) and changes the content of no other file.
\<close>

theorem light_write_keeps_files:
  assumes "files_wf s F" "ino \<in> F" "f_inode f = ino" "disk_ok env s"
    and "write_pos f pos s = wp" "0 \<le> wp" "wp \<le> i_size (inodes s ino)" "wp + int sz \<le> 4194304"
    and "located (data_entries s ino) wp i p" "p < 4096 \<or> sz = 0" "length buff = sz"
    and "length (data_entries s ino) + reserved_blocks (data_entries s ino) sz i p \<le> 1024"
    and "reserved_blocks (data_entries s ino) sz i p \<le> nr_free_blocks (sbi s)"
  shows "\<exists>s'. ouichefs_light_write env f buff sz pos s = Some (int sz, wp + int sz, s') \<and>
    files_wf s' F \<and> (\<forall>j \<in> F - {ino}. file_content s' j = file_content s j)"
  using light_write_done [OF assms] by blast

theorem light_write_keeps_files_witness:
  "\<exists>s'. ouichefs_light_write demo_env (demo_file 3) (replicate 4100 7) 4100 4 demo_fs = Some (4100, 4104, s') \<and>
     files_wf s' {2, 3} \<and> file_content s' 2 = [104, 101, 108, 108, 111]"
  using light_write_keeps_files [OF demo_files_wf _ demo_insert(3) demo_insert(1) demo_insert(2),
      of 3 4 4100 1 1 "replicate 4100 7"]
  by (simp add: demo_insert [simplified]) auto


text \<open>The demo partition with every buffer written back.\<close>

definition demo_synced :: fs where
  "demo_synced = demo_fs\<lparr>media := bufs demo_fs\<rparr>"

lemma demo_synced_simps [simp]:
  "bufs demo_synced = bufs demo_fs" "media demo_synced = bufs demo_fs" "sbi demo_synced = demo_sb" "inodes demo_synced = inodes demo_fs"
  "load_index demo_synced = load_index demo_fs" "wf_bufs demo_synced = wf_bufs demo_fs"
  "data_entries demo_synced = data_entries demo_fs" "file_content demo_synced = file_content demo_fs"
  "synced demo_synced es"
  by (simp_all add: demo_synced_def data_entries_def file_content_def fun_eq_iff load_index_def wf_bufs_def
      synced_def)

lemma demo_synced_ok:
  "files_wf demo_synced {2, 3}" "disk_ok demo_env demo_synced" "write_pos f pos demo_synced = write_pos f pos demo_fs"
  using demo_files_wf demo_insert(1)
  by (simp_all add: files_wf_def fs_wf_def file_wf_def Let_def file_blocks_def disk_ok_def write_pos_def)




text \<open>
  C9: A write at the end of a block that is exactly full (position 4096 of the block) finds no
  room in the block of the cursor: the call returns \<open>-ENODATA\<close> without writing a byte and without
  advancing the position. The content is unchanged, but the blocks reserved for the data stay in
  the file as empty blocks.
\<close>

theorem light_write_full_block:
  assumes "fs_wf s" "file_wf s ino" "f_inode f = ino" "disk_ok env s"
    and "write_pos f pos s = wp" "0 \<le> wp" "wp \<le> i_size (inodes s ino)" "wp + int sz \<le> 4194304"
    and "located (data_entries s ino) wp i 4096" "length buff = sz" "0 < sz"
    and "length (data_entries s ino) + reserved_blocks (data_entries s ino) sz i 4096 \<le> 1024"
    and "reserved_blocks (data_entries s ino) sz i 4096 \<le> nr_free_blocks (sbi s)"
  shows "\<exists>s'. ouichefs_light_write env f buff sz pos s = Some (- ENODATA, wp, s') \<and>
    file_content s' ino = file_content s ino \<and> file_wf s' ino \<and>
    i_blocks (inodes s' ino) = i_blocks (inodes s ino) + reserved_blocks (data_entries s ino) sz i 4096 \<and>
    0 < reserved_blocks (data_entries s ino) sz i 4096"
proof -
  let ?m = "reserved_blocks (data_entries s ino) sz i 4096" and ?ib = "index_block (inodes s ino)"
  from light_write_insert(3) [OF assms(1-10) assms(12,13) refl assms(11)] obtain s4 ns where
    call: "ouichefs_light_write env f buff sz pos s = Some (- ENODATA, wp, write_back ?ib s4)"
    and g: "grown s ino ?m 0 s4 ns" and c: "fragments (bufs s4) ns = file_content s ino"
    by blast
  have "inodes s4 ino = (inodes s ino)\<lparr>i_blocks := i_blocks (inodes s ino) + ?m\<rparr>"
    using g by (simp add: grown_def Let_def)
  then have I: "index_block (inodes (write_back ?ib s4) ino) = ?ib"
      "i_blocks (inodes (write_back ?ib s4) ino) = i_blocks (inodes s ino) + ?m"
      "i_size (inodes (write_back ?ib s4) ino) = i_size (inodes s ino) + 0" by simp_all
  have "0 < extra_blocks sz 4096"
    using assms(11) extra_blocks_fit(1) [of 4096 sz] assms(6,8) by (cases "extra_blocks sz 4096") auto
  then have "0 < ?m" by (simp add: reserved_blocks_def)
  then show ?thesis
    using call c I grown_file_wf [OF assms(1,2) g _ _ I] by auto
qed

theorem light_write_full_block_witness:
  "\<exists>s'. ouichefs_light_write demo_env (demo_file 2) [1] 1 4096 demo_full = Some (- ENODATA, 4096, s') \<and>
     file_content s' 2 = file_content demo_full 2 \<and> i_blocks (inodes s' 2) = 3"
proof -
  have "disk_ok demo_env demo_full" "write_pos (demo_file 2) 4096 demo_full = 4096"
    by (simp_all add: disk_ok_def demo_env_def write_pos_def demo_file_def O_RDWR_def O_APPEND_def)
  then show ?thesis
    using light_write_full_block [OF demo_full_wf demo_insert(3), of demo_env 4096 4096 1 0 "[1]"]
    by (auto simp: located_def reserved_blocks_def extra_blocks_def idiv_ceil_def)
qed

end
