(* ===== verification/Fill.thy ===== *)
theory Fill
  imports LightWrite
begin

text \<open>
  The write beyond the end of the file (\<open>fill_to_reach_pos\<close>): the gap is filled by raising the
  sizes of the last block and of newly reserved blocks, without clearing their bytes; the user's
  bytes follow.
\<close>

section \<open>The loop that grows the blocks\<close>

lemma fragment_add_size:
  assumes "length (bs (get_block_number e)) = 4096" "0 \<le> k" "get_block_size e + k \<le> 4096"
  shows "\<exists>junk. fragment bs (add_block_size e k) = fragment bs e @ junk \<and> int (length junk) = k"
proof -
  have "nat (get_block_size (add_block_size e k)) = nat (get_block_size e) + nat k"
    using assms by (simp add: nat_add_distrib)
  then have "fragment bs (add_block_size e k) =
      fragment bs e @ take (nat k) (drop (nat (get_block_size e)) (bs (get_block_number e)))"
    unfolding fragment_def by (simp only: block_sub_add take_add)
  moreover have "nat k \<le> 4096 - nat (get_block_size e)" using assms by (simp add: le_diff_conv2 nat_le_iff)
  ultimately show ?thesis using assms by (auto simp: min_absorb2)
qed

lemma fill_loop_spec:
  assumes "W \<noteq> []" "get_block_size (hd W) < 4096" "\<forall>e \<in> set (tl W). get_block_size e = 0"
    and "0 < rem" "rem + get_block_size (hd W) \<le> 4096 * int (length W)"
    and "4096 * (int (length W) - 1) < rem + get_block_size (hd W)" "\<And>b. length (bs b) = 4096"
  shows "\<exists>W' junk. fill_loop (A @ W @ R) (filled + rem) filled (int (length A)) =
      Some (filled + rem, int (length A + length W), A @ W' @ R) \<and>
    map get_block_number W' = map get_block_number W \<and> total_size W' = total_size W + rem \<and>
    get_block_size (last W') = rem + get_block_size (hd W) - 4096 * (int (length W) - 1) \<and>
    fragments bs W' = fragments bs W @ junk \<and> int (length junk) = rem"
  using assms
proof (induction W arbitrary: A filled rem)
  case (Cons e W)
  define k where "k = min rem (4096 - get_block_size e)"
  define e' where "e' = add_block_size e k"
  have k: "0 < k" "get_block_size e + k \<le> 4096" using Cons.prems by (auto simp: k_def)
  then have e': "get_block_size e' = get_block_size e + k" "get_block_number e' = get_block_number e"
    by (simp_all add: e'_def)
  obtain j where j: "fragment bs e' = fragment bs e @ j" "int (length j) = k"
    using fragment_add_size [of bs e k] k Cons.prems(7) by (auto simp: e'_def)
  have step: "fill_loop (A @ (e # W) @ R) (filled + rem) filled (int (length A)) =
      fill_loop ((A @ [e']) @ W @ R) (filled + rem) (filled + k) (int (length (A @ [e'])))"
    using Cons.prems(4) arr_mid [of A e "W @ R"]
    by (subst fill_loop.simps) (simp add: e'_def k_def OUICHEFS_BLOCK_SIZE_def Let_def list_update_append add.commute)
  show ?case
  proof (cases "W = []")
    case True
    then have "k = rem" using Cons.prems by (simp add: k_def)
    then show ?thesis using step True e' j
      by (intro exI [of _ "[e']"] exI [of _ j]) (simp add: fill_loop.simps [of _ "filled + rem" "filled + rem"])
  next
    case False
    then have kk: "k = 4096 - get_block_size e" using Cons.prems by (cases W) (auto simp: k_def)
    have "1 \<le> int (length W)" using False by (cases W) auto
    then have rem: "k < rem" using kk Cons.prems(6) by simp
    have hd0: "get_block_size (hd W) = 0" using False Cons.prems(3) by simp
    have tl0: "\<forall>e \<in> set (tl W). get_block_size e = 0" using False Cons.prems(3) by (cases W) auto
    have fr: "fragments bs W = []"
      using Cons.prems(3) by (auto simp: fragments_def fragment_empty)
    have "\<exists>W' junk. fill_loop ((A @ [e']) @ W @ R) (filled + k + (rem - k)) (filled + k) (int (length (A @ [e']))) =
        Some (filled + k + (rem - k), int (length (A @ [e']) + length W), (A @ [e']) @ W' @ R) \<and>
      map get_block_number W' = map get_block_number W \<and> total_size W' = total_size W + (rem - k) \<and>
      get_block_size (last W') = rem - k + get_block_size (hd W) - 4096 * (int (length W) - 1) \<and>
      fragments bs W' = fragments bs W @ junk \<and> int (length junk) = rem - k"
      using False hd0 tl0 kk Cons.prems(5-7) rem by (intro Cons.IH) (auto simp: algebra_simps)
    then obtain W' junk where W': "fill_loop ((A @ [e']) @ W @ R) (filled + rem) (filled + k) (int (length (A @ [e']))) =
        Some (filled + rem, int (length (A @ [e']) + length W), (A @ [e']) @ W' @ R)"
      "map get_block_number W' = map get_block_number W" "total_size W' = total_size W + (rem - k)"
      "get_block_size (last W') = rem - k + get_block_size (hd W) - 4096 * (int (length W) - 1)"
      "fragments bs W' = fragments bs W @ junk" "int (length junk) = rem - k"
      by auto
    have "W' \<noteq> []" using W'(2) False by auto
    then show ?thesis using step W' e' j fr hd0 kk
      by (intro exI [of _ "e' # W'"] exI [of _ "j @ junk"]) (auto simp: algebra_simps)
  qed
qed simp

section \<open>The file after the gap\<close>

text \<open>What the well-formedness of files depends on.\<close>

lemma files_wf_cong:
  assumes "bufs t = bufs s" "sbi t = sbi s" "inodes t = inodes s"
  shows "data_entries t ino = data_entries s ino" "file_content t ino = file_content s ino"
    "file_blocks t ino = file_blocks s ino" "fs_wf t = fs_wf s" "file_wf t ino = file_wf s ino" "files_wf t F = files_wf s F"
proof -
  have li: "load_index t b = load_index s b" for b using assms(1) by (simp add: load_index_def)
  show de: "data_entries t ino = data_entries s ino" for ino using assms li by (simp add: data_entries_def)
  show "file_content t ino = file_content s ino" using de assms by (simp add: file_content_def)
  show fb: "file_blocks t ino = file_blocks s ino" for ino using de assms by (simp add: file_blocks_def)
  show fs: "fs_wf t = fs_wf s" using assms by (simp add: fs_wf_def wf_bufs_def)
  show fw: "file_wf t ino = file_wf s ino" for ino using assms li de fb by (simp add: file_wf_def Let_def)
  show "files_wf t F = files_wf s F" using fs fw fb by (simp add: files_wf_def)
qed

text \<open>
  The blocks the gap needs: \<open>gap_room\<close> bytes are left in the last block, \<open>gap_blocks\<close> new blocks
  hold the rest.
\<close>

definition gap_room :: "entry list \<Rightarrow> int" where
  "gap_room es = (if es = [] then 0 else 4096 - get_block_size (last es))"

definition gap_blocks :: "entry list \<Rightarrow> int \<Rightarrow> nat" where
  "gap_blocks es n = idiv_ceil (nat (max (n - gap_room es) 0)) 4096"

text \<open>The bytes of the gap in the last block.\<close>

definition gap_end :: "entry list \<Rightarrow> int \<Rightarrow> int" where
  "gap_end es n = n - gap_room es + 4096 - 4096 * int (gap_blocks es n)"

lemma gap_room_bounds: "0 \<le> gap_room es" "gap_room es \<le> 4096"
  using get_block_size_le [of "last es"] by (simp_all add: gap_room_def)

lemma gap_blocks_exact:
  assumes "0 < n" "n \<le> 4194304"
  shows "n \<le> gap_room es + 4096 * int (gap_blocks es n)" "gap_blocks es n \<le> 1024"
    and "gap_room es + 4096 * (int (gap_blocks es n) - 1) < n"
proof -
  let ?r = "nat (max (n - gap_room es) 0)"
  note g = gap_room_bounds [of es]
  have r: "?r < 2 ^ 32" "?r \<le> 1024 * 4096" using assms g by auto
  have "?r \<le> gap_blocks es n * 4096" unfolding gap_blocks_def using r(1) by (rule idiv_ceil_covers) simp
  then show "n \<le> gap_room es + 4096 * int (gap_blocks es n)" by linarith
  show "gap_blocks es n \<le> 1024" unfolding gap_blocks_def using r by (intro idiv_ceil_least) simp_all
  show "gap_room es + 4096 * (int (gap_blocks es n) - 1) < n"
  proof (cases "gap_blocks es n")
    case 0
    then show ?thesis using g assms(1) by simp
  next
    case (Suc k)
    then have "\<not> ?r \<le> k * 4096" using idiv_ceil_least [OF r(1), of 4096 k] by (auto simp: gap_blocks_def)
    then show ?thesis using Suc by simp
  qed
qed

text \<open>The blocks the loop goes over: the last one when it has room, and the reserved ones.\<close>

lemma fill_window:
  assumes "0 < n" "n \<le> 4194304" "\<forall>e \<in> set ys. get_block_size e = 0" "length ys = gap_blocks es n"
  defines "k \<equiv> (if 0 < gap_room es then length es - 1 else length es)"
  defines "X \<equiv> take k es" and "W \<equiv> drop k es @ ys"
  shows "es @ ys = X @ W" "length X = k" "W \<noteq> []" "get_block_size (hd W) < 4096" "\<forall>e \<in> set (tl W). get_block_size e = 0"
    "n + get_block_size (hd W) \<le> 4096 * int (length W)" "4096 * (int (length W) - 1) < n + get_block_size (hd W)"
    "n + get_block_size (hd W) - 4096 * (int (length W) - 1) = gap_end es n"
proof -
  note g = gap_blocks_exact [OF assms(1,2), of es]
  show "es @ ys = X @ W" by (simp add: X_def W_def)
  show "length X = k" by (simp add: X_def k_def)
  have W: "W = (if 0 < gap_room es then last es # ys else ys)"
  proof (cases "0 < gap_room es")
    case True
    then have "es \<noteq> []" by (auto simp: gap_room_def)
    then show ?thesis using True by (cases es rule: rev_cases) (simp_all add: W_def k_def)
  qed (simp add: W_def k_def)
  have "gap_room es = 0 \<Longrightarrow> ys \<noteq> []" using g(1) assms(1,4) by auto
  then have "W \<noteq> [] \<and> get_block_size (hd W) < 4096 \<and> (\<forall>e \<in> set (tl W). get_block_size e = 0) \<and>
      n + get_block_size (hd W) \<le> 4096 * int (length W) \<and> 4096 * (int (length W) - 1) < n + get_block_size (hd W) \<and>
      n + get_block_size (hd W) - 4096 * (int (length W) - 1) = gap_end es n"
    using W g(1,3) assms(3,4) gap_room_bounds [of es]
    by (cases "0 < gap_room es"; cases ys) (auto simp: gap_end_def gap_room_def split: if_splits)
  then show "W \<noteq> []" "get_block_size (hd W) < 4096" "\<forall>e \<in> set (tl W). get_block_size e = 0"
    "n + get_block_size (hd W) \<le> 4096 * int (length W)" "4096 * (int (length W) - 1) < n + get_block_size (hd W)"
    "n + get_block_size (hd W) - 4096 * (int (length W) - 1) = gap_end es n"
    by blast+
qed

text \<open>The state the gap is made in, with the medium of no interest.\<close>

definition on_buffers :: "fs \<Rightarrow> fs" where
  "on_buffers s = s\<lparr>media := bufs s\<rparr>"

lemma on_buffers_simps [simp]:
  "bufs (on_buffers s) = bufs s" "sbi (on_buffers s) = sbi s" "inodes (on_buffers s) = inodes s"
  by (simp_all add: on_buffers_def)

lemmas on_buffers_wf = files_wf_cong [OF on_buffers_simps]

lemma fill_start:
  assumes wf: "fs_wf s" "file_wf s ino" and pos: "i_size (inodes s ino) < pos" "pos \<le> 4194304"
  defines "es \<equiv> data_entries s ino" and "I \<equiv> inodes s ino" and "n \<equiv> pos - i_size (inodes s ino)"
  shows "fill_to_reach_pos (sbi s) I (load_index s (index_block I)) pos =
    (if space_available I (sbi s) (int (gap_blocks es n)) < 0 then Some (- ENOSPC, sbi s, I, load_index s (index_block I), 0, 0)
     else
       do { (_, q, I, idx) \<leftarrow> reserve_empty_blocks (sbi s) I (load_index s (index_block I)) (int (length es)) (int (gap_blocks es n));
            (filled, bli, idx) \<leftarrow> fill_loop idx n 0 (if 0 < gap_room es then int (length es - 1) else int (length es));
            e \<leftarrow> arr idx (bli - 1);
            Some (0, q, I\<lparr>i_size := i_size I + filled\<rparr>, idx,
              if get_block_size e = 4096 then bli else bli - 1, if get_block_size e = 4096 then 0 else get_block_size e) })"
proof -
  note ix = file_index_split [OF wf, folded es_def I_def]
  have sz: "0 \<le> i_size I" using wf by (simp add: file_wf_def Let_def I_def)
  have n: "0 < n" "n \<le> 4194304" "n = pos - i_size I" using pos sz by (auto simp: n_def I_def)
  have ib: "s32 (int (i_blocks I)) = int (length es) + 1" using ix(2-4) by (simp add: s32_id)
  define l where "l = max (int (length es) - 1) 0"
  have "arr (es @ replicate (1024 - length es) 0) l = Some (if es = [] then 0 else last es)"
    using ix(2) by (cases es rule: rev_cases) (auto simp: l_def arr_def nth_append nat_diff_distrib)
  moreover define e where "e = (if es = [] then 0 else last es)"
  moreover have "es \<noteq> [] \<Longrightarrow> last es \<noteq> 0" using ix(5) by (metis last_in_set)
  ultimately have e: "arr (load_index s (index_block I)) l = Some e"
    and e': "(if e = 0 then 0 else 4096 - get_block_size e) = gap_room es"
    using ix(1) by (auto simp: gap_room_def)
  have st: "s32 (int (i_blocks I)) - 2 = int (length es) - 1" "max (s32 (int (i_blocks I)) - 1) 0 = int (length es)"
    using ib by simp_all
  have tf: "s32 (pos - i_size I) = n" using n by (simp add: s32_id)
  have nb: "idiv_ceil (u32 (max (n - gap_room es) 0)) 4096 = gap_blocks es n"
    using n gap_room_bounds [of es] by (simp add: gap_blocks_def u32_id)
  have b: "max (int (length es) - 1) 0 = int (length es - 1)" by simp
  show ?thesis
    unfolding fill_to_reach_pos_def st tf OUICHEFS_BLOCK_SIZE_def l_def [symmetric] e bind.bind_lunit Let_def of_nat_numeral e' nb
    unfolding l_def b
    by (auto intro!: bind_option_cong)
qed

text \<open>
  Raising the sizes of reserved blocks by \<open>n\<close> bytes in all: \<open>ns\<close> names the same blocks as \<open>E\<close>, with the
  larger sizes.
\<close>

lemma grown_sizes:
  assumes wf: "fs_wf s" and I: "I = inodes s ino" and ns: "map get_block_number ns = map get_block_number E"
    "total_size ns = total_size E + n" "length ns \<le> 1024"
    and g: "grown (on_buffers s) ino m 0 (set_inode ino (I\<lparr>i_blocks := i_blocks I + m\<rparr>)
          (store_index (index_block I) (E @ Z) ((on_buffers s)\<lparr>sbi := q\<rparr>))) E"
    and Z: "Z = replicate (1024 - length ns) 0"
  shows "grown (on_buffers s) ino m n (set_inode ino (I\<lparr>i_blocks := i_blocks I + m\<rparr>)
          (store_index (index_block I) (ns @ Z) ((on_buffers s)\<lparr>sbi := q\<rparr>))) ns"
proof -
  let ?s2 = "set_inode ino (I\<lparr>i_blocks := i_blocks I + m\<rparr>) (store_index (index_block I) (E @ Z) ((on_buffers s)\<lparr>sbi := q\<rparr>))"
  let ?s3 = "set_inode ino (I\<lparr>i_blocks := i_blocks I + m\<rparr>) (store_index (index_block I) (ns @ Z) ((on_buffers s)\<lparr>sbi := q\<rparr>))"
  have len: "length E = length ns" using ns(1) by (metis length_map)
  have "distinct (index_block I # map get_block_number E)" using g unfolding grown_def Let_def by (simp only: I on_buffers_simps)
  then have di: "index_block I \<notin> get_block_number ` set ns" unfolding ns(1) [symmetric] by simp
  have "grown (on_buffers s) ino m (0 + n) ?s3 ns"
  proof (rule grown_step [OF g])
    have "wf_bufs ((on_buffers s)\<lparr>sbi := q\<rparr>)" using wf by (simp add: fs_wf_def wf_bufs_def)
    then have "wf_bufs (store_index (index_block I) (ns @ Z) ((on_buffers s)\<lparr>sbi := q\<rparr>))"
      using ns(3) Z by (intro wf_bufs_store_index) simp_all
    then show "wf_bufs ?s3" by (simp add: wf_bufs_def)
    show "synced ?s2 E \<longrightarrow> synced ?s3 ns"
      using di by (auto simp: synced_def fragment_def on_buffers_def image_iff)
  qed (use ns len Z in \<open>auto simp: load_store_index I\<close>)
  then show ?thesis by simp
qed

lemma fill_spec:
  assumes wf: "fs_wf s" "file_wf s ino" and pos: "i_size (inodes s ino) < pos" "pos \<le> 4194304"
  defines "es \<equiv> data_entries s ino" and "I \<equiv> inodes s ino" and "n \<equiv> pos - i_size (inodes s ino)"
  defines "m \<equiv> gap_blocks es n"
  shows "1024 < length es + m \<or> nr_free_blocks (sbi s) < m \<Longrightarrow>
      fill_to_reach_pos (sbi s) I (load_index s (index_block I)) pos =
        Some (- ENOSPC, sbi s, I, load_index s (index_block I), 0, 0)"
    and "\<lbrakk>length es + m \<le> 1024; m \<le> nr_free_blocks (sbi s)\<rbrakk> \<Longrightarrow>
      \<exists>q ns junk. fill_to_reach_pos (sbi s) I (load_index s (index_block I)) pos =
        Some (0, q, I\<lparr>i_blocks := i_blocks I + m, i_size := pos\<rparr>, ns @ replicate (1024 - length ns) 0,
          if get_block_size (last ns) = 4096 then int (length ns) else int (length ns) - 1,
          if get_block_size (last ns) = 4096 then 0 else get_block_size (last ns)) \<and>
        ns \<noteq> [] \<and> get_block_size (last ns) = gap_end es n \<and>
        fragments (bufs s) ns = file_content s ino @ junk \<and> int (length junk) = n \<and>
        grown (on_buffers s) ino m n (set_inode ino (I\<lparr>i_blocks := i_blocks I + m\<rparr>)
          (store_index (index_block I) (ns @ replicate (1024 - length ns) 0) ((on_buffers s)\<lparr>sbi := q\<rparr>))) ns"
proof -
  note ix = file_index_split [OF wf, folded es_def I_def] and st = fill_start [OF wf pos, folded es_def n_def I_def, folded m_def]
  have sz: "0 \<le> i_size I" using wf by (simp add: file_wf_def Let_def I_def)
  have n: "0 < n" "n \<le> 4194304" "i_size I + n = pos" using pos sz by (auto simp: n_def I_def)
  have m: "m < 2 ^ 31" using gap_blocks_exact(2) [OF n(1,2), of es] by (simp add: m_def)
  have ib: "1 \<le> i_blocks I" "i_blocks I \<le> 1025" using ix by auto
  note space = space_available_iff [OF ib m, of "sbi s", folded ix(3)]
  show "fill_to_reach_pos (sbi s) I (load_index s (index_block I)) pos =
        Some (- ENOSPC, sbi s, I, load_index s (index_block I), 0, 0)"
    if "1024 < length es + m \<or> nr_free_blocks (sbi s) < m"
    using that st space(1) by (simp add: add.commute)
  assume fit: "length es + m \<le> 1024" "m \<le> nr_free_blocks (sbi s)"
  let ?Z = "replicate (1024 - length es - m) (0 :: entry)"
  have z: "replicate (1024 - length es) (0 :: entry) = replicate m 0 @ ?Z"
    using fit(1) by (simp add: replicate_add [symmetric])
  have "\<exists>bs q. reserve_empty_blocks (sbi s) I (es @ replicate m 0 @ ?Z) (int (length es)) (int m) =
      Some (0, q, I\<lparr>i_blocks := i_blocks I + m\<rparr>, es @ map fresh_entry bs @ ?Z) \<and>
    length bs = m \<and> distinct bs \<and> set bs \<subseteq> free_blocks (sbi s) \<and> block_map_wf q \<and>
    free_blocks q = free_blocks (sbi s) - set bs \<and> nr_blocks q = nr_blocks (sbi s) \<and>
    blocks_change (sbi s) q"
    using wf(1) fit ib ix(2) by (intro reserve_empty_blocks_spec) (auto simp: fs_wf_def)
  then obtain bs q where rs: "reserve_empty_blocks (sbi s) I (load_index s (index_block I)) (int (length es)) (int m) =
      Some (0, q, I\<lparr>i_blocks := i_blocks I + m\<rparr>, es @ map fresh_entry bs @ ?Z)"
    and bs: "length bs = m" "distinct bs" "set bs \<subseteq> free_blocks (sbi s)"
    and q: "block_map_wf q" "free_blocks q = free_blocks (sbi s) - set bs" "nr_blocks q = nr_blocks (sbi s)"
      "blocks_change (sbi s) q"
    using ix(1) z by auto
  have b19: "\<forall>b \<in> set bs. b < 2 ^ 19" using bs(3) free_blocks_less wf(1) by (fastforce simp: fs_wf_def)
  note fe = fresh_entries [OF b19]
  define k where "k = (if 0 < gap_room es then length es - 1 else length es)"
  define X W where "X = take k es" and "W = drop k es @ map fresh_entry bs"
  have lb: "length (map fresh_entry bs) = gap_blocks es n" using bs(1) by (simp add: m_def)
  note fw = fill_window [OF n(1,2) fe(4) lb, folded k_def, folded X_def W_def]
  have len: "\<And>b. length (bufs s b) = 4096" using wf(1) by (simp add: fs_wf_def wf_bufs_length)
  from fill_loop_spec [where bs = "bufs s" and A = X and R = ?Z and filled = 0, OF fw(3-5) n(1) fw(6,7) len] obtain W' junk where W':
    "fill_loop (X @ W @ ?Z) n 0 (int (length X)) = Some (n, int (length X + length W), X @ W' @ ?Z)"
    "map get_block_number W' = map get_block_number W" "total_size W' = total_size W + n"
    "get_block_size (last W') = n + get_block_size (hd W) - 4096 * (int (length W) - 1)"
    "fragments (bufs s) W' = fragments (bufs s) W @ junk" "int (length junk) = n" by auto
  define ns where "ns = X @ W'"
  have lW: "length W' = length W" using W'(2) by (metis length_map)
  then have "W' \<noteq> []" using fw(3) by auto
  with lW have ns: "ns \<noteq> []" "last ns = last W'" "length ns = length es + m" "length ns = length X + length W"
    using fw(1,3) bs(1) by (auto simp: ns_def dest: arg_cong [of _ _ length])
  have Z: "?Z = replicate (1024 - length ns) 0" using ns(3) by simp
  have la: "arr (ns @ ?Z) (int (length ns) - 1) = Some (last ns)"
    using ns(1) by (cases ns rule: rev_cases) (simp_all add: arr_def nth_append)
  have call: "fill_to_reach_pos (sbi s) I (load_index s (index_block I)) pos =
        Some (0, q, I\<lparr>i_blocks := i_blocks I + m, i_size := pos\<rparr>, ns @ replicate (1024 - length ns) 0,
          if get_block_size (last ns) = 4096 then int (length ns) else int (length ns) - 1,
          if get_block_size (last ns) = 4096 then 0 else get_block_size (last ns))"
  proof -
    have "fill_loop (es @ map fresh_entry bs @ ?Z) n 0 (if 0 < gap_room es then int (length es - 1) else int (length es)) =
        Some (n, int (length ns), ns @ ?Z)"
    proof -
      have "es @ map fresh_entry bs @ ?Z = X @ W @ ?Z" using fw(1) by (metis append_assoc)
      moreover have "(if 0 < gap_room es then int (length es - 1) else int (length es)) = int (length X)"
        using fw(2) by (simp only: k_def split: if_split) simp
      ultimately show ?thesis using W'(1) ns(4) by (simp only: ns_def append_assoc)
    qed
    moreover have "\<not> space_available I (sbi s) (int m) < 0" using space(1) fit by (simp add: add.commute)
    ultimately show ?thesis unfolding Z [symmetric] using st rs la n(3) by simp
  qed
  have owf: "fs_wf (on_buffers s)" "file_wf (on_buffers s) ino" using wf by (simp_all add: on_buffers_wf)
  have g2: "grown (on_buffers s) ino m 0 (set_inode ino (I\<lparr>i_blocks := i_blocks I + m\<rparr>)
      (store_index (index_block I) ((es @ map fresh_entry bs) @ ?Z) ((on_buffers s)\<lparr>sbi := q\<rparr>))) (es @ map fresh_entry bs)"
    using grown_alloc(1) [OF owf, of es "[]" m bs q] fit bs q by (simp add: on_buffers_wf es_def I_def)
  have nums: "map get_block_number ns = map get_block_number (es @ map fresh_entry bs)"
    "total_size ns = total_size (es @ map fresh_entry bs) + n" "length ns \<le> 1024"
    using W'(2,3) fw(1) ns(3) fit(1) by (simp_all add: ns_def)
  have "grown (on_buffers s) ino m n (set_inode ino (I\<lparr>i_blocks := i_blocks I + m\<rparr>)
      (store_index (index_block I) (ns @ replicate (1024 - length ns) 0) ((on_buffers s)\<lparr>sbi := q\<rparr>))) ns"
    using grown_sizes [OF wf(1) I_def [THEN meta_eq_to_obj_eq] nums g2 Z] unfolding Z .
  moreover have "fragments (bufs s) ns = file_content s ino @ junk"
  proof -
    have "fragments (bufs s) (X @ W) = file_content s ino"
      unfolding fw(1) [symmetric] using fe(3) by (simp add: file_content_def es_def)
    then show ?thesis using W'(5) by (simp add: ns_def)
  qed
  moreover have "get_block_size (last ns) = gap_end es n" using W'(4) ns(2) fw(8) by simp
  ultimately show "\<exists>q ns junk. fill_to_reach_pos (sbi s) I (load_index s (index_block I)) pos =
        Some (0, q, I\<lparr>i_blocks := i_blocks I + m, i_size := pos\<rparr>, ns @ replicate (1024 - length ns) 0,
          if get_block_size (last ns) = 4096 then int (length ns) else int (length ns) - 1,
          if get_block_size (last ns) = 4096 then 0 else get_block_size (last ns)) \<and>
        ns \<noteq> [] \<and> get_block_size (last ns) = gap_end es n \<and>
        fragments (bufs s) ns = file_content s ino @ junk \<and> int (length junk) = n \<and>
        grown (on_buffers s) ino m n (set_inode ino (I\<lparr>i_blocks := i_blocks I + m\<rparr>)
          (store_index (index_block I) (ns @ replicate (1024 - length ns) 0) ((on_buffers s)\<lparr>sbi := q\<rparr>))) ns"
    unfolding add_0 using call ns(1) W'(6) by (intro exI [of _ q] exI [of _ ns] exI [of _ junk] conjI)
qed

section \<open>The write behind the gap\<close>

text \<open>What \<open>ouichefs_light_write\<close> does once the position is known.\<close>

definition light_write_rest ::
    "kenv \<Rightarrow> nat \<Rightarrow> byte list \<Rightarrow> nat \<Rightarrow> int \<Rightarrow> int \<Rightarrow> int \<Rightarrow> bool \<Rightarrow> bool \<Rightarrow> int \<Rightarrow> fs \<Rightarrow> (int \<times> int \<times> fs) option" where
  "light_write_rest env ino buff sz pos lbi lp move_old shift_old last_bli s =
     (let ib = index_block (inodes s ino) in
      do { (ret, nb_allocs, s) \<leftarrow> light_write_alloc ino sz lbi lp move_old shift_old last_bli s;
           if ret < 0 then Some (light_write_end env ino sz sz pos ret (write_back ib s))
           else
             do { (ret, s) \<leftarrow> (if move_old then move_old_content_to env ib lbi (lbi + nb_allocs) lp s else Some (ret, s));
                  if ret < 0 then Some (light_write_end env ino sz sz pos ret (write_back ib s))
                  else
                    do { (ret, remaining, s) \<leftarrow>
                           light_write_loop env ib (s32 (int (i_blocks (inodes s ino)) - 1)) sz buff s sz lbi lp;
                         Some (light_write_end env ino sz remaining pos ret (write_back ib s)) } } })"

lemma light_write_alloc_no_shift:
  "light_write_alloc ino sz lbi lp mv False l s = light_write_alloc ino sz lbi lp mv False l' s"
  by (simp only: light_write_alloc_def simp_thms if_False)

text \<open>Inside the file the rest is the whole of the call.\<close>

lemma light_write_rest_inside:
  assumes "fs_wf s" "file_wf s ino" "f_inode f = ino" "bread_ok env (index_block (inodes s ino))"
    and "write_pos f pos s = wp" "0 \<le> wp" "wp \<le> i_size (inodes s ino)" "wp + int sz \<le> 4194304"
    and "located (data_entries s ino) wp i p"
  defines "es \<equiv> data_entries s ino"
  shows "ouichefs_light_write env f buff sz pos s =
    light_write_rest env ino buff sz wp (int i) p (i < length es \<and> p < get_block_size (es ! i))
      (int i \<noteq> max (int (length es) - 1) 0) (max (int (length es) - 1) 0) s"
  unfolding light_write_rest_def Let_def es_def by (rule light_write_unfold [OF assms(1-9)])

text \<open>Appending a new block to a file whose last block is full.\<close>

lemma append_alloc:
  assumes wf: "fs_wf s" "file_wf s ino" and sz: "sz \<le> 4194304"
  defines "es \<equiv> data_entries s ino" and "I \<equiv> inodes s ino" and "m \<equiv> Suc (extra_blocks sz 0)"
  assumes n: "length es < 1024"
  shows "1024 < length es + m \<or> nr_free_blocks (sbi s) < m \<Longrightarrow>
      light_write_alloc ino sz (int (length es)) 0 False False 0 s = Some (- ENOSPC, int m, s)"
    and "\<lbrakk>length es + m \<le> 1024; m \<le> nr_free_blocks (sbi s)\<rbrakk> \<Longrightarrow>
      \<exists>s2 bs. light_write_alloc ino sz (int (length es)) 0 False False 0 s = Some (0, int m, s2) \<and>
        length bs = m \<and> grown s ino m 0 s2 (es @ map fresh_entry bs) \<and> (\<forall>b \<in> set bs. b < 2 ^ 19) \<and>
        (\<forall>b. b \<noteq> index_block I \<longrightarrow> bufs s2 b = bufs s b)"
proof -
  note ix = file_index_split [OF wf, folded es_def I_def]
  let ?idx = "es @ replicate (1024 - length es) 0"
  have e: "arr ?idx (int (length es)) = Some 0" using n by (simp add: arr_int nth_append)
  have s32: "s32 (int sz) = int sz" using sz by (simp add: s32_id)
  have kk: "idiv_ceil (u32 (max (int sz - (int OUICHEFS_BLOCK_SIZE - 0)) 0)) OUICHEFS_BLOCK_SIZE = extra_blocks sz 0"
    using sz by (simp add: extra_blocks_def OUICHEFS_BLOCK_SIZE_def u32_id)
  have m: "m < 2 ^ 31" "int (extra_blocks sz 0) + 1 = int m"
    using extra_blocks_fit(2) [of 0 sz] sz by (simp_all add: m_def)
  have ib: "1 \<le> i_blocks I" "i_blocks I \<le> 1025" using ix by auto
  note space = space_available_iff [OF ib m(1), of "sbi s", folded ix(3)]
  have call: "light_write_alloc ino sz (int (length es)) 0 False False 0 s =
    (if space_available I (sbi s) (int m) < 0 then Some (- ENOSPC, int m, s)
     else do { (_, q, I', idx) \<leftarrow> reserve_empty_blocks (sbi s) I ?idx (int (length es)) (int m);
               Some (0, int m, set_inode ino I' (store_index (index_block I) idx (s\<lparr>sbi := q\<rparr>))) })"
    unfolding light_write_alloc_def Let_def I_def [symmetric] ix(1) e bind.bind_lunit s32 kk using m(2) by simp
  show "1024 < length es + m \<or> nr_free_blocks (sbi s) < m \<Longrightarrow>
      light_write_alloc ino sz (int (length es)) 0 False False 0 s = Some (- ENOSPC, int m, s)"
    using call space(1) by (simp add: add.commute)
  assume fit: "length es + m \<le> 1024" "m \<le> nr_free_blocks (sbi s)"
  let ?Z = "replicate (1024 - length es - m) (0 :: entry)"
  have z: "replicate (1024 - length es) (0 :: entry) = replicate m 0 @ ?Z"
    using fit(1) by (simp add: replicate_add [symmetric])
  have "\<exists>bs q. reserve_empty_blocks (sbi s) I (es @ replicate m 0 @ ?Z) (int (length es)) (int m) =
      Some (0, q, I\<lparr>i_blocks := i_blocks I + m\<rparr>, es @ map fresh_entry bs @ ?Z) \<and>
    length bs = m \<and> distinct bs \<and> set bs \<subseteq> free_blocks (sbi s) \<and> block_map_wf q \<and>
    free_blocks q = free_blocks (sbi s) - set bs \<and> nr_blocks q = nr_blocks (sbi s) \<and>
    blocks_change (sbi s) q"
    using wf(1) fit ib ix(2) by (intro reserve_empty_blocks_spec) (auto simp: fs_wf_def)
  then obtain bs q where rs: "reserve_empty_blocks (sbi s) I ?idx (int (length es)) (int m) =
      Some (0, q, I\<lparr>i_blocks := i_blocks I + m\<rparr>, es @ map fresh_entry bs @ ?Z)"
    and bs: "length bs = m" "distinct bs" "set bs \<subseteq> free_blocks (sbi s)"
    and q: "block_map_wf q" "free_blocks q = free_blocks (sbi s) - set bs" "nr_blocks q = nr_blocks (sbi s)"
      "blocks_change (sbi s) q"
    using z by auto
  note ga = grown_alloc [OF wf, folded es_def I_def, of es "[]", OF _ fit(1) bs q]
  have "\<forall>b \<in> set bs. b < 2 ^ 19" using bs(3) free_blocks_less wf(1) by (fastforce simp: fs_wf_def)
  then show "\<exists>s2 bs. light_write_alloc ino sz (int (length es)) 0 False False 0 s = Some (0, int m, s2) \<and>
        length bs = m \<and> grown s ino m 0 s2 (es @ map fresh_entry bs) \<and> (\<forall>b \<in> set bs. b < 2 ^ 19) \<and>
        (\<forall>b. b \<noteq> index_block I \<longrightarrow> bufs s2 b = bufs s b)"
    using call space(1) fit rs ga bs(1) by (auto simp: add.commute)
qed

lemma append_write:
  fixes pos :: int
  assumes wf: "fs_wf s" "file_wf s ino" and ok: "disk_ok env s" and sz: "sz \<le> 4194304" and buff: "length buff = sz"
  defines "es \<equiv> data_entries s ino" and "ib \<equiv> index_block (inodes s ino)" and "m \<equiv> Suc (extra_blocks sz 0)"
  defines "call \<equiv> light_write_rest env ino buff sz pos (int (length es)) 0 False False 0 s"
  assumes n: "length es < 1024"
  shows "1024 < length es + m \<or> nr_free_blocks (sbi s) < m \<Longrightarrow> call = Some (- ENOSPC, pos, write_back ib s)"
    and "\<lbrakk>length es + m \<le> 1024; m \<le> nr_free_blocks (sbi s)\<rbrakk> \<Longrightarrow>
      \<exists>s4 ns. call = Some (light_write_end env ino sz 0 pos 0 (write_back ib s4)) \<and>
        grown s ino m (int sz) s4 ns \<and> fragments (bufs s4) ns = file_content s ino @ buff"
proof -
  note aa = append_alloc [OF wf sz n [unfolded es_def], folded es_def m_def]
  show "1024 < length es + m \<or> nr_free_blocks (sbi s) < m \<Longrightarrow> call = Some (- ENOSPC, pos, write_back ib s)"
    using aa(1) by (simp add: call_def light_write_rest_def ib_def light_write_end_def ENOSPC_def)
  assume "length es + m \<le> 1024" "m \<le> nr_free_blocks (sbi s)"
  from aa(2) [OF this] obtain s2 bs where al:
    "light_write_alloc ino sz (int (length es)) 0 False False 0 s = Some (0, int m, s2)"
    "length bs = m" "grown s ino m 0 s2 (es @ map fresh_entry bs)" "\<forall>b \<in> set bs. b < 2 ^ 19"
    "\<And>b. b \<noteq> ib \<Longrightarrow> bufs s2 b = bufs s b" by (auto simp: ib_def)
  note fe = fresh_entries [OF al(4)]
  have ib: "ib \<notin> get_block_number ` set es" using file_index_split(6) [OF wf] by (simp add: es_def ib_def)
  define p where "p = i_size (inodes s ino)"
  have l: "nat p = length (file_content s ino)" using file_content_length [OF wf] by (simp add: p_def)
  have "fragments (bufs s2) es = file_content s ino"
    using fragments_agree [of ib "bufs s2" "bufs s", OF al(5) ib] by (simp add: file_content_def es_def)
  moreover have tl0: "\<forall>e \<in> set (tl (map fresh_entry bs)). get_block_size e = 0" using fe(4) by (cases bs) auto
  ultimately have op: "opened s ino p m s2 es (map fresh_entry bs) []"
    using al(3) fe(3,4) l tl0 by (simp add: opened_def)
  have W: "map fresh_entry bs \<noteq> []" "get_block_size (hd (map fresh_entry bs)) = int 0"
    using al(2) fe(4) by (auto simp: m_def neq_Nil_conv length_Suc_conv)
  have "sz + 0 \<le> 4096 * length (map fresh_entry bs)"
    using extra_blocks_fit(1) [of 0 sz] sz al(2) by (simp add: m_def)
  from opened_loop [OF op wf ok W _ this buff, folded ib_def] obtain s4 ns where L:
    "light_write_loop env ib (int (length es + length bs)) sz buff s2 sz (int (length es)) 0 = Some (0, 0, s4)"
    "grown s ino m (int sz) s4 ns" "fragments (bufs s4) ns = file_content s ino @ buff"
    using l by auto
  have "s32 (int (i_blocks (inodes s2 ino)) - 1) = int (length es + length bs)"
    using grown_i_blocks [OF wf al(3)] by simp
  then have "call = Some (light_write_end env ino sz 0 pos 0 (write_back ib s4))"
    using al(1) L(1) by (simp add: call_def light_write_rest_def ib_def)
  then show "\<exists>s4 ns. call = Some (light_write_end env ino sz 0 pos 0 (write_back ib s4)) \<and>
        grown s ino m (int sz) s4 ns \<and> fragments (bufs s4) ns = file_content s ino @ buff"
    using L by blast
qed

lemma gap_end_bounds:
  "\<lbrakk>0 < n; n \<le> 4194304\<rbrakk> \<Longrightarrow> 0 < gap_end es n \<and> gap_end es n \<le> 4096"
  using gap_blocks_exact [of n es] by (simp add: gap_end_def)

lemma grown_free:
  assumes wf: "fs_wf s" "file_wf s ino" and g: "grown s ino m k s2 ns"
  shows "nr_free_blocks (sbi s2) + m = nr_free_blocks (sbi s)" "nr_blocks (sbi s2) = nr_blocks (sbi s)"
proof -
  let ?es = "data_entries s ino" and ?D = "free_blocks (sbi s) - free_blocks (sbi s2)"
  note gg = g [unfolded grown_def Let_def]
  have fin: "finite (free_blocks (sbi s))" by (rule finite_subset [of _ "{..<nr_blocks (sbi s)}"]) (auto dest: free_blocks_less)
  have "card (get_block_number ` set ns) = length ns" "card (get_block_number ` set ?es) = length ?es"
    using gg file_index_split(6) [OF wf] by (metis distinct.simps(2) distinct_card length_map list.set_map)+
  moreover have "get_block_number ` set ?es \<inter> ?D = {}"
    using data_entries_allocated [OF wf(2)] by (auto simp: allocated_def)
  then have "card (get_block_number ` set ns) = card (get_block_number ` set ?es) + card ?D"
    using gg fin by (simp add: card_Un_disjoint)
  ultimately have "card ?D = m" using gg by simp
  then show "nr_free_blocks (sbi s2) + m = nr_free_blocks (sbi s)"
    using gg wf(1) fin card_Diff_subset [of "free_blocks (sbi s2)" "free_blocks (sbi s)"]
      card_mono [OF fin, of "free_blocks (sbi s2)"] finite_subset [of "free_blocks (sbi s2)", OF _ fin]
    by (auto simp: fs_wf_def block_map_wf_def)
  show "nr_blocks (sbi s2) = nr_blocks (sbi s)"
    using gg by (blast intro: blocks_change_nr_blocks)
qed

lemma store_load_index: "wf_bufs s \<Longrightarrow> store_index ib (load_index s ib) (s :: fs) = s"
  using index_view.encode_decode [of "bufs s ib"]
  by (simp add: store_index_def load_index_def set_buf_def wf_bufs_length)

text \<open>The file with the gap, and the call on it.\<close>

definition gapped :: "fs \<Rightarrow> nat \<Rightarrow> nat set \<Rightarrow> int \<Rightarrow> fs \<Rightarrow> byte list \<Rightarrow> bool" where
  "gapped s ino F n s1 junk \<longleftrightarrow>
     (let es = data_entries s ino; ns = data_entries s1 ino in
      files_wf s1 F \<and> file_content s1 ino = file_content s ino @ junk \<and> int (length junk) = n \<and>
      (\<forall>j \<in> F - {ino}. file_content s1 j = file_content s j) \<and>
      i_size (inodes s1 ino) = i_size (inodes s ino) + n \<and> index_block (inodes s1 ino) = index_block (inodes s ino) \<and>
      ns \<noteq> [] \<and> get_block_size (last ns) = gap_end es n \<and> length ns = length es + gap_blocks es n \<and>
      nr_free_blocks (sbi s1) + gap_blocks es n = nr_free_blocks (sbi s) \<and> nr_blocks (sbi s1) = nr_blocks (sbi s) \<and> file_frame s ino s1)"

lemma beyond_unfold:
  assumes fw: "files_wf s F" "ino \<in> F" and ino: "f_inode f = ino" and ok: "disk_ok env s"
    and wp: "write_pos f pos s = wp" "i_size (inodes s ino) < wp" "wp + int sz \<le> 4194304"
  defines "es \<equiv> data_entries s ino" and "n \<equiv> wp - i_size (inodes s ino)"
  shows "1024 < length es + gap_blocks es n \<or> nr_free_blocks (sbi s) < gap_blocks es n \<Longrightarrow>
      ouichefs_light_write env f buff sz pos s = Some (- ENOSPC, wp, write_back (index_block (inodes s ino)) s)"
    and "\<lbrakk>length es + gap_blocks es n \<le> 1024; gap_blocks es n \<le> nr_free_blocks (sbi s)\<rbrakk> \<Longrightarrow>
      \<exists>s1 junk. gapped s ino F n s1 junk \<and>
        ouichefs_light_write env f buff sz pos s =
          (let l = int (length (data_entries s1 ino)) in
           light_write_rest env ino buff sz wp (if gap_end es n = 4096 then l else l - 1)
             (if gap_end es n = 4096 then 0 else gap_end es n) False False 0 s1)"
proof -
  define I ib where "I = inodes s ino" and "ib = index_block (inodes s ino)"
  have wf: "fs_wf s" "file_wf s ino" using fw by (auto simp: files_wf_def)
  have sz0: "0 \<le> i_size I" using wf by (simp add: file_wf_def Let_def I_def)
  have ibok: "bread_ok env ib"
    using wf(2) ok by (auto simp: file_wf_def Let_def file_blocks_def allocated_def disk_ok_def ib_def)
  have "u64 (wp + int sz) = nat (wp + int sz)" using wp sz0 by (intro u64_id) (auto simp: I_def)
  then have max: "\<not> OUICHEFS_MAX_FILESIZE < u64 (wp + int sz)" using wp by (simp add: OUICHEFS_MAX_FILESIZE_def)
  have pos: "i_size (inodes s ino) < wp" "wp \<le> 4194304" using wp by auto
  note fs = fill_spec [OF wf pos, folded es_def n_def I_def]
  have call: "ouichefs_light_write env f buff sz pos s =
     (let s1 = set_inode ino I' (store_index ib idx (s\<lparr>sbi := q\<rparr>)) in
      if r < 0 then Some (light_write_end env ino sz sz wp r (write_back ib s1))
      else light_write_rest env ino buff sz wp lbi lp False False 0 s1)"
    if "fill_to_reach_pos (sbi s) I (load_index s ib) wp = Some (r, q, I', idx, lbi, lp)" "index_block I' = ib" for r q I' idx lbi lp
    using write_flags_eq [of f pos s] ino wp(1,2) max ibok that
    unfolding ouichefs_light_write_def light_write_place_def light_write_rest_def Let_def I_def ib_def
    by (simp cong: if_cong)
  show "ouichefs_light_write env f buff sz pos s = Some (- ENOSPC, wp, write_back (index_block (inodes s ino)) s)"
    if "1024 < length es + gap_blocks es n \<or> nr_free_blocks (sbi s) < gap_blocks es n"
    using fs(1) [OF that] call wf(1) store_load_index [of s ib]
    by (simp add: I_def ib_def light_write_end_def ENOSPC_def fs_wf_def set_inode_def)
  assume "length es + gap_blocks es n \<le> 1024" "gap_blocks es n \<le> nr_free_blocks (sbi s)"
  from fs(2) [OF this] obtain q ns junk where F: "fill_to_reach_pos (sbi s) I (load_index s (index_block I)) wp =
      Some (0, q, I\<lparr>i_blocks := i_blocks I + gap_blocks es n, i_size := wp\<rparr>, ns @ replicate (1024 - length ns) 0,
          if get_block_size (last ns) = 4096 then int (length ns) else int (length ns) - 1,
          if get_block_size (last ns) = 4096 then 0 else get_block_size (last ns))"
    "ns \<noteq> []" "get_block_size (last ns) = gap_end es n"
    "fragments (bufs s) ns = file_content s ino @ junk" "int (length junk) = n"
    and g: "grown (on_buffers s) ino (gap_blocks es n) n (set_inode ino (I\<lparr>i_blocks := i_blocks I + gap_blocks es n\<rparr>)
          (store_index (index_block I) (ns @ replicate (1024 - length ns) 0) ((on_buffers s)\<lparr>sbi := q\<rparr>))) ns"
    by blast
  define s2 where "s2 = set_inode ino (I\<lparr>i_blocks := i_blocks I + gap_blocks es n\<rparr>)
          (store_index (index_block I) (ns @ replicate (1024 - length ns) 0) ((on_buffers s)\<lparr>sbi := q\<rparr>))"
  define s1 where "s1 = set_inode ino (I\<lparr>i_blocks := i_blocks I + gap_blocks es n, i_size := wp\<rparr>)
          (store_index ib (ns @ replicate (1024 - length ns) 0) (s\<lparr>sbi := q\<rparr>))"
  have b12: "bufs s1 = bufs s2" by (simp add: s1_def s2_def ib_def I_def store_index_def)
  have s1: "sbi s1 = sbi s2" "\<And>j. j \<noteq> ino \<Longrightarrow> inodes s1 j = inodes s2 j"
      "index_block (inodes s1 ino) = index_block (inodes (on_buffers s) ino)"
      "i_blocks (inodes s1 ino) = i_blocks (inodes (on_buffers s) ino) + gap_blocks es n"
      "i_size (inodes s1 ino) = i_size (inodes (on_buffers s) ino) + n"
      "i_mode (inodes s1 ino) = i_mode (inodes (on_buffers s) ino)"
    by (simp_all add: s1_def s2_def I_def n_def)
  have owf: "fs_wf (on_buffers s)" "file_wf (on_buffers s) ino" "files_wf (on_buffers s) F"
    using wf fw by (simp_all add: on_buffers_wf)
  note g = g [folded s2_def]
  note gw = grown_file_wf [OF owf(1,2) g b12 s1(1,3-5)] and go = grown_others [OF owf(3) fw(2) g b12 s1(1-5)]
    and gf = grown_free [OF owf(1,2) g] and gr = file_frame_trans [OF file_frame_cong grown_frame [OF owf(1,2) g b12 s1]]
  have "fragments (bufs s2) ns = fragments (bufs s) ns"
  proof (rule fragments_agree [of ib])
    show "bufs s2 b = bufs s b" if "b \<noteq> ib" for b using that by (simp add: s2_def ib_def I_def)
    have "distinct (ib # map get_block_number ns)" using g unfolding grown_def Let_def ib_def on_buffers_simps by blast
    then show "ib \<notin> get_block_number ` set ns" by simp
  qed
  moreover have "length ns = length es + gap_blocks es n" using g by (simp add: grown_def Let_def es_def on_buffers_wf)
  ultimately have "gapped s ino F n s1 junk"
    using F gw go gf gr s1(1,3,5) by (auto simp: gapped_def Let_def es_def on_buffers_wf)
  moreover have "ouichefs_light_write env f buff sz pos s =
          light_write_rest env ino buff sz wp (if gap_end es n = 4096 then int (length ns) else int (length ns) - 1)
             (if gap_end es n = 4096 then 0 else gap_end es n) False False 0 s1"
    using call [of 0] F(1,3) by (simp add: s1_def ib_def I_def)
  ultimately show "\<exists>s1 junk. gapped s ino F n s1 junk \<and>
        ouichefs_light_write env f buff sz pos s =
          (let l = int (length (data_entries s1 ino)) in
           light_write_rest env ino buff sz wp (if gap_end es n = 4096 then l else l - 1)
             (if gap_end es n = 4096 then 0 else gap_end es n) False False 0 s1)"
    using gw(3) unfolding Let_def by blast
qed

text \<open>
  The write itself, at the end of the gap: \<open>gap_write_blocks\<close> more blocks are needed, one of them for
  the cursor's own block when the gap ends with a full block.
\<close>

definition gap_write_blocks :: "entry list \<Rightarrow> int \<Rightarrow> nat \<Rightarrow> nat" where
  "gap_write_blocks es n sz =
     (if gap_end es n = 4096 then Suc (extra_blocks sz 0) else extra_blocks sz (gap_end es n))"

lemma gapped_write:
  assumes fw: "ino \<in> F" and ok: "disk_ok env s1" and sz: "wp + int sz \<le> 4194304" and wp: "0 \<le> wp" and buff: "length buff = sz"
    and gap: "gapped s ino F n s1 junk" and n: "0 < n" "n \<le> 4194304" "i_size (inodes s1 ino) = wp"
  defines "es \<equiv> data_entries s ino" and "ns \<equiv> data_entries s1 ino"
  defines "m \<equiv> gap_write_blocks es n sz" and "ib \<equiv> index_block (inodes s1 ino)"
  defines "l \<equiv> int (length ns)"
  defines "call \<equiv> light_write_rest env ino buff sz wp (if gap_end es n = 4096 then l else l - 1)
             (if gap_end es n = 4096 then 0 else gap_end es n) False False 0 s1"
  shows "\<lbrakk>1024 < length ns + m \<or> nr_free_blocks (sbi s1) < m; gap_end es n = 4096 \<longrightarrow> length ns < 1024\<rbrakk> \<Longrightarrow>
      call = Some (- ENOSPC, wp, write_back ib s1)"
    and "\<lbrakk>length ns + m \<le> 1024; m \<le> nr_free_blocks (sbi s1)\<rbrakk> \<Longrightarrow>
      \<exists>s4 ns'. call = Some (light_write_end env ino sz 0 wp 0 (write_back ib s4)) \<and>
        grown s1 ino m (int sz) s4 ns' \<and> fragments (bufs s4) ns' = file_content s1 ino @ buff"
    and "\<lbrakk>gap_end es n = 4096; length ns = 1024\<rbrakk> \<Longrightarrow> call = None"
proof -
  have wf: "fs_wf s1" "file_wf s1 ino" using gap fw by (auto simp: gapped_def Let_def files_wf_def)
  have ns: "ns \<noteq> []" "get_block_size (last ns) = gap_end es n" using gap by (auto simp: gapped_def Let_def ns_def es_def)
  have szb: "sz \<le> 4194304" using sz wp by linarith
  note ge = gap_end_bounds [OF n(1,2), of es]
  have ibok: "bread_ok env ib"
    using wf(2) ok by (auto simp: file_wf_def Let_def file_blocks_def allocated_def disk_ok_def ib_def)
  have len: "nat wp = length (file_content s1 ino)" using file_content_length [OF wf] n(3) by simp
  have full: "call = light_write_rest env ino buff sz wp (int (length ns)) 0 False False 0 s1" "m = Suc (extra_blocks sz 0)"
    if "gap_end es n = 4096" using that by (simp_all add: call_def l_def m_def gap_write_blocks_def)
  define f where "f = \<lparr>f_flags = 0, f_inode = ino\<rparr>"
  have f: "f_inode f = ino" "write_pos f wp s1 = wp" by (simp_all add: f_def write_pos_def)
  define i where "i = length ns - 1"
  have i: "i < length ns" "int i = int (length ns) - 1" "ns ! i = last ns" "take i ns = butlast ns"
    using ns(1) by (auto simp: i_def last_conv_nth butlast_conv_take of_nat_diff Suc_leI)
  have part: "call = ouichefs_light_write env f buff sz wp s1" "reserved_blocks ns sz i (gap_end es n) = m"
      "located ns wp i (gap_end es n)" if "gap_end es n \<noteq> 4096"
  proof -
    have tot: "total_size ns = wp" using wf(2) n(3) by (simp add: file_wf_def Let_def ns_def)
    have "total_size ns = total_size (butlast ns) + get_block_size (last ns)"
      using ns(1) by (metis append_butlast_last_id total_size_simps add.right_neutral)
    moreover from this have "0 < wp" using ns(2) ge tot total_size_nonneg [of "butlast ns"] by linarith
    ultimately show loc: "located ns wp i (gap_end es n)"
      using i ns(2) ge tot by (auto simp: located_def)
    have mx: "max (int (length ns) - 1) 0 = int i" using i(2) by simp
    have "ouichefs_light_write env f buff sz wp s1 =
        light_write_rest env ino buff sz wp (int i) (gap_end es n) False False (max (int (length ns) - 1) 0) s1"
      using light_write_rest_inside [OF wf f(1) ibok [unfolded ib_def] f(2) wp _ sz loc [unfolded ns_def], folded ns_def, of buff] n(3) i(1,3) ns(2) mx
      by simp
    also have "\<dots> = light_write_rest env ino buff sz wp (int i) (gap_end es n) False False 0 s1"
      by (simp only: light_write_rest_def light_write_alloc_no_shift [of ino sz "int i" "gap_end es n" False "max (int (length ns) - 1) 0" s1 0])
    finally show "call = ouichefs_light_write env f buff sz wp s1" using that i(2) by (simp add: call_def l_def)
    show "reserved_blocks ns sz i (gap_end es n) = m"
      using that i ns by (simp add: reserved_blocks_def m_def gap_write_blocks_def)
  qed
  note ins = light_write_insert [OF wf f(1) ok f(2) wp _ sz _ buff, folded ns_def ib_def]
  note app = append_write [OF wf ok szb buff, folded ns_def ib_def]
  show "call = Some (- ENOSPC, wp, write_back ib s1)"
    if "1024 < length ns + m \<or> nr_free_blocks (sbi s1) < m" "gap_end es n = 4096 \<longrightarrow> length ns < 1024"
    using that full app(1) part ins(1) n(3) by (cases "gap_end es n = 4096") auto
  show "\<exists>s4 ns'. call = Some (light_write_end env ino sz 0 wp 0 (write_back ib s4)) \<and>
        grown s1 ino m (int sz) s4 ns' \<and> fragments (bufs s4) ns' = file_content s1 ino @ buff"
    if fit: "length ns + m \<le> 1024" "m \<le> nr_free_blocks (sbi s1)"
  proof (cases "gap_end es n = 4096")
    case True
    then have "length ns < 1024" using fit(1) full(2) by simp
    from app(2) [OF this] show ?thesis using fit full True by simp
  next
    case False
    then have "gap_end es n < 4096 \<or> sz = 0" using ge by auto
    then show ?thesis using ins(2) [OF _ part(3), OF _ False] part(1,2) [OF False] fit n(3) len by simp
  qed
  show "call = None" if "gap_end es n = 4096" "length ns = 1024"
    using that full(1) wf(1) by (simp add: light_write_rest_def light_write_alloc_def arr_def file_wf_index(2) [OF wf])
qed

lemma light_write_end_facts:
  assumes "snd (snd (light_write_end env ino sz 0 wp 0 (write_back ib s4))) = s'"
  shows "bufs s' = bufs s4" "sbi s' = sbi s4" "\<And>j. j \<noteq> ino \<Longrightarrow> inodes s' j = inodes s4 j"
    "index_block (inodes s' ino) = index_block (inodes s4 ino)" "i_blocks (inodes s' ino) = i_blocks (inodes s4 ino)"
    "i_size (inodes s' ino) = i_size (inodes s4 ino) + int sz"
    "light_write_end env ino sz 0 wp 0 (write_back ib s4) = (int sz, wp + int sz, s')"
    "i_mode (inodes s' ino) = i_mode (inodes s4 ino)"
  unfolding assms [symmetric] by (simp_all add: light_write_end_done)

lemma gapped_after:
  assumes "gapped s ino F n s1 junk" "ino \<in> F" "grown s1 ino m (int sz) s4 ns'"
    and "fragments (bufs s4) ns' = file_content s1 ino @ buff"
    and "snd (snd (light_write_end env ino sz 0 wp 0 (write_back ib s4))) = s'"
  shows "file_content s' ino = file_content s ino @ junk @ buff" "files_wf s' F"
    "\<forall>j \<in> F - {ino}. file_content s' j = file_content s j"
    "i_size (inodes s' ino) = i_size (inodes s ino) + n + int sz" "file_frame s ino s'"
proof -
  have fw: "files_wf s1 F" and wf: "fs_wf s1" "file_wf s1 ino"
    using assms(1,2) by (auto simp: gapped_def Let_def files_wf_def)
  note e = light_write_end_facts [OF assms(5)]
  have i4: "inodes s4 = (inodes s1)(ino := (inodes s1 ino)\<lparr>i_blocks := i_blocks (inodes s1 ino) + m\<rparr>)"
    using assms(3) by (simp add: grown_def Let_def)
  have I: "index_block (inodes s' ino) = index_block (inodes s1 ino)"
      "i_blocks (inodes s' ino) = i_blocks (inodes s1 ino) + m" "i_size (inodes s' ino) = i_size (inodes s1 ino) + int sz"
      "i_mode (inodes s' ino) = i_mode (inodes s1 ino)"
    using e(4-6,8) i4 by simp_all
  note gw = grown_file_wf [OF wf assms(3) e(1,2) I(1-3)] and go = grown_others [OF fw assms(2,3) e(1-3) I(1-3)]
    and gf = grown_frame [OF wf assms(3) e(1-3) I]
  show "file_content s' ino = file_content s ino @ junk @ buff" "files_wf s' F"
    "\<forall>j \<in> F - {ino}. file_content s' j = file_content s j"
    "i_size (inodes s' ino) = i_size (inodes s ino) + n + int sz" "file_frame s ino s'"
    using gw go assms(1,4) I(3) file_frame_trans [OF _ gf] by (auto simp: gapped_def Let_def)
qed

lemma light_write_beyond:
  assumes fw: "files_wf s F" "ino \<in> F" and ino: "f_inode f = ino" and ok: "disk_ok env s"
    and wp: "write_pos f pos s = wp" "i_size (inodes s ino) < wp" "wp + int sz \<le> 4194304" and buff: "length buff = sz"
  defines "es \<equiv> data_entries s ino" and "n \<equiv> wp - i_size (inodes s ino)"
  assumes gap: "length es + gap_blocks es n \<le> 1024" "gap_blocks es n \<le> nr_free_blocks (sbi s)"
  defines "m \<equiv> gap_blocks es n + gap_write_blocks es n sz"
  shows "\<lbrakk>length es + m \<le> 1024; m \<le> nr_free_blocks (sbi s)\<rbrakk> \<Longrightarrow>
      \<exists>s' junk. ouichefs_light_write env f buff sz pos s = Some (int sz, wp + int sz, s') \<and>
        file_content s' ino = file_content s ino @ junk @ buff \<and> int (length junk) = n \<and>
        i_size (inodes s' ino) = wp + int sz \<and> files_wf s' F \<and> (\<forall>j \<in> F - {ino}. file_content s' j = file_content s j) \<and> file_frame s ino s'"
    and "\<lbrakk>1024 < length es + m \<or> nr_free_blocks (sbi s) < m; gap_end es n = 4096 \<longrightarrow> length es + gap_blocks es n < 1024\<rbrakk> \<Longrightarrow>
      \<exists>s' junk. ouichefs_light_write env f buff sz pos s = Some (- ENOSPC, wp, s') \<and>
        file_content s' ino = file_content s ino @ junk \<and> int (length junk) = n \<and>
        i_size (inodes s' ino) = wp \<and> files_wf s' F \<and> (\<forall>j \<in> F - {ino}. file_content s' j = file_content s j) \<and> file_frame s ino s'"
    and "\<lbrakk>gap_end es n = 4096; length es + gap_blocks es n = 1024\<rbrakk> \<Longrightarrow> ouichefs_light_write env f buff sz pos s = None"
proof -
  have wf: "fs_wf s" "file_wf s ino" using fw by (auto simp: files_wf_def)
  from beyond_unfold(2) [OF fw ino ok wp, folded es_def n_def, OF gap] obtain s1 junk where g: "gapped s ino F n s1 junk"
    and call: "ouichefs_light_write env f buff sz pos s =
      light_write_rest env ino buff sz wp (if gap_end es n = 4096 then int (length (data_entries s1 ino)) else int (length (data_entries s1 ino)) - 1)
             (if gap_end es n = 4096 then 0 else gap_end es n) False False 0 s1"
    unfolding Let_def by blast
  have sz0: "0 \<le> i_size (inodes s ino)" using wf by (simp add: file_wf_def Let_def)
  then have n: "0 < n" "n \<le> 4194304" "i_size (inodes s1 ino) = wp" "0 \<le> wp"
    using wp g by (auto simp: n_def gapped_def Let_def)
  have s1: "length (data_entries s1 ino) = length es + gap_blocks es n" "disk_ok env s1"
      "nr_free_blocks (sbi s1) + gap_blocks es n = nr_free_blocks (sbi s)"
    using g ok by (simp_all add: gapped_def Let_def es_def disk_ok_def)
  note gw = gapped_write [OF fw(2) s1(2) wp(3) n(4) buff g n(1-3), folded es_def, folded call]
  define ib where "ib = index_block (inodes s1 ino)"
  show "\<exists>s' junk. ouichefs_light_write env f buff sz pos s = Some (int sz, wp + int sz, s') \<and>
        file_content s' ino = file_content s ino @ junk @ buff \<and> int (length junk) = n \<and>
        i_size (inodes s' ino) = wp + int sz \<and> files_wf s' F \<and> (\<forall>j \<in> F - {ino}. file_content s' j = file_content s j) \<and> file_frame s ino s'"
    if "length es + m \<le> 1024" "m \<le> nr_free_blocks (sbi s)"
  proof -
    have "length (data_entries s1 ino) + gap_write_blocks es n sz \<le> 1024" "gap_write_blocks es n sz \<le> nr_free_blocks (sbi s1)"
      using that s1 by (simp_all add: m_def)
    from gw(2) [OF this] obtain s4 ns' where s4: "ouichefs_light_write env f buff sz pos s = Some (light_write_end env ino sz 0 wp 0 (write_back ib s4))"
      "grown s1 ino (gap_write_blocks es n sz) (int sz) s4 ns'" "fragments (bufs s4) ns' = file_content s1 ino @ buff"
      unfolding ib_def by blast
    define s' where "s' = snd (snd (light_write_end env ino sz 0 wp 0 (write_back ib s4)))"
    note a = gapped_after [OF g fw(2) s4(2,3) s'_def [symmetric]] and e = light_write_end_facts [OF s'_def [symmetric]]
    show ?thesis using a e(7) s4(1) g by (intro exI [of _ s'] exI [of _ junk]) (simp add: gapped_def Let_def n_def)
  qed
  show "\<exists>s' junk. ouichefs_light_write env f buff sz pos s = Some (- ENOSPC, wp, s') \<and>
        file_content s' ino = file_content s ino @ junk \<and> int (length junk) = n \<and>
        i_size (inodes s' ino) = wp \<and> files_wf s' F \<and> (\<forall>j \<in> F - {ino}. file_content s' j = file_content s j) \<and> file_frame s ino s'"
    if "1024 < length es + m \<or> nr_free_blocks (sbi s) < m" "gap_end es n = 4096 \<longrightarrow> length es + gap_blocks es n < 1024"
  proof -
    have "ouichefs_light_write env f buff sz pos s = Some (- ENOSPC, wp, write_back ib s1)"
      unfolding ib_def using that s1 by (intro gw(1)) (auto simp: m_def)
    moreover have w: "bufs (write_back ib s1) = bufs s1" "sbi (write_back ib s1) = sbi s1" "inodes (write_back ib s1) = inodes s1"
      by simp_all
    ultimately show ?thesis using g n(3)
      by (intro exI [of _ "write_back ib s1"] exI [of _ junk]) (simp add: gapped_def Let_def files_wf_cong [OF w] file_frame_trans [OF _ file_frame_cong [OF w]])
  qed
  show "ouichefs_light_write env f buff sz pos s = None"
    if "gap_end es n = 4096" "length es + gap_blocks es n = 1024" using gw(3) that s1(1) by simp
qed

section \<open>Correctness\<close>

text \<open>
  C23: A light write beyond the end of the file, for which the blocks of the gap and of the data are
  available, returns the number of bytes and appends a gap that reaches up to the position, then
  exactly the user's bytes. The bytes of the gap are whatever the blocks held. Size, invariant
  and all other files are as they should be.
\<close>

theorem light_write_beyond_end:
  assumes "files_wf s F" "ino \<in> F" "f_inode f = ino" "disk_ok env s"
    and "write_pos f pos s = wp" "i_size (inodes s ino) < wp" "wp + int sz \<le> 4194304" "length buff = sz"
    and "n = wp - i_size (inodes s ino)"
    and "m = gap_blocks (data_entries s ino) n + gap_write_blocks (data_entries s ino) n sz"
    and "length (data_entries s ino) + m \<le> 1024" "m \<le> nr_free_blocks (sbi s)"
  shows "\<exists>s' junk. ouichefs_light_write env f buff sz pos s = Some (int sz, wp + int sz, s') \<and>
    file_content s' ino = file_content s ino @ junk @ buff \<and> int (length junk) = n \<and>
    i_size (inodes s' ino) = wp + int sz \<and> files_wf s' F \<and> (\<forall>j \<in> F - {ino}. file_content s' j = file_content s j)"
  using light_write_beyond(1) [OF assms(1-8)] assms(9-12) by fastforce

lemma demo_gap:
  "gap_blocks [demo_entry 8 3, demo_entry 9 2] 5 = 0" "gap_end [demo_entry 8 3, demo_entry 9 2] 5 = 7"
  "gap_write_blocks [demo_entry 8 3, demo_entry 9 2] 5 1 = 0"
  "gap_blocks [demo_entry 6 5] 1 = 0" "gap_end [demo_entry 6 5] 1 = 6" "gap_write_blocks [demo_entry 6 5] 1 40000 = 9"
  by (simp_all add: gap_blocks_def gap_room_def gap_end_def gap_write_blocks_def extra_blocks_def idiv_ceil_def)

theorem light_write_beyond_end_witness:
  "\<exists>s' junk. ouichefs_light_write demo_env (demo_file 3) [7] 1 10 demo_fs = Some (1, 11, s') \<and>
     file_content s' 3 = [1, 2, 3, 4, 5] @ junk @ [7] \<and> length junk = 5 \<and> files_wf s' {2, 3}"
proof -
  have "\<exists>s' junk. ouichefs_light_write demo_env (demo_file 3) [7] 1 10 demo_fs = Some (int 1, 10 + int 1, s') \<and>
    file_content s' 3 = file_content demo_fs 3 @ junk @ [7] \<and> int (length junk) = 5 \<and>
    i_size (inodes s' 3) = 10 + int 1 \<and> files_wf s' {2, 3} \<and> (\<forall>j \<in> {2, 3} - {3}. file_content s' j = file_content demo_fs j)"
    using demo_gap by (intro light_write_beyond_end [OF demo_files_wf _ demo_insert(3,1,2), where m = 0]) simp_all
  then show ?thesis by auto
qed

text \<open>
  C24: When there is room for the gap but not for the data, the light write fails with -ENOSPC and
  writes none of the user's bytes, yet the file keeps the gap: it has grown up to the position.
\<close>

theorem light_write_gap_kept:
  assumes "files_wf s F" "ino \<in> F" "f_inode f = ino" "disk_ok env s"
    and "write_pos f pos s = wp" "i_size (inodes s ino) < wp" "wp + int sz \<le> 4194304" "length buff = sz"
    and "n = wp - i_size (inodes s ino)" "g = gap_blocks (data_entries s ino) n"
    and "length (data_entries s ino) + g \<le> 1024" "g \<le> nr_free_blocks (sbi s)" "gap_end (data_entries s ino) n < 4096"
    and "m = g + gap_write_blocks (data_entries s ino) n sz"
    and "1024 < length (data_entries s ino) + m \<or> nr_free_blocks (sbi s) < m"
  shows "\<exists>s' junk. ouichefs_light_write env f buff sz pos s = Some (- ENOSPC, wp, s') \<and>
    file_content s' ino = file_content s ino @ junk \<and> int (length junk) = n \<and> i_size (inodes s' ino) = wp \<and> files_wf s' F"
  using light_write_beyond(2) [OF assms(1-8)] assms(9-15) by auto

theorem light_write_gap_kept_witness:
  "\<exists>s' junk. ouichefs_light_write demo_env (demo_file 2) (replicate 40000 1) 40000 6 demo_fs = Some (- ENOSPC, 6, s') \<and>
     file_content s' 2 = [104, 101, 108, 108, 111] @ junk \<and> length junk = 1"
proof -
  have "\<exists>s' junk. ouichefs_light_write demo_env (demo_file 2) (replicate 40000 1) 40000 6 demo_fs = Some (- ENOSPC, 6, s') \<and>
    file_content s' 2 = file_content demo_fs 2 @ junk \<and> int (length junk) = 1 \<and> i_size (inodes s' 2) = 6 \<and> files_wf s' {2, 3}"
    using demo_gap by (intro light_write_gap_kept [OF demo_files_wf _ demo_insert(3,1,2), where g = 0 and m = 9]) simp_all
  then show ?thesis by auto
qed

text \<open>
  When the gap fills all 1024 slots of the index up to the last byte, the code goes on with slot
  1024: it reads past the index block before any space check.
\<close>

theorem light_write_past_index:
  assumes "files_wf s F" "ino \<in> F" "f_inode f = ino" "disk_ok env s"
    and "write_pos f pos s = wp" "i_size (inodes s ino) < wp" "wp + int sz \<le> 4194304" "length buff = sz"
    and "n = wp - i_size (inodes s ino)" "gap_blocks (data_entries s ino) n \<le> nr_free_blocks (sbi s)"
    and "length (data_entries s ino) + gap_blocks (data_entries s ino) n = 1024" "gap_end (data_entries s ino) n = 4096"
  shows "ouichefs_light_write env f buff sz pos s = None"
  using light_write_beyond(3) [OF assms(1-8)] assms(9-12) by simp

theorem light_write_past_index_witness:
  "ouichefs_light_write demo_env (demo_file 2) [7] 1 5119 demo_max = None"
proof -
  have e: "length demo_max_entries = 1024" "last demo_max_entries = demo_entry 1123 1"
    by (simp_all add: demo_max_entries_def last_conv_nth del: upt_rec_numeral)
  then have "demo_max_entries \<noteq> []" by auto
  with e have "gap_room demo_max_entries = 4095" by (simp add: gap_room_def)
  then have g: "gap_blocks demo_max_entries 4095 = 0" "gap_end demo_max_entries 4095 = 4096"
    by (simp_all add: gap_blocks_def gap_end_def idiv_ceil_def)
  have "disk_ok demo_env demo_max" by (simp add: disk_ok_def demo_env_def)
  moreover have "files_wf demo_max {2}" using demo_max_facts by (simp add: files_wf_def)
  moreover have "write_pos (demo_file 2) 5119 demo_max = 5119"
    by (simp add: write_pos_def demo_file_def O_RDWR_def O_APPEND_def)
  moreover have "i_size (inodes demo_max 2) = 1024" by (simp add: demo_max_def)
  ultimately show ?thesis using e g demo_max_facts(1)
    by (intro light_write_past_index [where F = "{2}" and ino = 2 and wp = 5119 and n = 4095]) (simp_all add: demo_file_def)
qed

end
