(* ===== verification/Defrag.thy ===== *)
theory Defrag
  imports Insert Demo "HOL-Library.Multiset"
begin

text \<open>
  Defragmentation (defrag.c): the first pass moves the bytes of the file to the left until every
  block but the last is full, the second pass returns the blocks that became empty. The first
  pass may run forever on a file whose size does not match its fragments, so its loop is a
  partial function; on well-formed files it is proved to end.
\<close>

section \<open>The operations\<close>

definition move_shift_block_content_to ::
    "kenv \<Rightarrow> nat \<Rightarrow> int \<Rightarrow> int \<Rightarrow> int \<Rightarrow> fs \<Rightarrow> (int \<times> fs) option" where
  "move_shift_block_content_to env ib from_i to_i lp s =
     do { ef \<leftarrow> arr (load_index s ib) from_i;
          let from_len = get_block_size ef;
          let to_copy = min from_len (int OUICHEFS_BLOCK_SIZE - lp);
          if to_copy = 0 then Some (0, s)
          else
            do { et \<leftarrow> arr (load_index s ib) to_i;
                 let bf = get_block_number ef;
                 let bt = get_block_number et;
                 if \<not> bread_ok env bf \<or> \<not> bread_ok env bt then Some (- EIO, s)
                 else if to_copy < 0 then None
                 else
                   do { src \<leftarrow> mem_read (bufs s bf) 0 (nat to_copy);
                        b \<leftarrow> mem_write (bufs s bt) lp src;
                        let s = set_buf bt b s;
                        ef \<leftarrow> arr (load_index s ib) from_i;
                        idx \<leftarrow> arr_set (load_index s ib) from_i (sub_block_size ef to_copy);
                        et \<leftarrow> arr idx to_i;
                        idx \<leftarrow> arr_set idx to_i (add_block_size et to_copy);
                        let s = store_index ib idx s;
                        b \<leftarrow> memcpy_within env (bufs s bf) 0 (nat to_copy) (nat (from_len - to_copy));
                        b \<leftarrow> mem_write b (from_len - to_copy) (replicate (nat to_copy) 0);
                        Some (to_copy, write_back bt (write_back bf (set_buf bf b s))) } } }"

function bubble_loop :: "entry list \<Rightarrow> int \<Rightarrow> int \<Rightarrow> entry list option" where
  "bubble_loop idx bli nb_blocks =
     (if bli < nb_blocks - 1 then
        do { tmp \<leftarrow> arr idx bli;
             e \<leftarrow> arr idx (bli + 1);
             idx \<leftarrow> arr_set idx bli e;
             idx \<leftarrow> arr_set idx (bli + 1) tmp;
             bubble_loop idx (bli + 1) nb_blocks }
      else Some idx)"
  by pat_completeness auto
termination
  by (relation "measure (\<lambda>(idx, bli, nb). nat (nb - bli))") auto

declare bubble_loop.simps [simp del]

definition bubble_up_block :: "entry list \<Rightarrow> int \<Rightarrow> int \<Rightarrow> entry list option" where
  "bubble_up_block idx block_index nb_blocks = bubble_loop idx block_index nb_blocks"

text \<open>
  The first pass; it ends with \<open>ret\<close>, \<open>bli\<close> and the state. The comparison of \<open>bli\<close> with
  \<open>i_blocks - 2\<close> is one of unsigned 64-bit numbers.
\<close>

partial_function (option) defrag_loop ::
    "kenv \<Rightarrow> nat \<Rightarrow> int \<Rightarrow> nat \<Rightarrow> fs \<Rightarrow> int \<Rightarrow> int \<Rightarrow> int \<Rightarrow> (int \<times> int \<times> fs) option" where
  "defrag_loop env ib fsize blocks s bli data_moved lp =
     (if data_moved < fsize \<and> u64 bli < u64 (int blocks - 2) then
        do { e \<leftarrow> arr (load_index s ib) (bli + 1);
             if block_empty e then
               do { idx \<leftarrow> bubble_up_block (load_index s ib) (bli + 1) (s32 (int blocks - 1));
                    defrag_loop env ib fsize blocks (store_index ib idx s) bli data_moved lp }
             else
               do { (block_moved, s) \<leftarrow> move_shift_block_content_to env ib (bli + 1) bli lp s;
                    if block_moved < 0 then Some (- EIO, bli, s)
                    else if lp + block_moved = int OUICHEFS_BLOCK_SIZE then
                      do { e \<leftarrow> arr (load_index s ib) (bli + 1);
                           defrag_loop env ib fsize blocks s (bli + 1)
                             (data_moved + block_moved + get_block_size e) (get_block_size e) }
                    else defrag_loop env ib fsize blocks s bli (data_moved + block_moved) (lp + block_moved) } }
      else Some (0, bli, s))"

text \<open>The second pass; it ends with the superblock information, the index and \<open>block_removed\<close>.\<close>

function defrag_free ::
    "sb_info \<Rightarrow> entry list \<Rightarrow> nat \<Rightarrow> int \<Rightarrow> nat \<Rightarrow> (sb_info \<times> entry list \<times> nat) option" where
  "defrag_free q idx blocks bli removed =
     (if u64 bli < u64 (int blocks - 1) then
        case arr idx bli of
          None \<Rightarrow> None
        | Some e \<Rightarrow>
            (case put_block q (get_block_number e) of
               None \<Rightarrow> None
             | Some q' \<Rightarrow> defrag_free q' (idx[nat bli := 0]) blocks (bli + 1) (Suc removed))
      else Some (q, idx, removed))"
  by pat_completeness auto
termination
  by (relation "measure (\<lambda>(q, idx, blocks, bli, removed). nat (int (length idx) - bli))")
    (auto dest!: arr_SomeD)

declare defrag_free.simps [simp del]

definition ouichefs_defrag :: "kenv \<Rightarrow> file \<Rightarrow> fs \<Rightarrow> (int \<times> fs) option" where
  "ouichefs_defrag env f s =
     (let ino = f_inode f; I = inodes s ino; ib = index_block I in
      if \<not> bread_ok env ib then Some (- EIO, s)
      else
        do { e \<leftarrow> arr (load_index s ib) 0;
             let data_moved = get_block_size e;
             (ret, bli, s) \<leftarrow> defrag_loop env ib (i_size I) (i_blocks I) s 0 data_moved data_moved;
             if ret < 0 then Some (ret, write_back ib s)
             else
               do { e \<leftarrow> arr (load_index s ib) bli;
                    let bli = (if \<not> block_empty e then bli + 1 else bli);
                    (q, idx, block_removed) \<leftarrow> defrag_free (sbi s) (load_index s ib) (i_blocks I) bli 0;
                    let I = I\<lparr>i_blocks := u64 (int (i_blocks I) - int block_removed),
                              i_mtime := current_time env, i_ctime := current_time env\<rparr>;
                    Some (0, write_back ib
                      (mark_inode_dirty ino (set_inode ino I (store_index ib idx (s\<lparr>sbi := q\<rparr>))))) } })"

section \<open>Bubbling\<close>

lemma bubble_loop_spec:
  "bubble_loop (A @ e # R @ Z) (int (length A)) (int (length A + Suc (length R))) = Some (A @ R @ e # Z)"
proof (induction R arbitrary: A)
  case Nil
  then show ?case by (simp add: bubble_loop.simps [of "A @ e # Z"])
next
  case (Cons r R)
  have "arr (A @ e # r # R @ Z) (int (length A) + 1) = Some r"
    using arr_mid [of "A @ [e]" r "R @ Z"] by (simp add: add.commute)
  moreover have "arr_set (A @ r # r # R @ Z) (int (length A) + 1) e = Some (A @ r # e # R @ Z)"
    using arr_set_mid [of "A @ [r]" r "R @ Z" e] by (simp add: add.commute)
  ultimately have "bubble_loop (A @ e # r # R @ Z) (int (length A)) (int (length A + Suc (length (r # R)))) =
      bubble_loop ((A @ [r]) @ e # R @ Z) (int (length (A @ [r]))) (int (length (A @ [r]) + Suc (length R)))"
    by (subst bubble_loop.simps) (simp add: arr_mid arr_set_mid add.commute)
  with Cons.IH [of "A @ [r]"] show ?case by simp
qed

section \<open>Moving bytes to the left\<close>

text \<open>
  \<open>same_file ib s es s' es'\<close>: the state \<open>s'\<close> shows the same bytes through the slots \<open>es'\<close> as \<open>s\<close> through
  \<open>es\<close>, in the same blocks, and differs from \<open>s\<close> in these blocks and the index block only.
\<close>

definition same_file :: "nat \<Rightarrow> fs \<Rightarrow> entry list \<Rightarrow> fs \<Rightarrow> entry list \<Rightarrow> bool" where
  "same_file ib s es s' es' \<longleftrightarrow>
     wf_bufs s' \<and> load_index s' ib = es' @ replicate (1024 - length es) 0 \<and>
     mset (map get_block_number es') = mset (map get_block_number es) \<and>
     fragments (bufs s') es' = fragments (bufs s) es \<and> total_size es' = total_size es \<and>
     (synced s es \<longrightarrow> synced s' es') \<and>
     (\<forall>b. b \<noteq> ib \<longrightarrow> b \<notin> get_block_number ` set es \<longrightarrow> bufs s' b = bufs s b \<and> media s' b = media s b) \<and>
     sbi s' = sbi s \<and> inodes s' = inodes s \<and> idirty s' = idirty s"

lemma same_file_length: "same_file ib s es s' es' \<Longrightarrow> length es' = length es"
  unfolding same_file_def by (metis length_map size_mset)

lemma same_file_blocks:
  "same_file ib s es s' es' \<Longrightarrow> get_block_number ` set es' = get_block_number ` set es"
  unfolding same_file_def by (metis list.set_map set_mset_mset)

lemma same_file_distinct:
  assumes "same_file ib s es s' es'"
  shows "distinct (ib # map get_block_number es') = distinct (ib # map get_block_number es)"
proof -
  have m: "mset (map get_block_number es') = mset (map get_block_number es)"
    using assms by (simp add: same_file_def)
  from mset_eq_imp_distinct_iff [OF m] mset_eq_setD [OF m] show ?thesis by simp
qed

lemma same_file_trans:
  assumes "same_file ib s es s1 es1" "same_file ib s1 es1 s2 es2"
  shows "same_file ib s es s2 es2"
  using assms same_file_length [OF assms(1)] same_file_blocks [OF assms(1)]
  unfolding same_file_def by simp

lemma same_file_refl:
  "\<lbrakk>wf_bufs s; load_index s ib = es @ replicate (1024 - length es) 0\<rbrakk> \<Longrightarrow> same_file ib s es s es"
  by (simp add: same_file_def)

lemma move_shift_spec:
  assumes wf: "wf_bufs s" "load_index s ib = A @ c # e # R @ Z"
    and d: "distinct (ib # map get_block_number (A @ c # e # R))"
    and br: "bread_ok env (get_block_number c)" "bread_ok env (get_block_number e)"
    and asc: "ascending_memcpy env" and ne: "0 < get_block_size e" "get_block_size c < 4096"
  defines "k \<equiv> min (get_block_size e) (4096 - get_block_size c)"
  defines "c' \<equiv> add_block_size c k" and "e' \<equiv> sub_block_size e k"
  shows "\<exists>s'. move_shift_block_content_to env ib (int (length A) + 1) (int (length A)) (get_block_size c) s = Some (k, s') \<and>
    wf_bufs s' \<and> load_index s' ib = A @ c' # e' # R @ Z \<and>
    fragment (bufs s') c' = fragment (bufs s) c @ take (nat k) (fragment (bufs s) e) \<and>
    fragment (bufs s') e' = drop (nat k) (fragment (bufs s) e) \<and>
    fragment (media s') c' = fragment (bufs s') c' \<and> fragment (media s') e' = fragment (bufs s') e' \<and>
    (\<forall>b. b \<noteq> ib \<longrightarrow> b \<noteq> get_block_number c \<longrightarrow> b \<noteq> get_block_number e \<longrightarrow>
       bufs s' b = bufs s b \<and> media s' b = media s b) \<and>
    sbi s' = sbi s \<and> inodes s' = inodes s \<and> idirty s' = idirty s"
proof -
  define bc be where "bc = get_block_number c" and "be = get_block_number e"
  obtain n m j where n: "get_block_size c = int n" "get_block_size e = int m" "k = int j"
    using get_block_size_nonneg nonneg_int_cases ne by (metis k_def le_diff_eq min_def less_imp_le add_0)
  have j: "0 < j" "j \<le> m" "n + j \<le> 4096" "m \<le> 4096"
    using ne n get_block_size_le [of e] by (auto simp: k_def)
  have nb: "bc \<noteq> ib" "be \<noteq> ib" "bc \<noteq> be" using d by (auto simp: bc_def be_def)
  have L: "length (bufs s b) = 4096" for b using wf(1) by (rule wf_bufs_length)
  have lidx: "length (A @ c # e # R @ Z) = 1024" using wf length_load_index by metis
  define src where "src = take j (bufs s be)"
  define s1 where "s1 = set_buf bc (overlay (bufs s bc) n src) s"
  define s2 where "s2 = store_index ib (A @ c' # e' # R @ Z) s1"
  define blk where "blk = overlay (bufs s be) 0 (take (m - j) (drop j (bufs s be)))"
  define blk' where "blk' = overlay blk (m - j) (replicate j 0)"
  define s3 where "s3 = write_back bc (write_back be (set_buf be blk' s2))"
  have ls: "length src = j" "length blk = 4096" "length blk' = 4096"
    using L j by (simp_all add: src_def blk_def blk'_def)
  have ix: "arr (A @ x # e # R @ Z) (int (length A) + 1) = Some e"
      "arr_set (A @ x # e # R @ Z) (int (length A) + 1) v = Some (A @ x # v # R @ Z)" for x v
    using arr_mid [of "A @ [x]" e "R @ Z"] arr_set_mid [of "A @ [x]" e "R @ Z" v] by (simp_all add: add.commute)
  have op1: "mem_read (bufs s be) 0 j = Some src" "mem_write (bufs s bc) (int n) src = Some (overlay (bufs s bc) n src)"
    using L j ls(1) by (simp_all add: mem_read_in mem_write_in src_def)
  have op2: "memcpy_within env (bufs s be) 0 j (m - j) = Some blk"
    unfolding blk_def using L j by (intro memcpy_within_ascending [OF asc]) simp_all
  have op3: "mem_write blk (int m - int j) (replicate j 0) = Some blk'"
    using mem_write_in [of "int (m - j)" "replicate j 0" blk] ls j by (simp add: blk'_def of_nat_diff nat_diff_distrib)
  have kk: "nat (int m - int j) = m - j" by simp
  have call: "move_shift_block_content_to env ib (int (length A) + 1) (int (length A)) (get_block_size c) s = Some (k, s3)"
    unfolding move_shift_block_content_to_def wf(2) ix(1) bind.bind_lunit Let_def OUICHEFS_BLOCK_SIZE_def
      of_nat_numeral k_def [symmetric]
    using j br nb op1 op2 op3 wf(2) ix(1) [of c] ix(2) [of c] arr_mid [of A c] arr_set_mid [of A c]
    by (simp add: kk n bc_def [symmetric] be_def [symmetric] s1_def s2_def s3_def c'_def e'_def)
  have wf3: "wf_bufs s3" using wf(1) L ls j lidx
    by (simp add: s3_def s2_def s1_def wf_bufs_set_buf wf_bufs_store_index)
  have idx3: "load_index s3 ib = A @ c' # e' # R @ Z"
    using nb lidx by (simp add: s3_def s2_def load_store_index)
  have bufs3: "bufs s3 bc = overlay (bufs s bc) n src" "bufs s3 be = blk'" "media s3 bc = bufs s3 bc" "media s3 be = bufs s3 be"
    using nb by (simp_all add: s3_def s2_def s1_def)
  have sz: "get_block_number c' = bc" "get_block_size c' = int (n + j)" "get_block_number e' = be" "get_block_size e' = int (m - j)"
    using n j by (simp_all add: c'_def e'_def bc_def be_def of_nat_diff)
  have frag: "fragment (bufs s) c = take n (bufs s bc)" "fragment (bufs s) e = take m (bufs s be)"
    using n by (simp_all add: fragment_def bc_def be_def)
  have f1: "fragment (bufs s3) c' = fragment (bufs s) c @ take j (fragment (bufs s) e)"
    using take_overlay [of n src "bufs s bc"] ls j L frag
    by (simp add: fragment_def [of _ c'] sz bufs3 src_def min_def nat_int_add)
  have "take (m - j) blk' = take (m - j) blk"
    using ls j by (simp add: blk'_def take_overlay_le)
  also have "\<dots> = take (m - j) (drop j (bufs s be))"
    using take_overlay [of 0 "take (m - j) (drop j (bufs s be))" "bufs s be"] L j by (simp add: blk_def)
  finally have f2: "fragment (bufs s3) e' = drop j (fragment (bufs s) e)"
    using j frag by (simp add: fragment_def [of _ e'] sz bufs3 drop_take kk)
  have other: "bufs s3 b = bufs s b \<and> media s3 b = media s b" if "b \<noteq> ib" "b \<noteq> bc" "b \<noteq> be" for b
    using that by (simp add: s3_def s2_def s1_def)
  have rest: "sbi s3 = sbi s" "inodes s3 = inodes s" "idirty s3 = idirty s"
    by (simp_all add: s3_def s2_def s1_def)
  show ?thesis
    using call wf3 idx3 f1 f2 other rest bufs3(3,4) n(3) sz
    by (intro exI [of _ s3]) (simp add: fragment_def [of "media s3"] fragment_def [of "bufs s3"] bc_def be_def)
qed

section \<open>The first pass\<close>

lemma distinct_mid:
  "distinct (ib # map get_block_number (A @ c # e # R)) \<Longrightarrow> x \<in> set (A @ R) \<Longrightarrow>
   get_block_number x \<noteq> ib \<and> get_block_number x \<noteq> get_block_number c \<and> get_block_number x \<noteq> get_block_number e"
  by (auto simp: image_iff)

text \<open>Both steps of the pass keep the file.\<close>

lemma same_file_bubble:
  assumes wf: "wf_bufs s" "load_index s ib = (A @ c # e # R) @ replicate (1024 - length (A @ c # e # R)) 0"
    and e: "get_block_size e = 0" and ib: "ib \<notin> get_block_number ` set (A @ c # e # R)"
    and len: "length (A @ c # e # R) \<le> 1024"
  defines "es' \<equiv> A @ c # R @ [e]"
  defines "s' \<equiv> store_index ib (es' @ replicate (1024 - length (A @ c # e # R)) 0) s"
  shows "same_file ib s (A @ c # e # R) s' es'"
proof -
  have l: "length (es' @ replicate (1024 - length (A @ c # e # R)) 0) = 1024" using len by (simp add: es'_def)
  have keep: "bufs s' (get_block_number x) = bufs s (get_block_number x) \<and> media s' (get_block_number x) = media s (get_block_number x)"
    if "x \<in> set (A @ c # e # R)" for x
  proof -
    have "get_block_number x \<noteq> ib" using ib that by (metis imageI)
    then show ?thesis by (simp add: s'_def)
  qed
  then have f: "fragments (bufs s') (A @ c # e # R) = fragments (bufs s) (A @ c # e # R)"
    by (intro fragments_cong) simp
  have sy: "synced s' (A @ c # e # R) = synced s (A @ c # e # R)" using keep by (rule synced_cong)
  have "fragment (bufs s') e = []" "fragment (media s') e = []" using e by (simp_all add: fragment_empty)
  then have f': "fragments (bufs s') es' = fragments (bufs s') (A @ c # e # R)"
      "synced s' es' = synced s' (A @ c # e # R)" "total_size es' = total_size (A @ c # e # R)"
    by (auto simp: es'_def)
  show ?thesis
    unfolding same_file_def f' f sy using l wf(1) e
    by (simp add: s'_def load_store_index wf_bufs_store_index) (simp add: es'_def)
qed

lemma same_file_move:
  assumes wf: "wf_bufs s" "load_index s ib = (A @ c # e # R) @ replicate (1024 - length (A @ c # e # R)) 0"
    and d: "distinct (ib # map get_block_number (A @ c # e # R))"
    and br: "\<forall>x \<in> set (A @ c # e # R). bread_ok env (get_block_number x)"
    and asc: "ascending_memcpy env" and ne: "0 < get_block_size e" "get_block_size c < 4096"
  defines "k \<equiv> min (get_block_size e) (4096 - get_block_size c)"
  defines "c' \<equiv> add_block_size c k" and "e' \<equiv> sub_block_size e k"
  shows "\<exists>s'. move_shift_block_content_to env ib (int (length A) + 1) (int (length A)) (get_block_size c) s = Some (k, s') \<and>
    same_file ib s (A @ c # e # R) s' (A @ c' # e' # R)"
proof -
  let ?Z = "replicate (1024 - length (A @ c # e # R)) (0 :: entry)"
  have li: "load_index s ib = A @ c # e # R @ ?Z" using wf(2) by simp
  have bc: "bread_ok env (get_block_number c)" "bread_ok env (get_block_number e)" using br by simp_all
  from move_shift_spec [OF wf(1) li d bc asc ne, folded k_def, folded c'_def e'_def]
  obtain s' where s': "move_shift_block_content_to env ib (int (length A) + 1) (int (length A)) (get_block_size c) s = Some (k, s')"
    "wf_bufs s'" "load_index s' ib = A @ c' # e' # R @ ?Z"
    "fragment (bufs s') c' = fragment (bufs s) c @ take (nat k) (fragment (bufs s) e)"
    "fragment (bufs s') e' = drop (nat k) (fragment (bufs s) e)"
    "fragment (media s') c' = fragment (bufs s') c'" "fragment (media s') e' = fragment (bufs s') e'"
    and other: "\<And>b. \<lbrakk>b \<noteq> ib; b \<noteq> get_block_number c; b \<noteq> get_block_number e\<rbrakk> \<Longrightarrow>
       bufs s' b = bufs s b \<and> media s' b = media s b"
    and rest: "sbi s' = sbi s" "inodes s' = inodes s" "idirty s' = idirty s"
    by blast
  have keep: "bufs s' (get_block_number x) = bufs s (get_block_number x) \<and> media s' (get_block_number x) = media s (get_block_number x)"
    if "x \<in> set A \<or> x \<in> set R" for x
    using distinct_mid [OF d, of x] that other by auto
  have fr: "fragments (bufs s') A = fragments (bufs s) A" "fragments (bufs s') R = fragments (bufs s) R"
    using keep by (auto intro!: fragments_cong)
  have sy: "synced s' A = synced s A" "synced s' R = synced s R"
    using keep by (auto intro!: synced_cong)
  have sz: "get_block_size c' = get_block_size c + k" "get_block_size e' = get_block_size e - k"
      "get_block_number c' = get_block_number c" "get_block_number e' = get_block_number e"
    using ne get_block_size_le [of e] by (auto simp: c'_def e'_def k_def)
  have "same_file ib s (A @ c # e # R) s' (A @ c' # e' # R)"
    unfolding same_file_def using s' fr sy sz rest other by simp
  with s'(1) show ?thesis by blast
qed

text \<open>
  The pass on a well-formed file: the current block is \<open>c\<close>, the blocks \<open>A\<close> before it are full. It
  ends with a full prefix, one block that may be partly filled, and empty blocks.
\<close>

definition packed :: "entry list \<Rightarrow> entry \<Rightarrow> entry list \<Rightarrow> bool" where
  "packed A c R \<longleftrightarrow> (\<forall>e \<in> set A. get_block_size e = 4096) \<and> (\<forall>e \<in> set R. get_block_size e = 0)"

lemma total_size_zero: "total_size R = 0 \<longleftrightarrow> (\<forall>e \<in> set R. get_block_size e = 0)"
  unfolding total_size_def by (rule sum_list_zero_iff) simp

text \<open>The three kinds of iterations.\<close>

lemma defrag_loop_steps:
  assumes li: "load_index s ib = A @ c # e # R @ Z" and b: "blocks = Suc (length (A @ c # e # R))" "blocks \<le> 1025"
    and dm: "dm < fsize"
  shows "get_block_size e = 0 \<Longrightarrow> defrag_loop env ib fsize blocks s (int (length A)) dm lp =
      defrag_loop env ib fsize blocks (store_index ib (A @ c # R @ e # Z) s) (int (length A)) dm lp"
      (is "_ \<Longrightarrow> ?bubble")
    and "\<lbrakk>0 < get_block_size e; lp = 4096\<rbrakk> \<Longrightarrow> defrag_loop env ib fsize blocks s (int (length A)) dm lp =
      defrag_loop env ib fsize blocks s (int (length A) + 1) (dm + get_block_size e) (get_block_size e)"
      (is "\<lbrakk>_; _\<rbrakk> \<Longrightarrow> ?full")
    and "\<lbrakk>0 < get_block_size e; move_shift_block_content_to env ib (int (length A) + 1) (int (length A)) lp s = Some (k, s');
        0 \<le> k; load_index s' ib = A @ c' # e' # R @ Z\<rbrakk> \<Longrightarrow>
      defrag_loop env ib fsize blocks s (int (length A)) dm lp =
        (if lp + k = 4096
         then defrag_loop env ib fsize blocks s' (int (length A) + 1) (dm + k + get_block_size e') (get_block_size e')
         else defrag_loop env ib fsize blocks s' (int (length A)) (dm + k) (lp + k))"
      (is "\<lbrakk>_; _; _; _\<rbrakk> \<Longrightarrow> ?move")
proof -
  have u: "u64 (int (length A)) < u64 (int blocks - 2)" using b by (simp add: u64_id)
  have s32: "s32 (int blocks - 1) = int (length (A @ [c]) + Suc (length R))" using b by (simp add: s32_id)
  have a: "arr (A @ c' # e' # R @ Z) (int (length A) + 1) = Some e'" for c' e'
    using arr_mid [of "A @ [c']" e' "R @ Z"] by (simp add: add.commute)
  have bu: "bubble_up_block (A @ c # e # R @ Z) (int (length A) + 1) (s32 (int blocks - 1)) = Some (A @ c # R @ e # Z)"
    unfolding bubble_up_block_def s32 using bubble_loop_spec [of "A @ [c]" e R Z] by (simp add: add.commute)
  have "block_empty e \<longleftrightarrow> get_block_size e = 0" by (simp add: get_block_size_zero_iff)
  note simps = this a bu li u dm
  show "get_block_size e = 0 \<Longrightarrow> ?bubble"
    by (subst defrag_loop.simps) (simp add: simps)
  show "\<lbrakk>0 < get_block_size e; lp = 4096\<rbrakk> \<Longrightarrow> ?full"
    by (subst defrag_loop.simps)
      (simp add: simps move_shift_block_content_to_def OUICHEFS_BLOCK_SIZE_def)
  assume "0 < get_block_size e" "move_shift_block_content_to env ib (int (length A) + 1) (int (length A)) lp s = Some (k, s')"
    "0 \<le> k" "load_index s' ib = A @ c' # e' # R @ Z"
  then show ?move
    by (subst defrag_loop.simps) (simp add: simps OUICHEFS_BLOCK_SIZE_def)
qed

definition defrag_inv ::
    "kenv \<Rightarrow> nat \<Rightarrow> int \<Rightarrow> nat \<Rightarrow> fs \<Rightarrow> entry list \<Rightarrow> entry \<Rightarrow> entry list \<Rightarrow> bool" where
  "defrag_inv env ib fsize blocks s A c R \<longleftrightarrow>
     wf_bufs s \<and> load_index s ib = (A @ c # R) @ replicate (1024 - length (A @ c # R)) 0 \<and>
     length (A @ c # R) \<le> 1024 \<and> distinct (ib # map get_block_number (A @ c # R)) \<and>
     (\<forall>b \<in> get_block_number ` set (A @ c # R). bread_ok env b) \<and> (\<forall>e \<in> set A. get_block_size e = 4096) \<and>
     blocks = Suc (length (A @ c # R)) \<and> fsize = total_size (A @ c # R)"

lemma defrag_inv_same:
  assumes "defrag_inv env ib fsize blocks s A c R" "same_file ib s (A @ c # R) s1 (A1 @ c1 # R1)"
    and "\<forall>e \<in> set A1. get_block_size e = 4096"
  shows "defrag_inv env ib fsize blocks s1 A1 c1 R1"
  using assms same_file_length [OF assms(2)] same_file_distinct [OF assms(2)] same_file_blocks [OF assms(2)]
  unfolding defrag_inv_def same_file_def by (metis)

text \<open>The termination measure: blocks to visit, fragments among them, empty blocks in front.\<close>

definition defrag_order :: "((entry list \<times> entry list \<times> entry \<times> fs) \<times> (entry list \<times> entry list \<times> entry \<times> fs)) set" where
  "defrag_order = measures [\<lambda>(R, A, c, s). length R, \<lambda>(R, A, c, s). length (filter (\<lambda>e. \<not> block_empty e) R),
      \<lambda>(R, A, c, s). length (takeWhile block_empty R)]"

lemma wf_defrag_order: "wf defrag_order"
  by (simp add: defrag_order_def)

lemma defrag_exit:
  assumes inv: "defrag_inv env ib fsize blocks s A c R" and ex: "\<not> (total_size (A @ [c]) < fsize \<and> R \<noteq> [])"
  shows "defrag_loop env ib fsize blocks s (int (length A)) (total_size (A @ [c])) (get_block_size c) = Some (0, int (length A), s)"
    and "same_file ib s (A @ c # R) s (A @ c # R)" "packed A c R"
proof -
  have "fsize = total_size (A @ [c]) + total_size R" "0 \<le> total_size R" using inv by (simp_all add: defrag_inv_def)
  then have "total_size R = 0" using ex by (cases "R = []") (simp, linarith)
  then show "packed A c R" using inv by (simp add: packed_def total_size_zero defrag_inv_def)
  show "same_file ib s (A @ c # R) s (A @ c # R)" using inv by (intro same_file_refl) (auto simp: defrag_inv_def)
  have "u64 (int (length A)) < u64 (int blocks - 2) \<longleftrightarrow> R \<noteq> []"
    using inv by (cases R) (simp_all add: u64_id defrag_inv_def)
  then show "defrag_loop env ib fsize blocks s (int (length A)) (total_size (A @ [c])) (get_block_size c) =
      Some (0, int (length A), s)"
    using ex by (subst defrag_loop.simps) auto
qed

text \<open>Every other iteration leads to a state of the invariant that is smaller in the order.\<close>

lemma defrag_iter:
  assumes inv: "defrag_inv env ib fsize blocks s A c R" and asc: "ascending_memcpy env"
    and go: "total_size (A @ [c]) < fsize" "R \<noteq> []"
  shows "\<exists>s1 A1 c1 R1. defrag_loop env ib fsize blocks s (int (length A)) (total_size (A @ [c])) (get_block_size c) =
      defrag_loop env ib fsize blocks s1 (int (length A1)) (total_size (A1 @ [c1])) (get_block_size c1) \<and>
    same_file ib s (A @ c # R) s1 (A1 @ c1 # R1) \<and> (\<forall>e \<in> set A1. get_block_size e = 4096) \<and>
    ((R1, A1, c1, s1), (R, A, c, s)) \<in> defrag_order"
proof -
  obtain e R1 where R: "R = e # R1" using go(2) by (cases R) auto
  define Z where "Z = replicate (1024 - length (A @ c # e # R1)) (0 :: entry)"
  have wf: "wf_bufs s" "load_index s ib = (A @ c # e # R1) @ Z" "length (A @ c # e # R1) \<le> 1024"
      "distinct (ib # map get_block_number (A @ c # e # R1))" "\<forall>e \<in> set A. get_block_size e = 4096"
      "\<forall>x \<in> set (A @ c # e # R1). bread_ok env (get_block_number x)" "fsize = total_size (A @ c # e # R1)"
    using inv unfolding defrag_inv_def Z_def R by simp_all
  have li: "load_index s ib = A @ c # e # R1 @ Z" using wf(2) by simp
  have bl: "blocks = Suc (length (A @ c # e # R1))" "blocks \<le> 1025" using inv R by (simp_all add: defrag_inv_def)
  note steps = defrag_loop_steps [OF li bl go(1)]
  consider (bubble) "get_block_size e = 0" | (full) "0 < get_block_size e" "get_block_size c = 4096"
    | (move) "0 < get_block_size e" "get_block_size c < 4096"
    using get_block_size_le [of c] get_block_size_nonneg [of e] by linarith
  then show ?thesis
  proof cases
    case bubble
    define s1 where "s1 = store_index ib (A @ c # R1 @ e # Z) s"
    have sf: "same_file ib s (A @ c # R) s1 (A @ c # R1 @ [e])"
      using same_file_bubble [OF wf(1) wf(2) [unfolded Z_def] bubble _ wf(3)] wf(4) R by (auto simp: s1_def Z_def)
    have "\<not> (\<forall>x \<in> set R1. block_empty x)"
    proof
      assume "\<forall>x \<in> set R1. block_empty x"
      then have "total_size R1 = 0" by (simp add: total_size_zero get_block_size_zero_iff)
      with go(1) wf(7) bubble show False by simp
    qed
    then have "takeWhile block_empty (R1 @ [e]) = takeWhile block_empty R1"
      by (metis takeWhile_append1)
    then have "((R1 @ [e], A, c, s1), (R, A, c, s)) \<in> defrag_order"
      using bubble R by (simp add: get_block_size_zero_iff defrag_order_def)
    with sf wf(5) steps(1) [OF bubble] show ?thesis by (auto simp: s1_def)
  next
    case full
    have "same_file ib s (A @ c # R) s ((A @ [c]) @ e # R1)"
      using same_file_refl [OF wf(1), of ib "A @ c # R"] wf(2) R by (simp add: Z_def)
    moreover have "((R1, A @ [c], e, s), (R, A, c, s)) \<in> defrag_order" by (simp add: R defrag_order_def)
    ultimately show ?thesis using steps(2) [OF full] wf(5) full(2)
      by (intro ex4I [of _ s "A @ [c]" e R1]) (simp add: ac_simps)
  next
    case move
    define k where "k = min (get_block_size e) (4096 - get_block_size c)"
    define c' e' where "c' = add_block_size c k" and "e' = sub_block_size e k"
    from same_file_move [OF wf(1) wf(2) [unfolded Z_def] wf(4,6) asc move, folded k_def, folded c'_def e'_def]
    obtain s1 where s1: "move_shift_block_content_to env ib (int (length A) + 1) (int (length A)) (get_block_size c) s = Some (k, s1)"
      "same_file ib s (A @ c # e # R1) s1 (A @ c' # e' # R1)" by blast
    have k: "0 \<le> k" "get_block_size c' = get_block_size c + k" "get_block_size e' = get_block_size e - k"
        "get_block_size c + k = 4096 \<or> get_block_size e = k"
      using move get_block_size_le [of e] by (auto simp: k_def c'_def e'_def)
    have li1: "load_index s1 ib = A @ c' # e' # R1 @ Z" using s1(2) by (simp add: same_file_def Z_def)
    note st = steps(3) [OF move(1) s1(1) k(1) li1]
    show ?thesis
    proof (cases "get_block_size c + k = 4096")
      case True
      have "((R1, A @ [c'], e', s1), (R, A, c, s)) \<in> defrag_order" by (simp add: R defrag_order_def)
      moreover have "total_size (A @ [c]) + k + get_block_size e' = total_size ((A @ [c']) @ [e'])"
          "int (length A) + 1 = int (length (A @ [c']))" using k(2) by simp_all
      moreover have "\<forall>x \<in> set (A @ [c']). get_block_size x = 4096" using wf(5) k(2) True by simp
      ultimately show ?thesis using st True s1(2) R
        by (intro ex4I [of _ s1 "A @ [c']" e' R1]) (simp only: if_True append_assoc append_Cons append_Nil simp_thms)
    next
      case False
      then have "block_empty e'" "\<not> block_empty e" using k move by (auto simp: get_block_size_zero_iff [symmetric])
      then have "((e' # R1, A, c', s1), (R, A, c, s)) \<in> defrag_order" by (simp add: R defrag_order_def)
      then show ?thesis using st False s1(2) wf(5) k(2) R
        by (intro ex4I [of _ s1 A c' "e' # R1"]) (simp add: ac_simps)
    qed
  qed
qed

lemma defrag_loop_spec:
  assumes asc: "ascending_memcpy env" and "defrag_inv env ib fsize blocks s A c R"
  shows "\<exists>s' A' c' R'. defrag_loop env ib fsize blocks s (int (length A)) (total_size (A @ [c])) (get_block_size c) =
      Some (0, int (length A'), s') \<and>
    same_file ib s (A @ c # R) s' (A' @ c' # R') \<and> packed A' c' R'"
  using assms(2)
proof (induction "(R, A, c, s)" arbitrary: R A c s
    rule: wf_induct_rule [OF wf_defrag_order])
  case (1 R A c s)
  show ?case
  proof (cases "total_size (A @ [c]) < fsize \<and> R \<noteq> []")
    case False
    then show ?thesis using defrag_exit [OF "1.prems"] by blast
  next
    case True
    then obtain s1 A1 c1 R1 where it:
      "defrag_loop env ib fsize blocks s (int (length A)) (total_size (A @ [c])) (get_block_size c) =
        defrag_loop env ib fsize blocks s1 (int (length A1)) (total_size (A1 @ [c1])) (get_block_size c1)"
      "same_file ib s (A @ c # R) s1 (A1 @ c1 # R1)" "\<forall>e \<in> set A1. get_block_size e = 4096"
      "((R1, A1, c1, s1), (R, A, c, s)) \<in> defrag_order"
      using defrag_iter [OF "1.prems" asc] by blast
    from "1.hyps" [OF it(4) defrag_inv_same [OF "1.prems" it(2,3)]] it(1,2) same_file_trans
    show ?thesis by metis
  qed
qed

section \<open>The second pass\<close>

lemma defrag_free_spec:
  assumes "block_map_wf q" "length A + length R \<le> 1024" "blocks = Suc (length A + length R)"
    and "distinct (map get_block_number R)" "\<forall>b \<in> get_block_number ` set R. allocated q b"
  shows "\<exists>q'. defrag_free q (A @ R @ Z) blocks (int (length A)) r = Some (q', A @ replicate (length R) 0 @ Z, r + length R) \<and>
    block_map_wf q' \<and> free_blocks q' = free_blocks q \<union> get_block_number ` set R \<and> nr_blocks q' = nr_blocks q \<and>
    blocks_change q q'"
  using assms
proof (induction R arbitrary: A q r)
  case Nil
  then show ?case by (auto simp: defrag_free.simps [of q] u64_id)
next
  case (Cons e R)
  let ?b = "get_block_number e"
  have al: "0 < ?b" "?b < nr_blocks q" "?b \<notin> free_blocks q" using Cons.prems(5) by (auto simp: allocated_def)
  from balloc.release_ok [OF Cons.prems(1) al] obtain q1 where q1: "put_block q ?b = Some q1" "block_map_wf q1"
      "free_blocks q1 = insert ?b (free_blocks q)" "nr_blocks q1 = nr_blocks q" by blast
  have "\<forall>b \<in> get_block_number ` set R. allocated q1 b"
    using Cons.prems(4,5) q1(3,4) by (auto simp: allocated_def image_iff)
  then have "\<exists>q'. defrag_free q1 ((A @ [0]) @ R @ Z) blocks (int (length (A @ [0 :: entry]))) (Suc r) =
      Some (q', (A @ [0]) @ replicate (length R) 0 @ Z, Suc r + length R) \<and>
    block_map_wf q' \<and> free_blocks q' = free_blocks q1 \<union> get_block_number ` set R \<and> nr_blocks q' = nr_blocks q1 \<and>
    blocks_change q1 q'"
    using Cons.prems q1 by (intro Cons.IH) auto
  then obtain q' where IH: "defrag_free q1 (A @ 0 # R @ Z) blocks (int (length A) + 1) (Suc r) =
      Some (q', A @ 0 # replicate (length R) 0 @ Z, Suc r + length R)"
    "block_map_wf q'" "free_blocks q' = free_blocks q1 \<union> get_block_number ` set R" "nr_blocks q' = nr_blocks q1"
    "blocks_change q1 q'"
    by (auto simp: add.commute)
  have "u64 (int (length A)) < u64 (int blocks - 1)" using Cons.prems(2,3) by (simp add: u64_id)
  then have call: "defrag_free q (A @ (e # R) @ Z) blocks (int (length A)) r =
      Some (q', A @ replicate (length (e # R)) 0 @ Z, r + length (e # R))"
    using q1 IH(1) by (subst defrag_free.simps) (simp add: arr_mid)
  show ?case
  proof (intro exI [of _ q'] conjI)
    show "blocks_change q q'"
      using blocks_change_trans [OF blocks_change_alloc(2) [OF q1(1)] IH(5)] .
  qed (use call IH(2-4) q1 in auto)
qed

section \<open>The operation\<close>

lemma file_bread: "\<lbrakk>file_wf s ino; disk_ok env s; b \<in> file_blocks s ino\<rbrakk> \<Longrightarrow> bread_ok env b"
  by (auto simp: file_wf_def Let_def allocated_def disk_ok_def)

lemma defrag_first_pass:
  assumes wf: "fs_wf s" "file_wf s ino" and ok: "disk_ok env s" "ascending_memcpy env"
  defines "es \<equiv> data_entries s ino" and "I \<equiv> inodes s ino"
  shows "\<exists>e s1 P E bli x. arr (load_index s (index_block I)) 0 = Some e \<and>
    defrag_loop env (index_block I) (i_size I) (i_blocks I) s 0 (get_block_size e) (get_block_size e) = Some (0, bli, s1) \<and>
    same_file (index_block I) s es s1 (P @ E) \<and> (\<forall>e \<in> set P. \<not> block_empty e) \<and>
    (\<forall>e \<in> set (butlast P). get_block_size e = 4096) \<and> (\<forall>e \<in> set E. get_block_size e = 0) \<and>
    arr (load_index s1 (index_block I)) bli = Some x \<and> (if \<not> block_empty x then bli + 1 else bli) = int (length P)"
proof -
  note ix = file_index_split [OF wf, folded es_def I_def]
  let ?ib = "index_block I"
  have sz: "i_size I = total_size es" using wf(2) by (simp add: file_wf_def Let_def es_def I_def)
  have wb: "wf_bufs s" using wf(1) by (simp add: fs_wf_def)
  show ?thesis
  proof (cases es)
    case Nil
    have "load_index s ?ib = replicate 1024 0" using ix(1) Nil by simp
    then have "arr (load_index s ?ib) 0 = Some 0" by (simp add: arr_def)
    moreover have "defrag_loop env ?ib (i_size I) (i_blocks I) s 0 0 0 = Some (0, 0, s)"
      using sz Nil by (simp add: defrag_loop.simps)
    moreover have "same_file ?ib s es s ([] @ [])" using same_file_refl [OF wb, of ?ib es] ix(1) Nil by simp
    moreover have "block_empty 0" by (simp add: get_block_size_zero_iff [symmetric])
    ultimately show ?thesis
      by (intro exI [of _ 0] exI [of _ s] exI [of _ "[]"]) auto
  next
    case (Cons c R)
    have "arr (load_index s ?ib) 0 = Some c" using ix(1) Cons by (simp add: arr_def)
    have inv: "defrag_inv env ?ib (i_size I) (i_blocks I) s [] c R"
      using ix wb sz Cons file_bread [OF wf(2) ok(1)]
      by (auto simp: defrag_inv_def file_blocks_def es_def [symmetric] I_def)
    from defrag_loop_spec [OF ok(2) this] obtain s1 A' c' R' where L:
      "defrag_loop env ?ib (i_size I) (i_blocks I) s 0 (get_block_size c) (get_block_size c) = Some (0, int (length A'), s1)"
      "same_file ?ib s es s1 (A' @ c' # R')" "packed A' c' R'"
      using Cons by auto
    define P E where "P = (if block_empty c' then A' else A' @ [c'])" and "E = (if block_empty c' then c' # R' else R')"
    have PE: "P @ E = A' @ c' # R'" by (simp add: P_def E_def)
    have full: "\<forall>e \<in> set A'. get_block_size e = 4096" "\<forall>e \<in> set R'. get_block_size e = 0"
      using L(3) by (simp_all add: packed_def)
    have "\<forall>e \<in> set P. \<not> block_empty e" "\<forall>e \<in> set (butlast P). get_block_size e = 4096" "\<forall>e \<in> set E. get_block_size e = 0"
      using full by (auto simp: P_def E_def get_block_size_zero_iff [symmetric] dest: in_set_butlastD)
    moreover have "arr (load_index s1 ?ib) (int (length A')) = Some c'"
      using L(2) arr_mid [of A' c'] by (simp add: same_file_def)
    moreover have "(if \<not> block_empty c' then int (length A') + 1 else int (length A')) = int (length P)"
      by (simp add: P_def)
    ultimately show ?thesis
      using \<open>arr (load_index s ?ib) 0 = Some c\<close> L(1,2) unfolding PE [symmetric] by blast
  qed
qed

lemma ouichefs_defrag_eq:
  assumes wf: "fs_wf s" "file_wf s ino" and f: "f_inode f = ino" and ok: "disk_ok env s" "ascending_memcpy env"
  defines "es \<equiv> data_entries s ino" and "I \<equiv> inodes s ino"
  shows "\<exists>s1 P E q. ouichefs_defrag env f s = Some (0, write_back (index_block I) (mark_inode_dirty ino (set_inode ino
        (I\<lparr>i_blocks := Suc (length P), i_mtime := current_time env, i_ctime := current_time env\<rparr>)
        (store_index (index_block I) (P @ replicate (1024 - length P) 0) (s1\<lparr>sbi := q\<rparr>))))) \<and>
    same_file (index_block I) s es s1 (P @ E) \<and> (\<forall>e \<in> set P. \<not> block_empty e) \<and>
    (\<forall>e \<in> set (butlast P). get_block_size e = 4096) \<and> (\<forall>e \<in> set E. get_block_size e = 0) \<and>
    block_map_wf q \<and> free_blocks q = free_blocks (sbi s) \<union> get_block_number ` set E \<and> nr_blocks q = nr_blocks (sbi s) \<and>
    blocks_change (sbi s) q"
proof -
  note ix = file_index_split [OF wf, folded es_def I_def]
  let ?ib = "index_block I"
  from defrag_first_pass [OF wf ok, folded es_def I_def] obtain e s1 P E bli x where fp:
    "arr (load_index s ?ib) 0 = Some e"
    "defrag_loop env ?ib (i_size I) (i_blocks I) s 0 (get_block_size e) (get_block_size e) = Some (0, bli, s1)"
    and sf: "same_file ?ib s es s1 (P @ E)"
    and PE: "\<forall>e \<in> set P. \<not> block_empty e" "\<forall>e \<in> set (butlast P). get_block_size e = 4096" "\<forall>e \<in> set E. get_block_size e = 0"
    and x: "arr (load_index s1 ?ib) bli = Some x" "(if \<not> block_empty x then bli + 1 else bli) = int (length P)"
    by blast
  have len: "length P + length E = length es" using same_file_length [OF sf] by simp
  have s1: "sbi s1 = sbi s" "inodes s1 = inodes s" "load_index s1 ?ib = P @ E @ replicate (1024 - length es) 0"
    using sf by (simp_all add: same_file_def)
  have "distinct (map get_block_number E)" using same_file_distinct [OF sf] ix(6) by simp
  moreover have "\<forall>b \<in> get_block_number ` set E. allocated (sbi s) b"
  proof -
    have "\<forall>b \<in> get_block_number ` set es. allocated (sbi s) b"
      using data_entries_allocated [OF wf(2)] by (simp add: es_def)
    then show ?thesis using same_file_blocks [OF sf] by (metis Un_iff image_Un set_append)
  qed
  moreover have "block_map_wf (sbi s)" using wf(1) by (simp add: fs_wf_def)
  moreover have "i_blocks I = Suc (length P + length E)" "length P + length E \<le> 1024" using len ix by simp_all
  ultimately obtain q where q: "defrag_free (sbi s) (P @ E @ replicate (1024 - length es) 0) (i_blocks I) (int (length P)) 0 =
      Some (q, P @ replicate (length E) 0 @ replicate (1024 - length es) 0, 0 + length E)"
    "block_map_wf q" "free_blocks q = free_blocks (sbi s) \<union> get_block_number ` set E" "nr_blocks q = nr_blocks (sbi s)"
    "blocks_change (sbi s) q"
    using defrag_free_spec [of "sbi s" P E "i_blocks I" "replicate (1024 - length es) 0" 0] by blast
  have idx: "replicate (length E) 0 @ replicate (1024 - length es) 0 = replicate (1024 - length P) (0 :: entry)"
    using len ix(2) by (simp add: replicate_add [symmetric])
  have ibk: "u64 (int (i_blocks I) - int (length E)) = Suc (length P)"
    using len ix by (simp add: u64_id)
  have br: "bread_ok env ?ib" using file_bread [OF wf(2) ok(1) file_blocks_index] by (simp add: I_def)
  have "ouichefs_defrag env f s = Some (0, write_back ?ib (mark_inode_dirty ino (set_inode ino
        (I\<lparr>i_blocks := Suc (length P), i_mtime := current_time env, i_ctime := current_time env\<rparr>)
        (store_index ?ib (P @ replicate (1024 - length P) 0) (s1\<lparr>sbi := q\<rparr>)))))"
    unfolding ouichefs_defrag_def Let_def f I_def [symmetric]
    using br fp x q(1) s1 ibk idx by simp
  with sf PE q(2-5) show ?thesis by blast
qed

text \<open>
  What defragmentation does to a file system: the file keeps its content and loses its padding, the
  removed blocks are free again, and no other file is touched.
\<close>

lemma defrag_done:
  assumes fw: "files_wf s F" "ino \<in> F" and f: "f_inode f = ino" and ok: "disk_ok env s" "ascending_memcpy env"
  shows "\<exists>s'. ouichefs_defrag env f s = Some (0, s') \<and> file_content s' ino = file_content s ino \<and>
    i_size (inodes s' ino) = i_size (inodes s ino) \<and>
    (\<forall>e \<in> set (data_entries s' ino). \<not> block_empty e) \<and>
    (\<forall>e \<in> set (butlast (data_entries s' ino)). get_block_size e = 4096) \<and>
    files_wf s' F \<and> (\<forall>j \<in> F - {ino}. file_content s' j = file_content s j) \<and>
    free_blocks (sbi s') = free_blocks (sbi s) \<union> (file_blocks s ino - file_blocks s' ino) \<and>
    file_blocks s' ino \<subseteq> file_blocks s ino \<and> file_frame s ino s'"
proof -
  define I es ib where "I = inodes s ino" and "es = data_entries s ino" and "ib = index_block (inodes s ino)"
  have wf: "fs_wf s" "file_wf s ino" using fw by (auto simp: files_wf_def)
  note ix = file_index_split [OF wf, folded es_def ib_def]
  have ibI: "index_block I = ib" by (simp add: I_def ib_def)
  from ouichefs_defrag_eq [OF wf f ok, folded es_def I_def, unfolded ibI] obtain s1 P E q where call:
    "ouichefs_defrag env f s = Some (0, write_back ib (mark_inode_dirty ino (set_inode ino
        (I\<lparr>i_blocks := Suc (length P), i_mtime := current_time env, i_ctime := current_time env\<rparr>)
        (store_index ib (P @ replicate (1024 - length P) 0) (s1\<lparr>sbi := q\<rparr>)))))"
    and sf: "same_file ib s es s1 (P @ E)"
    and PE: "\<forall>e \<in> set P. \<not> block_empty e" "\<forall>e \<in> set (butlast P). get_block_size e = 4096" "\<forall>e \<in> set E. get_block_size e = 0"
    and q: "block_map_wf q" "free_blocks q = free_blocks (sbi s) \<union> get_block_number ` set E" "nr_blocks q = nr_blocks (sbi s)"
      "blocks_change (sbi s) q"
    by (elim exE conjE) (rule that)
  define s' where "s' = write_back ib (mark_inode_dirty ino (set_inode ino
        (I\<lparr>i_blocks := Suc (length P), i_mtime := current_time env, i_ctime := current_time env\<rparr>)
        (store_index ib (P @ replicate (1024 - length P) 0) (s1\<lparr>sbi := q\<rparr>))))"
  have lP: "length P \<le> 1024" using same_file_length [OF sf] ix(2) by simp
  have bl: "get_block_number ` set es = get_block_number ` set P \<union> get_block_number ` set E"
    using same_file_blocks [OF sf] by (simp add: image_Un)
  have d: "distinct (ib # map get_block_number (P @ E))" using same_file_distinct [OF sf] ix(6) by simp
  have dPE: "get_block_number ` set P \<inter> get_block_number ` set E = {}" "ib \<notin> get_block_number ` set P"
      "ib \<notin> get_block_number ` set E" using d by auto
  have s1: "wf_bufs s1" "fragments (bufs s1) (P @ E) = fragments (bufs s) es" "total_size (P @ E) = total_size es"
      "\<And>b. \<lbrakk>b \<noteq> ib; b \<notin> get_block_number ` set es\<rbrakk> \<Longrightarrow> bufs s1 b = bufs s b"
    using sf by (simp_all add: same_file_def)
  have E0: "fragments (bufs s1) E = []" "total_size E = 0"
    using PE(3) by (simp_all add: fragments_def fragment_empty total_size_zero)
  have ino': "inodes s' ino = I\<lparr>i_blocks := Suc (length P), i_mtime := current_time env, i_ctime := current_time env\<rparr>"
      "\<And>j. j \<noteq> ino \<Longrightarrow> inodes s' j = inodes s j" "sbi s' = q" "index_block I = ib"
    using sf by (simp_all add: s'_def I_def ib_def same_file_def)
  have li: "load_index s' ib = P @ replicate (1024 - length P) 0" using lP by (simp add: s'_def load_store_index)
  have bf: "bufs s' b = bufs s1 b" if "b \<noteq> ib" for b using that by (simp add: s'_def)
  have de: "data_entries s' ino = P" using li ino' lP by (simp add: data_entries_def)
  have fb: "file_blocks s' ino = insert ib (get_block_number ` set P)" "file_blocks s ino = insert ib (get_block_number ` set es)"
    using de ino' by (simp_all add: file_blocks_def ib_def es_def)
  have "fragments (bufs s') P = fragments (bufs s1) P"
    using fragments_agree [of ib "bufs s'" "bufs s1"] bf dPE(2) by blast
  then have fc: "file_content s' ino = file_content s ino"
    using s1(2) E0 de by (simp add: file_content_def es_def [symmetric])
  have fsw: "fs_wf s'"
    using wf(1) s1(1) q(1,3) ino'(3) lP by (simp add: fs_wf_def) (simp add: s'_def wf_bufs_store_index)
  have al: "allocated q b" if "allocated (sbi s) b" "b \<notin> get_block_number ` set E" for b
    using that q(2,3) by (simp add: allocated_def)
  have old: "allocated (sbi s) b" if "b \<in> file_blocks s ino" for b
    using that wf(2) by (simp add: file_wf_def Let_def)
  have fw': "file_wf s' ino"
  proof -
    have "0 \<notin> set P" using PE(1) by (auto simp: get_block_size_zero_iff [symmetric])
    then have "index_wf ib (length P) (P @ replicate (1024 - length P) 0)"
      using lP d by (auto simp: index_wf_def)
    moreover have "allocated q b" if "b \<in> file_blocks s' ino" for b
      using that fb bl dPE by (intro al old) auto
    moreover have "i_size I = total_size P"
      using wf(2) s1(3) E0 by (simp add: file_wf_def Let_def I_def es_def)
    ultimately show ?thesis using ino' li de unfolding file_wf_def Let_def by simp
  qed
  have keep: "bufs s' b = bufs s b \<and> allocated (sbi s') b" if "allocated (sbi s) b" "b \<notin> file_blocks s ino" for b
    using that fb(2) bl s1(4) [of b] bf [of b] al [of b] ino'(3) by auto
  have sub: "file_blocks s' ino \<subseteq> file_blocks s ino" using fb bl by auto
  from files_wf_update [OF fw fsw fw' _ ino'(2) keep] sub
  have oth: "files_wf s' F" "\<forall>j \<in> F - {ino}. file_content s' j = file_content s j" by auto
  have "free_blocks (sbi s') = free_blocks (sbi s) \<union> (file_blocks s ino - file_blocks s' ino)"
    using q(2) ino'(3) fb bl dPE by auto
  moreover have "bufs s' b = bufs s b" if "b \<notin> file_blocks s ino" for b
    using that fb(2) s1(4) [of b] bf [of b] by simp
  with calculation have "file_frame s ino s'"
    using ino' q(4) sub unfolding file_frame_def by (auto simp: I_def ib_def)
  ultimately show ?thesis
    using call [folded s'_def] fc oth PE sub de ino'(1) by (intro exI [of _ s']) (simp add: I_def)
qed

lemma packed_length:
  assumes "\<forall>e \<in> set P. \<not> block_empty e" "\<forall>e \<in> set (butlast P). get_block_size e = 4096" "length P \<le> 1024"
  shows "length P = idiv_ceil (nat (total_size P)) 4096"
proof (cases P rule: rev_cases)
  case Nil
  then show ?thesis by (simp add: idiv_ceil_def)
next
  case (snoc Q e)
  have Q: "total_size Q = 4096 * int (length Q)"
    using assms(2) snoc by (induction Q arbitrary: P) (simp_all add: algebra_simps)
  have e: "0 < get_block_size e" using assms(1) snoc get_block_size_zero_iff [of e] get_block_size_nonneg [of e]
    by (simp add: order_less_le)
  define t where "t = nat (total_size P)"
  have t: "4096 * length Q < t" "t \<le> 4096 * length P" "t < 2 ^ 32"
    using Q e snoc total_size_bound [of P] assms(3) by (auto simp: t_def)
  have "idiv_ceil t 4096 \<le> length P" using t by (intro idiv_ceil_least) simp_all
  moreover have "t \<le> idiv_ceil t 4096 * 4096" using t by (intro idiv_ceil_covers) simp_all
  ultimately show ?thesis using t(1) snoc by (simp add: t_def)
qed

section \<open>Correctness\<close>


lemma demo_defrag: "disk_ok demo_env s" "ascending_memcpy demo_env" "f_inode (demo_file ino) = ino"
  by (simp_all add: disk_ok_def demo_env_def ascending_memcpy_def demo_file_def)


lemma defrag_packed:
  assumes "files_wf s F" "ino \<in> F" "f_inode f = ino" "disk_ok env s" "ascending_memcpy env"
  shows "\<exists>s'. ouichefs_defrag env f s = Some (0, s') \<and> files_wf s' F \<and>
    i_size (inodes s' ino) = i_size (inodes s ino) \<and>
    (\<forall>e \<in> set (butlast (data_entries s' ino)). get_block_size e = 4096) \<and>
    (\<forall>e \<in> set (data_entries s' ino). \<not> block_empty e) \<and>
    i_blocks (inodes s' ino) = 1 + idiv_ceil (nat (i_size (inodes s ino))) 4096"
proof -
  from defrag_done [OF assms] obtain s' where s': "ouichefs_defrag env f s = Some (0, s')"
    "i_size (inodes s' ino) = i_size (inodes s ino)" "\<forall>e \<in> set (data_entries s' ino). \<not> block_empty e"
    "\<forall>e \<in> set (butlast (data_entries s' ino)). get_block_size e = 4096" "files_wf s' F"
    by blast
  have wf: "fs_wf s'" "file_wf s' ino" using s'(5) assms(2) by (auto simp: files_wf_def)
  note ix = file_index_split [OF wf]
  have "i_size (inodes s' ino) = total_size (data_entries s' ino)" using wf(2) by (simp add: file_wf_def Let_def)
  then show ?thesis using packed_length [OF s'(3,4) ix(2)] ix(3,4) s' by auto
qed



text \<open>
  The blocks that defragmentation takes from the file become free, and nothing else changes in
  the set of free blocks.
\<close>

theorem defrag_returns_blocks:
  assumes "files_wf s F" "ino \<in> F" "f_inode f = ino" "disk_ok env s" "ascending_memcpy env"
  shows "\<exists>s'. ouichefs_defrag env f s = Some (0, s') \<and> file_blocks s' ino \<subseteq> file_blocks s ino \<and>
    free_blocks (sbi s') = free_blocks (sbi s) \<union> (file_blocks s ino - file_blocks s' ino)"
  using defrag_done [OF assms] by blast

theorem defrag_returns_blocks_witness:
  "\<exists>s'. ouichefs_defrag demo_env (demo_file 3) demo_fs = Some (0, s') \<and>
     free_blocks (sbi s') = {10, 11, 12, 13, 14, 15} \<union> ({7, 8, 9} - file_blocks s' 3)"
  using defrag_returns_blocks [OF demo_files_wf _ demo_defrag(3,1,2), of 3]
  by (auto simp: demo_free demo_wf(5))

section \<open>Files without fragment sizes\<close>

text \<open>
  The plain write of write.c leaves the size fields of the index empty. On such a file the first
  pass bubbles the second block forever.
\<close>

definition stuck :: "nat \<Rightarrow> nat \<Rightarrow> fs \<Rightarrow> bool" where
  "stuck ib n s \<longleftrightarrow> wf_bufs s \<and> n \<le> 1024 \<and> (\<forall>e \<in> set (take n (load_index s ib)). block_empty e)"

lemma stuck_bubble:
  assumes st: "stuck ib n s" and b: "bubble_up_block (load_index s ib) 1 (int n) = Some idx" and n: "2 \<le> n"
  shows "stuck ib n (store_index ib idx s)"
proof -
  define L where "L = load_index s ib"
  have len: "length L = 1024" using st by (simp add: stuck_def L_def)
  obtain a e R where L: "take n L = [a] @ e # R" using n len st
    by (metis One_nat_def Suc_1 append_Cons append_Nil length_take min.absorb2 stuck_def
        Suc_le_length_iff)
  define Z where "Z = drop n L"
  have LZ: "L = [a] @ e # R @ Z" using L append_take_drop_id [of n L] by (simp add: Z_def)
  have nR: "n = Suc (Suc (length R))" using arg_cong [OF L, of length] len st by (simp add: stuck_def)
  have "bubble_up_block L 1 (int n) = Some ([a] @ R @ e # Z)"
    unfolding bubble_up_block_def LZ nR using bubble_loop_spec [of "[a]" e R Z] by simp
  then have idx: "idx = [a] @ R @ e # Z" using b by (simp add: L_def)
  have "take n idx = a # R @ [e]" using nR idx by simp
  moreover have "length idx = 1024" using idx LZ len by simp
  ultimately show ?thesis using st L unfolding stuck_def L_def
    by (auto simp: load_store_index wf_bufs_store_index)
qed

definition looping :: "kenv \<Rightarrow> nat \<Rightarrow> int \<Rightarrow> nat \<Rightarrow> fs \<Rightarrow> int \<Rightarrow> int \<Rightarrow> int \<Rightarrow> bool" where
  "looping env ib fsize blocks s bli dm lp \<longleftrightarrow>
     stuck ib (blocks - 1) s \<and> 3 \<le> blocks \<and> blocks \<le> 1025 \<and> bli = 0 \<and> dm < fsize"

lemma defrag_loop_stuck:
  assumes "defrag_loop env ib fsize blocks s bli dm lp = Some r"
  shows "\<not> looping env ib fsize blocks s bli dm lp"
proof (rule defrag_loop.raw_induct [where P = "\<lambda>env ib fsize blocks s bli dm lp r. \<not> looping env ib fsize blocks s bli dm lp",
      OF _ assms], rule notI)
  fix loop env ib fsize blocks s bli dm lp r
  assume IH: "\<And>env ib fsize blocks s bli dm lp r.
      loop env ib fsize blocks s bli dm lp = Some r \<Longrightarrow> \<not> looping env ib fsize blocks s bli dm lp"
    and body: "(if dm < fsize \<and> u64 bli < u64 (int blocks - 2) then
        do { e \<leftarrow> arr (load_index s ib) (bli + 1);
             if block_empty e then
               do { idx \<leftarrow> bubble_up_block (load_index s ib) (bli + 1) (s32 (int blocks - 1));
                    loop env ib fsize blocks (store_index ib idx s) bli dm lp }
             else
               do { (block_moved, s) \<leftarrow> move_shift_block_content_to env ib (bli + 1) bli lp s;
                    if block_moved < 0 then Some (- EIO, bli, s)
                    else if lp + block_moved = int OUICHEFS_BLOCK_SIZE then
                      do { e \<leftarrow> arr (load_index s ib) (bli + 1);
                           loop env ib fsize blocks s (bli + 1)
                             (dm + block_moved + get_block_size e) (get_block_size e) }
                    else loop env ib fsize blocks s bli (dm + block_moved) (lp + block_moved) } }
      else Some (0, bli, s)) = Some r"
    and "looping env ib fsize blocks s bli dm lp"
  then have l: "stuck ib (blocks - 1) s" "3 \<le> blocks" "blocks \<le> 1025" "bli = 0" "dm < fsize"
    by (simp_all add: looping_def)
  let ?n = "blocks - 1"
  have u: "u64 0 < u64 (int blocks - 2)" "s32 (int blocks - 1) = int ?n"
    using l by (simp_all add: u64_id s32_id)
  have len: "length (load_index s ib) = 1024" using l(1) by (simp add: stuck_def)
  define e where "e = load_index s ib ! 1"
  have "take ?n (load_index s ib) ! 1 \<in> set (take ?n (load_index s ib))"
    using len l by (intro nth_mem) simp
  then have e: "arr (load_index s ib) 1 = Some e" "block_empty e"
    using len l by (auto simp: arr_def stuck_def e_def)
  then obtain idx where idx: "bubble_up_block (load_index s ib) 1 (int ?n) = Some idx"
    "loop env ib fsize blocks (store_index ib idx s) 0 dm lp = Some r"
    using body u l(4,5) by (auto split: bind_splits)
  from stuck_bubble [OF l(1) idx(1)] l have "looping env ib fsize blocks (store_index ib idx s) 0 dm lp"
    by (simp add: looping_def)
  with IH [OF idx(2)] show False ..
qed

text \<open>
  C16: On a file whose index has no sizes (every used entry empty, as \<open>ouichefs_write\<close> leaves them),
  with at least two data blocks and a positive size, \<open>ouichefs_defrag\<close> never returns.
\<close>

theorem defrag_diverges_on_plain_files:
  assumes "wf_bufs s" "f_inode f = ino" "bread_ok env (index_block (inodes s ino))"
    and "3 \<le> i_blocks (inodes s ino)" "i_blocks (inodes s ino) \<le> 1025" "0 < i_size (inodes s ino)"
    and "\<forall>e \<in> set (data_entries s ino). block_empty e"
  shows "ouichefs_defrag env f s = None"
proof -
  let ?I = "inodes s ino" and ?L = "load_index s (index_block (inodes s ino))"
  have st: "stuck (index_block ?I) (i_blocks ?I - 1) s"
    using assms by (simp add: stuck_def data_entries_def)
  have len: "length ?L = 1024" using assms(1) by simp
  have "take (i_blocks ?I - 1) ?L ! 0 \<in> set (take (i_blocks ?I - 1) ?L)"
    using len assms(4) by (intro nth_mem) simp
  then have "block_empty (?L ! 0)" using assms(4,7) by (simp add: data_entries_def)
  then have "arr ?L 0 = Some (?L ! 0)" "get_block_size (?L ! 0) = 0"
    using len by (simp_all add: arr_def get_block_size_zero_iff)
  moreover have "defrag_loop env (index_block ?I) (i_size ?I) (i_blocks ?I) s 0 0 0 = None"
    using defrag_loop_stuck st assms(4-6) by (metis looping_def not_None_eq)
  ultimately show ?thesis using assms(2,3) by (simp add: ouichefs_defrag_def Let_def)
qed

theorem defrag_diverges_witness:
  "ouichefs_defrag demo_env (demo_file 3)
     (store_index 7 (demo_entry 8 0 # demo_entry 9 0 # replicate 1022 0) demo_fs) = None"
proof -
  let ?s = "store_index 7 (demo_entry 8 0 # demo_entry 9 0 # replicate 1022 0) demo_fs"
  have "wf_bufs ?s" using demo_wf(1) by (simp add: fs_wf_def wf_bufs_store_index)
  moreover have "data_entries ?s 3 = [demo_entry 8 0, demo_entry 9 0]"
    by (simp add: data_entries_def load_store_index)
  ultimately show ?thesis
    using defrag_diverges_on_plain_files [of ?s "demo_file 3" 3 demo_env] demo_defrag(3)
    by (simp add: demo_env_def get_block_size_zero_iff [symmetric])
qed

end
