(* ===== verification/LightRead.thy ===== *)
theory LightRead
  imports Read Demo
begin

text \<open>
  The contract of \<open>ouichefs_light_read\<close> on files without empty fragments, its results at the end of
  the file, and the two places where it reads less than the file holds.
\<close>

lemma takeWhile_all: "\<forall>x \<in> set xs. P x \<Longrightarrow> takeWhile P xs = xs"
  by (simp add: takeWhile_eq_all_conv)

lemma readable_content:
  assumes "fs_wf s" "located (data_entries s ino) pos i p" "i < length (data_entries s ino)"
    and "p < get_block_size (data_entries s ino ! i)" "\<forall>e \<in> set (data_entries s ino). \<not> block_empty e"
  shows "readable (bufs s) (data_entries s ino) i p = drop (nat pos) (file_content s ino)"
proof -
  have "\<And>b. length (bufs s b) = 4096" using assms(1) by (simp add: fs_wf_def wf_bufs_length)
  from located_split(2) [of "bufs s", OF this assms(2,3)]
  have "drop (nat pos) (file_content s ino) =
      drop (nat p) (fragment (bufs s) (data_entries s ino ! i)) @ fragments (bufs s) (drop (Suc i) (data_entries s ino))"
    by (simp add: file_content_def)
  moreover have "takeWhile (\<lambda>e. \<not> block_empty e) (drop (Suc i) (data_entries s ino)) = drop (Suc i) (data_entries s ino)"
    using assms(5) by (intro takeWhile_all) (auto dest: in_set_dropD)
  ultimately show ?thesis unfolding readable_def using assms(3,4) by presburger
qed

text \<open>
  C10: On a well-formed file without empty fragments, a read at a position strictly inside a fragment
  returns the next \<open>sz\<close> bytes of the file content, or all that is left of it, in the user buffer,
  and advances the position by their number, across any number of fragments.
\<close>

theorem light_read_content:
  assumes "fs_wf s" "file_wf s ino" "f_inode f = ino" "read_flags f = 0" "io_ok env s ino"
    and "0 \<le> pos" "pos \<le> i_size (inodes s ino)" "length buff = sz"
    and "located (data_entries s ino) pos i p" "i < length (data_entries s ino)"
    and "p < get_block_size (data_entries s ino ! i)" "\<forall>e \<in> set (data_entries s ino). \<not> block_empty e"
  shows "ouichefs_light_read env f buff sz pos s =
    (let d = take sz (drop (nat pos) (file_content s ino))
     in Some (int (length d), pos + int (length d), overlay buff 0 d))"
  using light_read_located [OF assms(1-7,9,8)] readable_content [OF assms(1,9-12)] by simp

lemma demo_read: "io_ok demo_env s ino" "read_flags (demo_file ino) = 0" "f_inode (demo_file ino) = ino"
  by (simp_all add: io_ok_def demo_env_def read_flags_def demo_file_def O_RDWR_def O_WRONLY_def)

lemma demo_nonempty: "\<lbrakk>b < 2 ^ 19; 0 < sz; sz \<le> 4096\<rbrakk> \<Longrightarrow> \<not> block_empty (demo_entry b sz)"
  using get_block_size_zero_iff [of "demo_entry b sz"] by simp

theorem light_read_content_witness:
  "ouichefs_light_read demo_env (demo_file 3) [0, 0, 0] 3 1 demo_fs = Some (3, 4, [2, 3, 4])"
  using light_read_content [OF demo_wf(1,3) demo_read(3,2,1), of 1 "[0, 0, 0]" 3 0 1]
  by (simp add: located_def demo_nonempty overlay_def)

text \<open>
  C11: At a position that is the end of a fragment, a read delivers nothing: the search stops at the
  end of the fragment that precedes the position and the loop finds no byte there. The result is
  0, which a caller takes for the end of the file, whatever follows.
\<close>

theorem light_read_fragment_end:
  assumes "fs_wf s" "file_wf s ino" "f_inode f = ino" "read_flags f = 0" "io_ok env s ino"
    and "0 \<le> pos" "pos \<le> i_size (inodes s ino)" "length buff = sz"
    and "i < length (data_entries s ino)" "0 < get_block_size (data_entries s ino ! i)"
    and "pos = total_size (take (Suc i) (data_entries s ino))"
  shows "ouichefs_light_read env f buff sz pos s = Some (0, pos, buff)"
proof -
  let ?es = "data_entries s ino"
  have "take (Suc i) ?es = take i ?es @ [?es ! i]" using assms(9) by (simp add: take_Suc_conv_app_nth)
  then have "pos = total_size (take i ?es) + get_block_size (?es ! i)" using assms(11) by simp
  moreover have "0 < pos" using calculation assms(10) total_size_nonneg [of "take i ?es"] by linarith
  ultimately have "located ?es pos i (get_block_size (?es ! i))" using assms(9,10) by (simp add: located_def)
  from light_read_located [OF assms(1-7) this assms(8)] show ?thesis by (simp add: readable_def)
qed

theorem light_read_fragment_end_witness:
  "ouichefs_light_read demo_env (demo_file 3) [0, 0] 2 3 demo_fs = Some (0, 3, [0, 0]) \<and>
   drop 3 (file_content demo_fs 3) = [4, 5]"
proof -
  have "3 = total_size (take (Suc 0) (data_entries demo_fs 3))" by simp
  from light_read_fragment_end [OF demo_wf(1,3) demo_read(3,2,1) _ _ _ _ _ this, of "[0, 0]" 2]
  show ?thesis by simp
qed

text \<open>At the end of the file and beyond it, a read returns 0 and changes nothing.\<close>

theorem light_read_eof:
  assumes "fs_wf s" "file_wf s ino" "f_inode f = ino" "read_flags f = 0" "io_ok env s ino"
    and "i_size (inodes s ino) \<le> pos" "pos < 2147483648" "length buff = sz"
  shows "ouichefs_light_read env f buff sz pos s = Some (0, pos, buff)"
proof (cases "pos = i_size (inodes s ino)")
  case True
  define n where "n = i_blocks (inodes s ino) - 1"
  note idx = file_wf_index [OF assms(1,2), folded n_def]
  have pos: "0 \<le> pos" "pos = total_size (data_entries s ino)" using True idx by simp_all
  from find_block_pos_located [of n _ pos] obtain i p where loc: "located (data_entries s ino) pos i p"
    using assms(7) pos idx by (metis order_refl)
  have "int (length (readable (bufs s) (data_entries s ino) i p)) = 0"
  proof (cases "i < length (data_entries s ino) \<and> p < get_block_size (data_entries s ino ! i)")
    case True
    then have "take (Suc i) (data_entries s ino) = take i (data_entries s ino) @ [data_entries s ino ! i]"
      by (simp add: take_Suc_conv_app_nth)
    then have "pos < total_size (take (Suc i) (data_entries s ino))" using True loc by (auto simp: located_def)
    then show ?thesis using total_size_take_le [of "Suc i" "data_entries s ino"] pos by linarith
  qed (auto simp: readable_def)
  then show ?thesis
    using light_read_located [OF assms(1-5) pos(1) _ loc assms(8)] True by simp
next
  case False
  then show ?thesis using light_read_beyond [OF assms(1-5)] assms(6,7) by simp
qed

theorem light_read_eof_witness:
  "ouichefs_light_read demo_env (demo_file 2) [9] 1 5 demo_fs = Some (0, 5, [9])"
  using light_read_eof [OF demo_wf(1,2) demo_read(3,2,1), of 5 "[9]" 1] by simp

end
