(* ===== verification/Simulation.thy ===== *)
theory Simulation
  imports Prelude
begin

text \<open>
  Sequences of labelled steps, and refinement between two step relations through an abstraction
  function: what has to be shown of one step, and what then holds of every sequence of steps.
\<close>

inductive run :: "('s \<Rightarrow> 'op \<Rightarrow> 'r \<Rightarrow> 's \<Rightarrow> bool) \<Rightarrow> 's \<Rightarrow> ('op \<times> 'r) list \<Rightarrow> 's \<Rightarrow> bool"
  for step where
  Run_done: "run step s [] s"
| Run_more: "\<lbrakk>step s op r t; run step t tr u\<rbrakk> \<Longrightarrow> run step s ((op, r) # tr) u"

inductive_cases run_NilE: "run step s [] s'"
inductive_cases run_ConsE: "run step s ((op, r) # tr) s'"

lemma run_one: "step s op r t \<Longrightarrow> run step s [(op, r)] t"
  by (auto intro: run.intros)

lemma run_append: "\<lbrakk>run step s tr t; run step t us u\<rbrakk> \<Longrightarrow> run step s (tr @ us) u"
  by (induction rule: run.induct) (auto intro: run.intros)

lemma run_invariant:
  assumes "run step s tr s'" "I s" "\<And>s op r t. \<lbrakk>step s op r t; I s\<rbrakk> \<Longrightarrow> I t"
  shows "I s'"
  using assms(1,2) by (induction rule: run.induct) (use assms(3) in blast)+

text \<open>
  Calls are made only when the abstract state allows them (\<open>valid\<close>): what a caller has to respect.
\<close>

definition guarded ::
    "('s \<Rightarrow> 'a) \<Rightarrow> ('a \<Rightarrow> 'op \<Rightarrow> bool) \<Rightarrow> ('s \<Rightarrow> 'op \<Rightarrow> 'r \<Rightarrow> 's \<Rightarrow> bool) \<Rightarrow> 's \<Rightarrow> 'op \<Rightarrow> 'r \<Rightarrow> 's \<Rightarrow> bool" where
  "guarded view valid step s op r s' \<longleftrightarrow> valid (view s) op \<and> step s op r s'"

lemma run_guarded:
  "\<lbrakk>run step s tr s'; \<forall>(op, r) \<in> set tr. valid op\<rbrakk> \<Longrightarrow> run (guarded view (\<lambda>_. valid) step) s tr s'"
  by (induction rule: run.induct) (auto simp: guarded_def intro: run.intros)

locale simulation =
  fixes cstep :: "'s \<Rightarrow> 'op \<Rightarrow> 'r \<Rightarrow> 's \<Rightarrow> bool"
    and astep :: "'a \<Rightarrow> 'op \<Rightarrow> 'r \<Rightarrow> 'a \<Rightarrow> bool"
    and view :: "'s \<Rightarrow> 'a"
    and invar :: "'s \<Rightarrow> bool"
    and valid :: "'a \<Rightarrow> 'op \<Rightarrow> bool"
  assumes step_keeps: "\<lbrakk>invar s; valid (view s) op; cstep s op r s'\<rbrakk> \<Longrightarrow> invar s'"
    and step_simulates: "\<lbrakk>invar s; valid (view s) op; cstep s op r s'\<rbrakk> \<Longrightarrow> astep (view s) op r (view s')"
begin

lemma run_keeps: "\<lbrakk>run (guarded view valid cstep) s tr s'; invar s\<rbrakk> \<Longrightarrow> invar s'"
  by (erule run_invariant) (auto simp: guarded_def intro: step_keeps)

lemma run_simulates:
  "\<lbrakk>run (guarded view valid cstep) s tr s'; invar s\<rbrakk> \<Longrightarrow> run astep (view s) tr (view s')"
  by (induction rule: run.induct) (auto simp: guarded_def intro: run.intros step_keeps step_simulates)

end

end
