(* ===== verification/Sessions.thy ===== *)
theory Sessions
  imports Fill Defrag LightRead Simulation
begin

text \<open>
  Sequences of calls on the regular files of a mounted file system: what the inserting write and
  the defragmentation promise of the byte sequences of the files, and that every sequence of
  calls of the module refines a sequence of those abstract steps.
\<close>

section \<open>The abstract files\<close>

text \<open>What a write may do to the bytes \<open>c\<close> of its file, with result \<open>r\<close>.\<close>

inductive write_spec :: "byte list \<Rightarrow> nat \<Rightarrow> byte list \<Rightarrow> int \<Rightarrow> byte list \<Rightarrow> bool" where
  Inserted: "pos \<le> length c \<Longrightarrow> write_spec c pos buff (int (length buff)) (take pos c @ buff @ drop pos c)"
| Appended: "\<lbrakk>length c < pos; length c + length junk = pos\<rbrakk> \<Longrightarrow> write_spec c pos buff (int (length buff)) (c @ junk @ buff)"
| Refused: "r \<in> {- ENOSPC, - ENODATA} \<Longrightarrow> write_spec c pos buff r c"
| Gap_only: "\<lbrakk>length c < pos; length c + length junk = pos\<rbrakk> \<Longrightarrow> write_spec c pos buff (- ENOSPC) (c @ junk)"

inductive_cases write_specE: "write_spec c pos buff r c'"

datatype call = Write "file" "byte list" int | Defragment "file"

text \<open>The bytes of the files \<open>F\<close>.\<close>

definition contents :: "nat set \<Rightarrow> fs \<Rightarrow> nat \<Rightarrow> byte list" where
  "contents F s ino = (if ino \<in> F then file_content s ino else [])"

inductive spec_step :: "(nat \<Rightarrow> byte list) \<Rightarrow> call \<Rightarrow> int \<Rightarrow> (nat \<Rightarrow> byte list) \<Rightarrow> bool" where
  Spec_write: "write_spec (c (f_inode f)) (if f_flags f AND O_APPEND \<noteq> 0 then length (c (f_inode f)) else nat pos) buff r d \<Longrightarrow>
     spec_step c (Write f buff pos) r (c(f_inode f := d))"
| Spec_defragment: "spec_step c (Defragment f) 0 c"

abbreviation spec_run :: "(nat \<Rightarrow> byte list) \<Rightarrow> (call \<times> int) list \<Rightarrow> (nat \<Rightarrow> byte list) \<Rightarrow> bool" where
  "spec_run \<equiv> run spec_step"

section \<open>The calls of the module\<close>

text \<open>A position is a non-negative \<open>loff_t\<close>, a size fits \<open>ssize_t\<close>.\<close>

fun valid_call :: "nat set \<Rightarrow> call \<Rightarrow> bool" where
  "valid_call F (Write f buff pos) \<longleftrightarrow> f_inode f \<in> F \<and> 0 \<le> pos \<and> pos < 2 ^ 63 \<and> length buff < 2 ^ 63"
| "valid_call F (Defragment f) \<longleftrightarrow> f_inode f \<in> F"

inductive fs_step :: "kenv \<Rightarrow> fs \<Rightarrow> call \<Rightarrow> int \<Rightarrow> fs \<Rightarrow> bool" for env where
  Do_write: "ouichefs_light_write env f buff (length buff) pos s = Some (r, pos', s') \<Longrightarrow>
     fs_step env s (Write f buff pos) r s'"
| Do_defragment: "ouichefs_defrag env f s = Some (r, s') \<Longrightarrow> fs_step env s (Defragment f) r s'"

abbreviation fs_run :: "kenv \<Rightarrow> fs \<Rightarrow> (call \<times> int) list \<Rightarrow> fs \<Rightarrow> bool" where
  "fs_run env \<equiv> run (fs_step env)"

inductive_cases fs_step_writeE: "fs_step env s (Write f buff pos) r s'"
inductive_cases fs_step_defragmentE: "fs_step env s (Defragment f) r s'"

section \<open>Every outcome of a light write\<close>

definition env_ok :: "kenv \<Rightarrow> bool" where
  "env_ok env \<longleftrightarrow> (\<forall>off len. uncopied env off len = 0) \<and> (\<forall>b. bread_ok env b) \<and> ascending_memcpy env"

lemma env_okD: "env_ok env \<Longrightarrow> disk_ok env s" "env_ok env \<Longrightarrow> ascending_memcpy env"
  by (simp_all add: env_ok_def disk_ok_def)

lemma located_exists:
  assumes "fs_wf s" "file_wf s ino" "0 \<le> pos" "pos \<le> i_size (inodes s ino)"
  obtains i p where "located (data_entries s ino) pos i p"
proof -
  note ix = file_wf_index [OF assms(1,2)]
  have "pos < 2147483648" using assms(4) file_size_bound [OF assms(1,2)] by linarith
  then show thesis
    using find_block_pos_located [of "i_blocks (inodes s ino) - 1" "load_index s (index_block (inodes s ino))" pos]
      ix assms(3,4) that by (metis)
qed

text \<open>The result of a step on file \<open>ino\<close>, seen from all files.\<close>

definition outcome :: "nat set \<Rightarrow> nat \<Rightarrow> nat \<Rightarrow> byte list \<Rightarrow> fs \<Rightarrow> (int \<times> int \<times> fs) option \<Rightarrow> bool" where
  "outcome F ino pos buff s res \<longleftrightarrow>
     (\<exists>r pos' s'. res = Some (r, pos', s') \<and> write_spec (file_content s ino) pos buff r (file_content s' ino) \<and>
        files_wf s' F \<and> (\<forall>j \<in> F - {ino}. file_content s' j = file_content s j) \<and> file_frame s ino s')"

lemma outcome_same:
  assumes "files_wf s F" "r \<in> {- ENOSPC, - ENODATA}"
    and "bufs s' = bufs s" "sbi s' = sbi s" "inodes s' = inodes s"
  shows "outcome F ino pos buff s (Some (r, pos', s'))"
  using assms(1,2) files_wf_cong [OF assms(3-5)] file_frame_cong [OF assms(3-5)] by (auto simp: outcome_def intro: Refused)

lemma outcome_inside:
  assumes fw: "files_wf s F" "ino \<in> F" and ino: "f_inode f = ino" and ok: "disk_ok env s"
    and wp: "write_pos f pos s = wp" "0 \<le> wp" "wp \<le> i_size (inodes s ino)" "wp + int (length buff) \<le> 4194304"
  shows "outcome F ino (nat wp) buff s (ouichefs_light_write env f buff (length buff) pos s)"
proof -
  have wf: "fs_wf s" "file_wf s ino" using fw by (auto simp: files_wf_def)
  obtain i p where loc: "located (data_entries s ino) wp i p" using located_exists [OF wf wp(2,3)] .
  define m where "m = reserved_blocks (data_entries s ino) (length buff) i p"
  define ib where "ib = index_block (inodes s ino)"
  note ins = light_write_insert [OF wf ino ok wp loc refl, folded m_def ib_def]
  have len: "nat wp \<le> length (file_content s ino)" using file_content_length [OF wf] wp(3) by simp
  show ?thesis
  proof (cases "length (data_entries s ino) + m \<le> 1024 \<and> m \<le> nr_free_blocks (sbi s)")
    case False
    then have "ouichefs_light_write env f buff (length buff) pos s = Some (- ENOSPC, wp, write_back ib s)"
      using ins(1) by auto
    then show ?thesis using outcome_same [OF fw(1)] by simp
  next
    case True
    then have fit: "length (data_entries s ino) + m \<le> 1024" "m \<le> nr_free_blocks (sbi s)" by auto
    show ?thesis
    proof (cases "p < 4096 \<or> length buff = 0")
      case True
      from light_write_done [OF fw ino ok wp loc True refl fit [unfolded m_def]]
      show ?thesis using len by (auto simp: outcome_def intro!: Inserted)
    next
      case False
      then have "p = 4096" "0 < length buff" using located_bounds [OF loc] by auto
      from ins(3) [OF fit this] obtain s4 ns where s4:
        "ouichefs_light_write env f buff (length buff) pos s = Some (- ENODATA, wp, write_back ib s4)"
        "grown s ino m 0 s4 ns" "fragments (bufs s4) ns = file_content s ino" by blast
      have i4: "inodes s4 = (inodes s)(ino := (inodes s ino)\<lparr>i_blocks := i_blocks (inodes s ino) + m\<rparr>)"
        using s4(2) by (simp add: grown_def Let_def)
      let ?s' = "write_back ib s4"
      have "bufs ?s' = bufs s4" "sbi ?s' = sbi s4" "\<And>j. j \<noteq> ino \<Longrightarrow> inodes ?s' j = inodes s4 j"
        "index_block (inodes ?s' ino) = index_block (inodes s ino)"
        "i_blocks (inodes ?s' ino) = i_blocks (inodes s ino) + m" "i_size (inodes ?s' ino) = i_size (inodes s ino) + 0"
        "i_mode (inodes ?s' ino) = i_mode (inodes s ino)"
        using i4 by simp_all
      note this = grown_file_wf [OF wf s4(2) this(1,2,4-6)] grown_others [OF fw s4(2) this(1-6)] grown_frame [OF wf s4(2) this]
      then show ?thesis using s4(1,3) by (auto simp: outcome_def intro: Refused)
    qed
  qed
qed

text \<open>The one case in which a write leaves the memory it may read (lemma \<open>light_write_past_index\<close>).\<close>

definition past_index :: "fs \<Rightarrow> nat \<Rightarrow> int \<Rightarrow> bool" where
  "past_index s ino wp \<longleftrightarrow>
     (let es = data_entries s ino; n = wp - i_size (inodes s ino) in
      0 < n \<and> gap_blocks es n \<le> nr_free_blocks (sbi s) \<and> length es + gap_blocks es n = 1024 \<and> gap_end es n = 4096)"

lemma outcome_beyond:
  assumes fw: "files_wf s F" "ino \<in> F" and ino: "f_inode f = ino" and ok: "disk_ok env s"
    and wp: "write_pos f pos s = wp" "i_size (inodes s ino) < wp" "wp + int (length buff) \<le> 4194304"
    and pi: "\<not> past_index s ino wp"
  shows "outcome F ino (nat wp) buff s (ouichefs_light_write env f buff (length buff) pos s)"
proof -
  have wf: "fs_wf s" "file_wf s ino" using fw by (auto simp: files_wf_def)
  define es n where "es = data_entries s ino" and "n = wp - i_size (inodes s ino)"
  define m where "m = gap_blocks es n + gap_write_blocks es n (length buff)"
  have len: "int (length (file_content s ino)) = i_size (inodes s ino)" using file_content_length [OF wf] .
  have junk: "length (file_content s ino) < nat wp" "length (file_content s ino) + length junk = nat wp"
    if "int (length junk) = n" for junk :: "byte list" using that len wp(2) by (auto simp: n_def)
  show ?thesis
  proof (cases "length es + gap_blocks es n \<le> 1024 \<and> gap_blocks es n \<le> nr_free_blocks (sbi s)")
    case False
    then have "ouichefs_light_write env f buff (length buff) pos s = Some (- ENOSPC, wp, write_back (index_block (inodes s ino)) s)"
      by (intro beyond_unfold(1) [OF fw ino ok wp]) (auto simp: es_def n_def)
    then show ?thesis using outcome_same [OF fw(1)] by simp
  next
    case True
    then have gap: "length es + gap_blocks es n \<le> 1024" "gap_blocks es n \<le> nr_free_blocks (sbi s)" by auto
    note lb = light_write_beyond [OF fw ino ok wp refl gap [unfolded es_def n_def], folded es_def n_def, folded m_def]
    have "gap_end es n = 4096 \<longrightarrow> length es + gap_blocks es n < 1024"
      using pi gap wp(2) by (auto simp: past_index_def Let_def es_def n_def)
    then show ?thesis
    proof (cases "length es + m \<le> 1024 \<and> m \<le> nr_free_blocks (sbi s)")
      case True
      then show ?thesis using lb(1) junk by (auto simp: outcome_def intro!: Appended)
    next
      case False
      then show ?thesis using lb(2) \<open>gap_end es n = 4096 \<longrightarrow> _\<close> junk by (auto simp: outcome_def intro!: Gap_only)
    qed
  qed
qed

lemma light_write_too_big:
  assumes "write_pos f pos s = wp" "0 \<le> wp" "4194304 < wp + int sz" "wp + int sz < 2 ^ 64"
  shows "ouichefs_light_write env f buff sz pos s = Some (- ENOSPC, wp, s)"
proof -
  have "u64 (wp + int sz) = nat (wp + int sz)" using assms by (intro u64_id) auto
  then have "OUICHEFS_MAX_FILESIZE < u64 (wp + int sz)" using assms(3) by (simp add: OUICHEFS_MAX_FILESIZE_def)
  then show ?thesis using assms write_flags_eq [of f pos s]
    by (simp add: ouichefs_light_write_def Let_def)
qed

lemma write_outcome:
  assumes fw: "files_wf s F" "valid_call F (Write f buff pos)" and ok: "env_ok env"
  defines "ino \<equiv> f_inode f" and "wp \<equiv> write_pos f pos s"
  shows "if past_index s ino wp \<and> wp + int (length buff) \<le> 4194304
    then ouichefs_light_write env f buff (length buff) pos s = None
    else outcome F ino (nat wp) buff s (ouichefs_light_write env f buff (length buff) pos s)"
proof -
  have F: "ino \<in> F" using fw(2) by (simp add: ino_def)
  then have wf: "fs_wf s" "file_wf s ino" using fw by (auto simp: files_wf_def)
  have sz: "0 \<le> i_size (inodes s ino)" "i_size (inodes s ino) \<le> 4194304"
    using wf file_size_bound [OF wf] by (simp_all add: file_wf_def Let_def)
  have wp: "0 \<le> wp" "wp < 2 ^ 63" using sz fw(2) by (auto simp: wp_def write_pos_def ino_def)
  have d: "disk_ok env s" using ok by (rule env_okD)
  have len: "int (length buff) < 2 ^ 63" using fw(2) by simp
  have w: "write_pos f pos s = wp" and i: "f_inode f = ino" by (simp_all add: wp_def ino_def)
  consider "4194304 < wp + int (length buff)" | "wp + int (length buff) \<le> 4194304" "wp \<le> i_size (inodes s ino)"
    | "wp + int (length buff) \<le> 4194304" "i_size (inodes s ino) < wp" "\<not> past_index s ino wp"
    | "wp + int (length buff) \<le> 4194304" "past_index s ino wp" by linarith
  then show ?thesis
  proof cases
    case 1
    have "ouichefs_light_write env f buff (length buff) pos s = Some (- ENOSPC, wp, s)"
      using light_write_too_big [OF w wp(1) 1] wp(2) len by simp
    then show ?thesis using 1 outcome_same [OF fw(1)] by simp
  next
    case 2
    then have "\<not> past_index s ino wp" by (simp add: past_index_def Let_def)
    then show ?thesis using outcome_inside [OF fw(1) F i d w wp(1)] 2 by simp
  next
    case 3
    then show ?thesis using outcome_beyond [OF fw(1) F i d w] by simp
  next
    case 4
    then show ?thesis
      using light_write_beyond(3) [OF fw(1) F i d w, of "length buff" buff] by (auto simp: past_index_def Let_def)
  qed
qed

section \<open>Refinement\<close>

lemma write_pos_contents:
  assumes "files_wf s F" "f_inode f \<in> F" "0 \<le> pos"
  shows "nat (write_pos f pos s) =
    (if f_flags f AND O_APPEND \<noteq> 0 then length (contents F s (f_inode f)) else nat pos)"
  using file_content_length [of s "f_inode f"] assms by (auto simp: write_pos_def contents_def files_wf_def)

lemma step_refines:
  assumes step: "fs_step env s op r s'" and fw: "files_wf s F" and v: "valid_call F op" and ok: "env_ok env"
  shows "files_wf s' F \<and> spec_step (contents F s) op r (contents F s')"
  using step v
proof cases
  case (Do_write f buff pos pos')
  let ?i = "f_inode f"
  have F: "?i \<in> F" "0 \<le> pos" using v Do_write(1) by simp_all
  have "outcome F ?i (nat (write_pos f pos s)) buff s (ouichefs_light_write env f buff (length buff) pos s)"
    using write_outcome [OF fw v [unfolded Do_write(1)] ok] Do_write(2) by (auto split: if_splits)
  then have o: "write_spec (contents F s ?i) (nat (write_pos f pos s)) buff r (contents F s' ?i)" "files_wf s' F"
      "\<forall>j \<in> F - {?i}. file_content s' j = file_content s j"
    using Do_write(2) F(1) by (auto simp: outcome_def contents_def)
  moreover have "contents F s' = (contents F s)(?i := contents F s' ?i)" using o(3) by (auto simp: contents_def)
  ultimately show ?thesis
    using Spec_write [of "contents F s" f pos buff r "contents F s' ?i"] write_pos_contents [OF fw F] Do_write(1) by auto
next
  case (Do_defragment f)
  from defrag_done [OF fw _ refl env_okD [OF ok], of f] Do_defragment v
  have "r = 0" "files_wf s' F" "contents F s' = contents F s" by (auto simp: contents_def fun_eq_iff)
  then show ?thesis using Do_defragment(1) Spec_defragment by auto
qed

interpretation calls: simulation "fs_step env" spec_step "contents F" "\<lambda>s. env_ok env \<and> files_wf s F" "\<lambda>_. valid_call F" for env F
  by unfold_locales (auto dest: step_refines)

text \<open>
  Refinement. Every sequence of light writes and defragmentations of well-formed files, with
  whatever results the calls return, changes the bytes of the files as the abstract steps allow
  (insertion, extension behind a gap, refusal; nothing for a defragmentation) and keeps the
  invariant of all files.
\<close>

theorem runs_refine:
  assumes "fs_run env s tr s'" "files_wf s F" "env_ok env" "\<forall>(op, r) \<in> set tr. valid_call F op"
  shows "files_wf s' F \<and> spec_run (contents F s) tr (contents F s')"
  using calls.run_keeps [OF run_guarded [OF assms(1,4)]] calls.run_simulates [OF run_guarded [OF assms(1,4)]] assms(2,3)
  by simp

lemma demo_calls_ok: "env_ok demo_env"
  by (simp add: env_ok_def demo_env_def ascending_memcpy_def)

theorem runs_refine_witness:
  "\<exists>s1 s2. fs_run demo_env demo_fs [(Write (demo_file 3) [7] 4, 1), (Defragment (demo_file 3), 0)] s2 \<and>
     files_wf s2 {2, 3} \<and> spec_run (contents {2, 3} demo_fs)
       [(Write (demo_file 3) [7] 4, 1), (Defragment (demo_file 3), 0)] (contents {2, 3} s2)"
proof -
  have v: "valid_call {2, 3} (Write (demo_file 3) [7] 4)" by (simp add: demo_file_def)
  from light_write_done [OF demo_files_wf _ demo_insert(3,1,2), of 3 4 1 1 1 "[7]"] obtain s1 where s1:
    "ouichefs_light_write demo_env (demo_file 3) [7] (length [7 :: byte]) 4 demo_fs = Some (1, 5, s1)" "files_wf s1 {2, 3}"
    by (auto simp: demo_insert [simplified] reserved_blocks_def extra_blocks_def idiv_ceil_def)
  from defrag_done [OF s1(2) _ refl env_okD [OF demo_calls_ok], of "demo_file 3"] obtain s2 where
    "ouichefs_defrag demo_env (demo_file 3) s1 = Some (0, s2)" by (auto simp: demo_file_def)
  with s1 have "fs_run demo_env demo_fs [(Write (demo_file 3) [7] 4, 1), (Defragment (demo_file 3), 0)] s2"
    by (auto intro!: run.intros fs_step.intros)
  moreover from runs_refine [OF this demo_files_wf demo_calls_ok] v
  have "files_wf s2 {2, 3} \<and> spec_run (contents {2, 3} demo_fs)
       [(Write (demo_file 3) [7] 4, 1), (Defragment (demo_file 3), 0)] (contents {2, 3} s2)" by (simp add: demo_file_def)
  ultimately show ?thesis by blast
qed

section \<open>Progress\<close>

text \<open>
  Every light write and every defragmentation of a well-formed file returns, with one
  exception: the write of lemma \<open>light_write_past_index\<close> that reads past the index block.
\<close>

theorem calls_return:
  assumes "files_wf s F" "env_ok env" "valid_call F op"
  shows "(\<exists>r s'. fs_step env s op r s') \<longleftrightarrow>
    \<not> (\<exists>f buff pos. op = Write f buff pos \<and> past_index s (f_inode f) (write_pos f pos s) \<and>
         write_pos f pos s + int (length buff) \<le> 4194304)"
proof (cases op)
  case (Write f buff pos)
  have o: "if past_index s (f_inode f) (write_pos f pos s) \<and> write_pos f pos s + int (length buff) \<le> 4194304
    then ouichefs_light_write env f buff (length buff) pos s = None
    else outcome F (f_inode f) (nat (write_pos f pos s)) buff s (ouichefs_light_write env f buff (length buff) pos s)"
    using write_outcome [OF assms(1) _ assms(2)] assms(3) Write by blast
  have "(\<exists>r s'. fs_step env s op r s') \<longleftrightarrow> ouichefs_light_write env f buff (length buff) pos s \<noteq> None"
    unfolding Write by (auto elim: fs_step_writeE intro: Do_write)
  then show ?thesis using o Write by (auto simp: outcome_def split: if_splits)
next
  case (Defragment f)
  then have "f_inode f \<in> F" using assms(3) by simp
  from defrag_done [OF assms(1) this refl env_okD [OF assms(2)]] show ?thesis
    using Defragment by (auto intro: Do_defragment)
qed

theorem calls_return_witness:
  "\<exists>r s'. fs_step demo_env demo_fs (Write (demo_file 2) (replicate 5000 1) 9000) r s'"
proof -
  let ?op = "Write (demo_file 2) (replicate 5000 1) 9000"
  have "valid_call {2, 3} ?op" by (simp add: demo_file_def)
  from calls_return [OF demo_files_wf demo_calls_ok this] show ?thesis
    by (auto simp: demo_insert [simplified] past_index_def Let_def gap_blocks_def gap_room_def idiv_ceil_def)
qed

section \<open>Reading what was compacted\<close>

lemma total_size_full:
  assumes "\<forall>e \<in> set (butlast es). get_block_size e = 4096" "i < length es"
  shows "total_size (take i es) = 4096 * int i"
proof -
  have "take i es = take i (butlast es)" using assms(2) by (simp add: take_butlast)
  moreover have "map get_block_size (take i (butlast es)) = replicate i 4096"
    using assms by (intro replicate_eqI) (auto dest!: in_set_takeD)
  ultimately show ?thesis by (simp add: total_size_def sum_list_replicate)
qed

lemma located_compact:
  assumes full: "\<forall>e \<in> set (butlast es). get_block_size e = 4096"
    and pos: "0 \<le> pos" "pos < total_size es" "pos = 0 \<or> pos mod 4096 \<noteq> 0"
  defines "i \<equiv> nat (pos div 4096)"
  shows "located es pos i (pos mod 4096)" "i < length es" "pos mod 4096 < get_block_size (es ! i)"
proof -
  define l where "l = length es - 1"
  have ne: "es \<noteq> []" using pos by auto
  then have l: "l < length es" "es ! l = last es" "take l es = butlast es"
    by (auto simp: l_def last_conv_nth butlast_conv_take)
  have "total_size es = total_size (butlast es) + get_block_size (last es)"
    using ne by (metis append_butlast_last_id total_size_simps add.right_neutral)
  then have tot: "total_size es = 4096 * int l + get_block_size (last es)"
    using total_size_full [OF full l(1)] l(3) by simp
  have ii: "int i = pos div 4096" using pos(1) by (simp add: i_def)
  have "4096 * (pos div 4096) + pos mod 4096 = pos" by simp
  then have d: "4096 * int i + pos mod 4096 = pos" using ii by simp
  moreover have m: "0 \<le> pos mod 4096" "pos mod 4096 < 4096" by simp_all
  ultimately have "4096 * int i < 4096 * int l + 4096" using tot pos(2) get_block_size_le [of "last es"] by linarith
  then have il: "i \<le> l" by linarith
  then show i: "i < length es" using l(1) by simp
  show lt: "pos mod 4096 < get_block_size (es ! i)"
  proof (cases "i = l")
    case True
    then show ?thesis using d tot pos(2) l(2) by simp
  next
    case False
    then have "i < length (butlast es)" using il by (simp add: l_def)
    then have "es ! i \<in> set (butlast es)" by (metis nth_butlast nth_mem)
    then show ?thesis using full m by simp
  qed
  have "pos \<noteq> 0 \<Longrightarrow> 0 < pos mod 4096" "pos = 0 \<Longrightarrow> i = 0" using pos(3) m(1) by (linarith, simp add: i_def)
  then show "located es pos i (pos mod 4096)"
    using total_size_full [OF full i] d i lt by (auto simp: located_def)
qed



end
