(* ===== verification/Layout.thy ===== *)
theory Layout
  imports Vfs
begin

text \<open>
  The structures of the partition beside the file index (ouichefs.h): the superblock, the inodes of
  the inode store, and the directory blocks. Fields are little endian, at the offsets the C
  compiler gives them on a 64-bit machine (a 64-bit field is aligned to 8 bytes, so an inode takes
  80 bytes and a block of the inode store holds 51 of them).
\<close>

section \<open>Fields of a block\<close>

definition get32 :: "byte list \<Rightarrow> nat \<Rightarrow> u32_word" where
  "get32 b off = hd (u32s_of_bytes (take 4 (drop off b)))"

definition get64 :: "byte list \<Rightarrow> nat \<Rightarrow> 64 word" where
  "get64 b off = (let ws = u32s_of_bytes (take 8 (drop off b)) in ucast (hd ws) OR push_bit 32 (ucast (hd (tl ws))))"

definition le64_bytes :: "64 word \<Rightarrow> byte list" where
  "le64_bytes w = le32_bytes (ucast w) @ le32_bytes (ucast (drop_bit 32 w))"

text \<open>Assignments to fields, each given by its offset and its bytes.\<close>

fun put_fields :: "(nat \<times> byte list) list \<Rightarrow> byte list \<Rightarrow> byte list" where
  "put_fields [] b = b"
| "put_fields ((off, ys) # fds) b = put_fields fds (overlay b off ys)"

text \<open>Fields in the order of their offsets, inside a structure at \<open>off\<close> that ends before \<open>stop\<close>.\<close>

fun fields_in :: "nat \<Rightarrow> nat \<Rightarrow> (nat \<times> byte list) list \<Rightarrow> bool" where
  "fields_in off stop [] \<longleftrightarrow> off \<le> stop"
| "fields_in off stop ((o1, ys) # fds) \<longleftrightarrow> off \<le> o1 \<and> fields_in (o1 + length ys) stop fds"

lemma length_le_bytes [simp]: "length (le32_bytes w) = 4" "length (le64_bytes v) = 8"
  by (simp_all add: le32_bytes_def le64_bytes_def)

lemma fields_in_le: "fields_in off stop fds \<Longrightarrow> off \<le> stop"
  by (induction off stop fds rule: fields_in.induct) auto

lemma length_put_fields: "fields_in off stop fds \<Longrightarrow> stop \<le> length b \<Longrightarrow> length (put_fields fds b) = length b"
proof (induction fds arbitrary: off b)
  case (Cons x fds)
  obtain o1 ys where x: "x = (o1, ys)" by (cases x)
  then have "o1 + length ys \<le> length b" using Cons.prems fields_in_le by fastforce
  with Cons.IH [of "o1 + length ys" "overlay b o1 ys"] Cons.prems x show ?case by simp
qed simp

lemma take_drop_overlay:
  assumes "off + length ys \<le> length b" "o2 + n \<le> length b" "o2 + n \<le> off \<or> off + length ys \<le> o2"
  shows "take n (drop o2 (overlay b off ys)) = take n (drop o2 b)"
proof (rule nth_equalityI)
  fix i assume "i < length (take n (drop o2 (overlay b off ys)))"
  then have "i < n" using assms by simp
  then show "take n (drop o2 (overlay b off ys)) ! i = take n (drop o2 b) ! i"
    using assms by (auto simp: overlay_def nth_append)
qed (use assms in simp)

lemma put_fields_other:
  assumes "fields_in off stop fds" "stop \<le> length b" "o2 + n \<le> length b" "o2 + n \<le> off \<or> stop \<le> o2"
  shows "take n (drop o2 (put_fields fds b)) = take n (drop o2 b)"
  using assms
proof (induction fds arbitrary: off b)
  case (Cons x fds)
  obtain o1 ys where x: "x = (o1, ys)" by (cases x)
  have le: "o1 + length ys \<le> stop" "off \<le> o1" using Cons.prems x fields_in_le by auto
  then have "take n (drop o2 (put_fields fds (overlay b o1 ys))) = take n (drop o2 (overlay b o1 ys))"
    using Cons.prems x by (intro Cons.IH [of "o1 + length ys"]) auto
  also have "\<dots> = take n (drop o2 b)" using le Cons.prems by (intro take_drop_overlay) auto
  finally show ?case by (simp add: x)
qed simp

lemma put_fields_same:
  assumes "fields_in off stop fds" "stop \<le> length b" "(o1, ys) \<in> set fds"
  shows "take (length ys) (drop o1 (put_fields fds b)) = ys"
  using assms
proof (induction fds arbitrary: off b)
  case (Cons x fds)
  obtain o2 zs where x: "x = (o2, zs)" by (cases x)
  have le: "o2 + length zs \<le> stop" using Cons.prems x fields_in_le by auto
  show ?case
  proof (cases "(o1, ys) \<in> set fds")
    case True
    then show ?thesis using Cons.IH [of "o2 + length zs" "overlay b o2 zs"] Cons.prems x le by simp
  next
    case False
    then have "o2 = o1" "zs = ys" using Cons.prems x by auto
    then have "take (length ys) (drop o1 (put_fields fds (overlay b o1 ys))) = take (length ys) (drop o1 (overlay b o1 ys))"
      using Cons.prems x le by (intro put_fields_other [of "o2 + length zs" stop]) auto
    also have "\<dots> = ys" using le Cons.prems \<open>o2 = o1\<close> \<open>zs = ys\<close> by (simp add: overlay_def)
    finally show ?thesis using x \<open>o2 = o1\<close> \<open>zs = ys\<close> by simp
  qed
qed simp

lemma get_put_fields:
  assumes "fields_in off stop fds" "stop \<le> length b"
  shows "(o1, le32_bytes w) \<in> set fds \<Longrightarrow> get32 (put_fields fds b) o1 = w"
    and "(o1, le64_bytes v) \<in> set fds \<Longrightarrow> get64 (put_fields fds b) o1 = v"
proof -
  show "get32 (put_fields fds b) o1 = w" if "(o1, le32_bytes w) \<in> set fds"
    using put_fields_same [OF assms that] by (simp add: get32_def) (simp add: le32_bytes_def le32_of_bytes)
  have v: "ucast (ucast v :: u32_word) OR push_bit 32 (ucast (ucast (drop_bit 32 v) :: u32_word)) = v"
    by (rule bit_word_eqI) (auto simp: bit_simps)
  have ws: "u32s_of_bytes (le64_bytes v) = [ucast v, ucast (drop_bit 32 v)]"
    using u32s_of_bytes_inverse [of "[ucast v, ucast (drop_bit 32 v)]"] by (simp add: le64_bytes_def)
  show "get64 (put_fields fds b) o1 = v" if "(o1, le64_bytes v) \<in> set fds"
    using put_fields_same [OF assms that] v ws by (simp add: get64_def)
qed

lemma get_put_fields_other:
  assumes "fields_in off stop fds" "stop \<le> length b" "o2 + n \<le> length b" "o2 + n \<le> off \<or> stop \<le> o2"
  shows "n = 4 \<Longrightarrow> get32 (put_fields fds b) o2 = get32 b o2"
    and "n = 8 \<Longrightarrow> get64 (put_fields fds b) o2 = get64 b o2"
  using put_fields_other [OF assms] by (simp_all add: get32_def get64_def)

section \<open>The inode store\<close>

record ouichefs_inode =
  d_mode :: u32_word
  d_uid :: u32_word
  d_gid :: u32_word
  d_size :: u32_word
  d_ctime :: u32_word
  d_nctime :: "64 word"
  d_atime :: u32_word
  d_natime :: "64 word"
  d_mtime :: u32_word
  d_nmtime :: "64 word"
  d_blocks :: u32_word
  d_nlink :: u32_word
  d_index_block :: u32_word

definition OUICHEFS_INODES_PER_BLOCK :: nat where
  "OUICHEFS_INODES_PER_BLOCK = OUICHEFS_BLOCK_SIZE div 80"

lemma inodes_per_block: "OUICHEFS_INODES_PER_BLOCK = 51"
  by (simp add: OUICHEFS_INODES_PER_BLOCK_def OUICHEFS_BLOCK_SIZE_def)

definition load_dinode :: "byte list \<Rightarrow> nat \<Rightarrow> ouichefs_inode" where
  "load_dinode b off =
     \<lparr>d_mode = get32 b off, d_uid = get32 b (off + 4), d_gid = get32 b (off + 8), d_size = get32 b (off + 12),
      d_ctime = get32 b (off + 16), d_nctime = get64 b (off + 24), d_atime = get32 b (off + 32),
      d_natime = get64 b (off + 40), d_mtime = get32 b (off + 48), d_nmtime = get64 b (off + 56),
      d_blocks = get32 b (off + 64), d_nlink = get32 b (off + 68), d_index_block = get32 b (off + 72)\<rparr>"

definition dinode_fields :: "nat \<Rightarrow> ouichefs_inode \<Rightarrow> (nat \<times> byte list) list" where
  "dinode_fields off di =
     [(off, le32_bytes (d_mode di)), (off + 4, le32_bytes (d_uid di)), (off + 8, le32_bytes (d_gid di)),
      (off + 12, le32_bytes (d_size di)), (off + 16, le32_bytes (d_ctime di)), (off + 24, le64_bytes (d_nctime di)),
      (off + 32, le32_bytes (d_atime di)), (off + 40, le64_bytes (d_natime di)), (off + 48, le32_bytes (d_mtime di)),
      (off + 56, le64_bytes (d_nmtime di)), (off + 64, le32_bytes (d_blocks di)), (off + 68, le32_bytes (d_nlink di)),
      (off + 72, le32_bytes (d_index_block di))]"

definition store_dinode :: "nat \<Rightarrow> ouichefs_inode \<Rightarrow> byte list \<Rightarrow> byte list" where
  "store_dinode off di b = put_fields (dinode_fields off di) b"

lemma dinode_fields_in: "fields_in off (off + 80) (dinode_fields off di)"
  by (simp add: dinode_fields_def)

lemma length_store_dinode [simp]: "off + 80 \<le> length b \<Longrightarrow> length (store_dinode off di b) = length b"
  unfolding store_dinode_def by (rule length_put_fields [OF dinode_fields_in])

lemma load_store_dinode:
  assumes "off + 80 \<le> length b"
  shows "load_dinode (store_dinode off di b) off = di"
proof -
  note g = get_put_fields [OF dinode_fields_in assms, of _ _ di]
  show ?thesis unfolding load_dinode_def store_dinode_def
    by (rule ouichefs_inode.equality, simp_all) ((rule g, simp add: dinode_fields_def)+)
qed

lemma load_store_dinode_other:
  assumes "off + 80 \<le> length b" "o2 + 80 \<le> length b" "off + 80 \<le> o2 \<or> o2 + 80 \<le> off"
  shows "load_dinode (store_dinode off di b) o2 = load_dinode b o2"
proof -
  note g = get_put_fields_other [OF dinode_fields_in assms(1)]
  have "get32 (store_dinode off di b) (o2 + k) = get32 b (o2 + k)" if "k \<le> 72" for k
    unfolding store_dinode_def using assms that by (intro g(1) [where n = 4]) auto
  moreover have "get64 (store_dinode off di b) (o2 + k) = get64 b (o2 + k)" if "k \<le> 72" for k
    unfolding store_dinode_def using assms that by (intro g(2) [where n = 8]) auto
  moreover have "get32 (store_dinode off di b) o2 = get32 b o2"
    unfolding store_dinode_def using assms by (intro g(1) [where n = 4]) auto
  ultimately show ?thesis by (simp add: load_dinode_def)
qed

section \<open>The superblock\<close>

definition OUICHEFS_MAGIC :: u32_word where "OUICHEFS_MAGIC = 0x48434957"

definition load_sb :: "byte list \<Rightarrow> sb_info" where
  "load_sb b =
     \<lparr>nr_blocks = unat (get32 b 4), nr_inodes = unat (get32 b 8), nr_istore_blocks = unat (get32 b 12),
      nr_ifree_blocks = unat (get32 b 16), nr_bfree_blocks = unat (get32 b 20),
      nr_free_inodes = unat (get32 b 24), nr_free_blocks = unat (get32 b 28),
      ifree_bitmap = [], bfree_bitmap = []\<rparr>"

definition sb_fields :: "sb_info \<Rightarrow> (nat \<times> byte list) list" where
  "sb_fields q =
     [(4, le32_bytes (word_of_nat (nr_blocks q))), (8, le32_bytes (word_of_nat (nr_inodes q))),
      (12, le32_bytes (word_of_nat (nr_istore_blocks q))), (16, le32_bytes (word_of_nat (nr_ifree_blocks q))),
      (20, le32_bytes (word_of_nat (nr_bfree_blocks q))), (24, le32_bytes (word_of_nat (nr_free_inodes q))),
      (28, le32_bytes (word_of_nat (nr_free_blocks q)))]"

definition store_sb :: "sb_info \<Rightarrow> byte list \<Rightarrow> byte list" where
  "store_sb q b = put_fields (sb_fields q) b"

text \<open>The counters fit their 32-bit fds.\<close>

definition sb_fits :: "sb_info \<Rightarrow> bool" where
  "sb_fits q \<longleftrightarrow> nr_blocks q < 2 ^ 32 \<and> nr_inodes q < 2 ^ 32 \<and> nr_istore_blocks q < 2 ^ 32 \<and>
     nr_ifree_blocks q < 2 ^ 32 \<and> nr_bfree_blocks q < 2 ^ 32 \<and> nr_free_inodes q < 2 ^ 32 \<and> nr_free_blocks q < 2 ^ 32"

lemma unat_u32: "n < 2 ^ 32 \<Longrightarrow> unat (word_of_nat n :: u32_word) = n"
  by (simp add: unat_of_nat)

lemma sb_fields_in: "fields_in 4 32 (sb_fields q)"
  by (simp add: sb_fields_def)

lemma store_sb_facts:
  assumes "length b = 4096"
  shows "length (store_sb q b) = 4096" "get32 (store_sb q b) 0 = get32 b 0"
    "sb_fits q \<Longrightarrow> load_sb (store_sb q b) = q\<lparr>ifree_bitmap := [], bfree_bitmap := []\<rparr>"
proof -
  have l: "32 \<le> length b" using assms by simp
  show "length (store_sb q b) = 4096" unfolding store_sb_def using length_put_fields [OF sb_fields_in l] assms by simp
  show "get32 (store_sb q b) 0 = get32 b 0"
    unfolding store_sb_def using l by (intro get_put_fields_other(1) [OF sb_fields_in, where n = 4]) auto
  note g = get_put_fields(1) [OF sb_fields_in l, of _ _ q]
  have "get32 (store_sb q b) 4 = word_of_nat (nr_blocks q)" "get32 (store_sb q b) 8 = word_of_nat (nr_inodes q)"
    "get32 (store_sb q b) 12 = word_of_nat (nr_istore_blocks q)" "get32 (store_sb q b) 16 = word_of_nat (nr_ifree_blocks q)"
    "get32 (store_sb q b) 20 = word_of_nat (nr_bfree_blocks q)" "get32 (store_sb q b) 24 = word_of_nat (nr_free_inodes q)"
    "get32 (store_sb q b) 28 = word_of_nat (nr_free_blocks q)"
    unfolding store_sb_def by (rule g, simp add: sb_fields_def)+
  then show "load_sb (store_sb q b) = q\<lparr>ifree_bitmap := [], bfree_bitmap := []\<rparr>" if "sb_fits q"
    using that by (simp add: load_sb_def sb_fits_def unat_u32)
qed

end
