(* ===== verification/Super.thy ===== *)
theory Super
  imports Layout Demo
begin

text \<open>
  The superblock operations (super.c) and the reading of inodes (\<open>ouichefs_iget\<close> of inode.c): how the
  in-memory superblock information and the inodes are written to the partition and read back.
  Buffer reference counts, the inode slab cache and the tables of operations are not modelled.
\<close>

section \<open>Inodes in the inode store\<close>

text \<open>The block of the inode store that holds inode \<open>ino\<close>, and the inode's offset in it.\<close>

definition inode_block :: "nat \<Rightarrow> nat" where
  "inode_block ino = u32 (int (ino div OUICHEFS_INODES_PER_BLOCK) + 1)"

definition inode_shift :: "nat \<Rightarrow> nat" where
  "inode_shift ino = 80 * (ino mod OUICHEFS_INODES_PER_BLOCK)"

text \<open>The assignments of \<open>ouichefs_write_inode\<close>, with the truncation to the fields' widths.\<close>

definition to_disk :: "inode \<Rightarrow> ouichefs_inode" where
  "to_disk I =
     \<lparr>d_mode = ucast (i_mode I), d_uid = word_of_nat (i_uid I), d_gid = word_of_nat (i_gid I),
      d_size = word_of_int (i_size I),
      d_ctime = word_of_int (tv_sec (i_ctime I)), d_nctime = word_of_int (tv_nsec (i_ctime I)),
      d_atime = word_of_int (tv_sec (i_atime I)), d_natime = word_of_int (tv_nsec (i_atime I)),
      d_mtime = word_of_int (tv_sec (i_mtime I)), d_nmtime = word_of_int (tv_nsec (i_mtime I)),
      d_blocks = word_of_nat (i_blocks I), d_nlink = word_of_nat (i_nlink I),
      d_index_block = word_of_nat (index_block I)\<rparr>"

text \<open>The assignments of \<open>ouichefs_iget\<close>.\<close>

definition of_disk :: "ouichefs_inode \<Rightarrow> inode" where
  "of_disk d =
     \<lparr>i_mode = ucast (d_mode d), i_uid = unat (d_uid d), i_gid = unat (d_gid d), i_size = uint (d_size d),
      i_ctime = \<lparr>tv_sec = uint (d_ctime d), tv_nsec = sint (d_nctime d)\<rparr>,
      i_atime = \<lparr>tv_sec = uint (d_atime d), tv_nsec = sint (d_natime d)\<rparr>,
      i_mtime = \<lparr>tv_sec = uint (d_mtime d), tv_nsec = sint (d_nmtime d)\<rparr>,
      i_blocks = unat (d_blocks d), i_nlink = unat (d_nlink d), index_block = unat (d_index_block d)\<rparr>"

definition ouichefs_write_inode :: "kenv \<Rightarrow> nat \<Rightarrow> fs \<Rightarrow> int \<times> fs" where
  "ouichefs_write_inode env ino s =
     (if ino \<ge> nr_inodes (sbi s) then (0, s)
      else if \<not> bread_ok env (inode_block ino) then (- EIO, s)
      else (0, write_back (inode_block ino)
             (set_buf (inode_block ino)
                (store_dinode (inode_shift ino) (to_disk (inodes s ino)) (bufs s (inode_block ino))) s)))"

text \<open>\<open>ouichefs_iget\<close> returns an inode (its number) or an error pointer.\<close>

definition ouichefs_iget :: "kenv \<Rightarrow> nat \<Rightarrow> fs \<Rightarrow> (int + nat) \<times> fs" where
  "ouichefs_iget env ino s =
     (if ino \<ge> nr_inodes (sbi s) then (Inl (- EINVAL), s)
      else case iget_locked env ino of
             None \<Rightarrow> (Inl (- ENOMEM), s)
           | Some False \<Rightarrow> (Inr ino, s)
           | Some True \<Rightarrow>
               if \<not> bread_ok env (inode_block ino) then (Inl (- EIO), s)
               else (Inr ino, set_inode ino
                      (of_disk (load_dinode (bufs s (inode_block ino)) (inode_shift ino))) s))"

section \<open>Writing the superblock information\<close>

definition sync_sb_info :: "kenv \<Rightarrow> bool \<Rightarrow> fs \<Rightarrow> int \<times> fs" where
  "sync_sb_info env wait s =
     (if \<not> bread_ok env 0 then (- EIO, s)
      else
        (let s = mark_buffer_dirty 0 (set_buf 0 (store_sb (sbi s) (bufs s 0)) s)
         in (0, if wait then sync_dirty_buffer 0 s else s)))"

text \<open>The loop both bitmap flushes run: block \<open>first + i\<close> takes the i-th block of the bitmap.\<close>

fun sync_bitmap :: "kenv \<Rightarrow> bool \<Rightarrow> nat \<Rightarrow> byte list \<Rightarrow> nat \<Rightarrow> nat \<Rightarrow> fs \<Rightarrow> (int \<times> fs) option" where
  "sync_bitmap env wait first bitmap i 0 s = Some (0, s)"
| "sync_bitmap env wait first bitmap i (Suc n) s =
     (if \<not> bread_ok env (first + i) then Some (- EIO, s)
      else
        do { src \<leftarrow> mem_read bitmap (int (i * OUICHEFS_BLOCK_SIZE)) OUICHEFS_BLOCK_SIZE;
             b \<leftarrow> mem_write (bufs s (first + i)) 0 src;
             let s = mark_buffer_dirty (first + i) (set_buf (first + i) b s);
             sync_bitmap env wait first bitmap (Suc i) n
               (if wait then sync_dirty_buffer (first + i) s else s) })"

definition sync_ifree :: "kenv \<Rightarrow> bool \<Rightarrow> fs \<Rightarrow> (int \<times> fs) option" where
  "sync_ifree env wait s =
     sync_bitmap env wait (nr_istore_blocks (sbi s) + 1) (ifree_bitmap (sbi s)) 0 (nr_ifree_blocks (sbi s)) s"

definition sync_bfree :: "kenv \<Rightarrow> bool \<Rightarrow> fs \<Rightarrow> (int \<times> fs) option" where
  "sync_bfree env wait s =
     sync_bitmap env wait (nr_istore_blocks (sbi s) + nr_ifree_blocks (sbi s) + 1) (bfree_bitmap (sbi s)) 0
       (nr_bfree_blocks (sbi s)) s"

definition ouichefs_sync_fs :: "kenv \<Rightarrow> bool \<Rightarrow> fs \<Rightarrow> (int \<times> fs) option" where
  "ouichefs_sync_fs env wait s =
     (case sync_sb_info env wait s of (ret, s) \<Rightarrow>
      if ret \<noteq> 0 then Some (ret, s)
      else
        do { (ret, s) \<leftarrow> sync_ifree env wait s;
             if ret \<noteq> 0 then Some (ret, s)
             else
               do { (ret, s) \<leftarrow> sync_bfree env wait s;
                    Some (if ret \<noteq> 0 then ret else 0, s) } })"

record kstatfs =
  f_type :: u32_word
  f_bsize :: nat
  f_blocks :: nat
  f_bfree :: nat
  f_bavail :: nat
  f_files :: nat
  f_ffree :: nat
  f_namelen :: nat

definition ouichefs_statfs :: "fs \<Rightarrow> int \<times> kstatfs" where
  "ouichefs_statfs s =
     (0, \<lparr>f_type = OUICHEFS_MAGIC, f_bsize = OUICHEFS_BLOCK_SIZE, f_blocks = nr_blocks (sbi s),
          f_bfree = nr_free_blocks (sbi s), f_bavail = nr_free_blocks (sbi s), f_files = nr_inodes (sbi s),
          f_ffree = nr_free_inodes (sbi s), f_namelen = 28\<rparr>)"

section \<open>Mounting\<close>

text \<open>The loop that fills a bitmap from its blocks; \<open>None\<close> when a block cannot be read.\<close>

fun read_bitmap :: "kenv \<Rightarrow> nat \<Rightarrow> nat \<Rightarrow> nat \<Rightarrow> fs \<Rightarrow> byte list option" where
  "read_bitmap env first i 0 s = Some []"
| "read_bitmap env first i (Suc n) s =
     (if \<not> bread_ok env (first + i) then None
      else do { rest \<leftarrow> read_bitmap env first (Suc i) n s;
                Some (take OUICHEFS_BLOCK_SIZE (bufs s (first + i)) @ rest) })"

text \<open>
  \<open>ouichefs_fill_super\<close>: the result and the state, with the superblock information and the root
  inode of the mounted partition (\<open>inode_init_owner\<close> without a parent directory sets its owner and mode).
\<close>

definition ouichefs_fill_super :: "kenv \<Rightarrow> fs \<Rightarrow> int \<times> fs" where
  "ouichefs_fill_super env s =
     (if \<not> bread_ok env 0 then (- EIO, s)
      else if get32 (bufs s 0) 0 \<noteq> OUICHEFS_MAGIC then (- EPERM, s)
      else if \<not> kzalloc_ok env 48 then (- ENOMEM, s)
      else
        (let q = load_sb (bufs s 0); first = nr_istore_blocks q + 1 in
         if \<not> kzalloc_ok env (u32 (int (nr_ifree_blocks q * OUICHEFS_BLOCK_SIZE))) then (- ENOMEM, s)
         else case read_bitmap env first 0 (nr_ifree_blocks q) s of
                None \<Rightarrow> (- EIO, s)
              | Some ifree \<Rightarrow>
                  if \<not> kzalloc_ok env (u32 (int (nr_bfree_blocks q * OUICHEFS_BLOCK_SIZE))) then (- ENOMEM, s)
                  else case read_bitmap env (nr_istore_blocks q + nr_ifree_blocks q + 1) 0 (nr_bfree_blocks q) s of
                         None \<Rightarrow> (- EIO, s)
                       | Some bfree \<Rightarrow>
                           (case ouichefs_iget env 1 (s\<lparr>sbi := q\<lparr>ifree_bitmap := ifree, bfree_bitmap := bfree\<rparr>\<rparr>) of
                              (Inl e, _) \<Rightarrow> (e, s)
                            | (Inr root, t) \<Rightarrow>
                                (case init_owner env None (i_mode (inodes t root)) of (uid, gid, mode) \<Rightarrow>
                                 let t = set_inode root ((inodes t root)\<lparr>i_uid := uid, i_gid := gid, i_mode := mode\<rparr>) t in
                                 if \<not> d_make_root_ok env then (- ENOMEM, s) else (0, t)))))"

section \<open>Inodes: write, then read\<close>

text \<open>The values that survive the 32-bit fields of the inode store.\<close>

definition time_fits :: "timespec \<Rightarrow> bool" where
  "time_fits t \<longleftrightarrow> 0 \<le> tv_sec t \<and> tv_sec t < 2 ^ 32 \<and> 0 \<le> tv_nsec t \<and> tv_nsec t < 2 ^ 63"

definition inode_fits :: "inode \<Rightarrow> bool" where
  "inode_fits I \<longleftrightarrow> i_uid I < 2 ^ 32 \<and> i_gid I < 2 ^ 32 \<and> 0 \<le> i_size I \<and> i_size I < 2 ^ 32 \<and>
     time_fits (i_ctime I) \<and> time_fits (i_atime I) \<and> time_fits (i_mtime I) \<and>
     i_blocks I < 2 ^ 32 \<and> i_nlink I < 2 ^ 32 \<and> index_block I < 2 ^ 32"

lemma field_values:
  "0 \<le> x \<Longrightarrow> x < 2 ^ 32 \<Longrightarrow> uint (word_of_int x :: u32_word) = x"
  "0 \<le> x \<Longrightarrow> x < 2 ^ 63 \<Longrightarrow> sint (word_of_int x :: 64 word) = x"
  "ucast (ucast m :: u32_word) = (m :: 16 word)"
proof -
  show "uint (word_of_int x :: u32_word) = x" if "0 \<le> x" "x < 2 ^ 32"
    using that by (simp add: uint_word_of_int)
  show "sint (word_of_int x :: 64 word) = x" if "0 \<le> x" "x < 2 ^ 63"
    using that by (simp add: sint_sbintrunc' signed_take_bit_int_eq_self)
  show "ucast (ucast m :: u32_word) = (m :: 16 word)"
    by (rule bit_word_eqI) (auto simp: bit_simps)
qed

lemma of_to_disk: "inode_fits I \<Longrightarrow> of_disk (to_disk I) = I"
  by (rule inode.equality)
    (auto simp: of_disk_def to_disk_def inode_fits_def time_fits_def field_values unat_u32)

lemma inode_slot: "inode_shift ino + 80 \<le> 4096" "ino < 2 ^ 32 \<Longrightarrow> inode_block ino = ino div 51 + 1"
proof -
  have "ino mod 51 \<le> 50" by simp
  then show "inode_shift ino + 80 \<le> 4096" unfolding inode_shift_def inodes_per_block by linarith
  assume "ino < 2 ^ 32"
  then have "ino div 51 < 2 ^ 32 - 1" by (simp add: div_less_dividend less_mult_imp_div_less)
  then show "inode_block ino = ino div 51 + 1"
    by (simp add: inode_block_def inodes_per_block u32_def nat_add_distrib nat_mod_distrib)
qed

text \<open>Different inodes have different places.\<close>

lemma inode_slots_apart:
  assumes "ino < 2 ^ 32" "jno < 2 ^ 32" "ino \<noteq> jno" "inode_block ino = inode_block jno"
  shows "inode_shift ino + 80 \<le> inode_shift jno \<or> inode_shift jno + 80 \<le> inode_shift ino"
proof -
  have "ino div 51 = jno div 51" using assms inode_slot(2) by simp
  then have "ino mod 51 \<noteq> jno mod 51" using assms(3) by (metis div_mult_mod_eq)
  then show ?thesis unfolding inode_shift_def inodes_per_block by linarith
qed

text \<open>Writing an inode stores it at its place and changes no other place of the store.\<close>

lemma write_inode_spec:
  assumes "wf_bufs s" "ino < nr_inodes (sbi s)" "nr_inodes (sbi s) < 2 ^ 32" "\<forall>b. bread_ok env b"
  shows "\<exists>s1. ouichefs_write_inode env ino s = (0, s1) \<and> wf_bufs s1 \<and> sbi s1 = sbi s \<and> inodes s1 = inodes s \<and>
    (\<forall>b. b \<noteq> inode_block ino \<longrightarrow> bufs s1 b = bufs s b \<and> media s1 b = media s b) \<and>
    media s1 (inode_block ino) = bufs s1 (inode_block ino) \<and>
    (\<forall>j < nr_inodes (sbi s). load_dinode (bufs s1 (inode_block j)) (inode_shift j) =
       (if j = ino then to_disk (inodes s ino) else load_dinode (bufs s (inode_block j)) (inode_shift j)))"
proof -
  define b off blk where "b = inode_block ino" and "off = inode_shift ino"
    and "blk = store_dinode off (to_disk (inodes s ino)) (bufs s b)"
  have len: "length (bufs s c) = 4096" for c using assms(1) by (rule wf_bufs_length)
  have off: "off + 80 \<le> length (bufs s b)" using inode_slot(1) [of ino] len by (simp add: off_def)
  define s1 where "s1 = write_back b (set_buf b blk s)"
  have w: "ouichefs_write_inode env ino s = (0, s1)"
    using assms(2,4) by (simp add: ouichefs_write_inode_def s1_def b_def off_def blk_def)
  have wf: "wf_bufs s1" using assms(1) off len by (simp add: s1_def blk_def wf_bufs_set_buf length_store_dinode)
  have "load_dinode (bufs s1 (inode_block j)) (inode_shift j) =
      (if j = ino then to_disk (inodes s ino) else load_dinode (bufs s (inode_block j)) (inode_shift j))"
    if "j < nr_inodes (sbi s)" for j
  proof (cases "j \<noteq> ino \<and> inode_block j = b")
    case True
    then have "inode_shift j + 80 \<le> off \<or> off + 80 \<le> inode_shift j"
      using inode_slots_apart [of j ino] that assms(2,3) by (auto simp: b_def off_def)
    moreover have "inode_shift j + 80 \<le> length (bufs s b)" using inode_slot(1) [of j] len by simp
    ultimately show ?thesis using True load_store_dinode_other [OF off] by (auto simp: blk_def s1_def)
  next
    case False
    then show ?thesis using load_store_dinode [OF off] by (auto simp: s1_def b_def [symmetric] off_def [symmetric] blk_def)
  qed
  then show ?thesis using w wf by (intro exI [of _ s1]) (auto simp: s1_def b_def [symmetric])
qed

text \<open>
  C19: An inode whose values fit the fields of the inode store survives being written and read
  again: after \<open>ouichefs_write_inode\<close> the medium holds it, \<open>ouichefs_iget\<close> on buffers read from that
  medium returns it, and every other inode of the store is what it was.
\<close>

theorem write_inode_read_back:
  assumes "wf_bufs s" "ino < nr_inodes (sbi s)" "nr_inodes (sbi s) < 2 ^ 32" "inode_fits (inodes s ino)"
    and "\<forall>b. bread_ok env b" "iget_locked env ino = Some True"
    and "\<forall>b. media s b = bufs s b"
  shows "\<exists>s1. ouichefs_write_inode env ino s = (0, s1) \<and>
    (\<forall>t. bufs t = media s1 \<and> sbi t = sbi s \<longrightarrow>
       (\<exists>t'. ouichefs_iget env ino t = (Inr ino, t') \<and> inodes t' ino = inodes s ino)) \<and>
    (\<forall>j < nr_inodes (sbi s). j \<noteq> ino \<longrightarrow>
       load_dinode (media s1 (inode_block j)) (inode_shift j) = load_dinode (media s (inode_block j)) (inode_shift j))"
proof -
  from write_inode_spec [OF assms(1-3,5)] obtain s1 where s1: "ouichefs_write_inode env ino s = (0, s1)"
    "\<forall>b. b \<noteq> inode_block ino \<longrightarrow> bufs s1 b = bufs s b \<and> media s1 b = media s b" "media s1 (inode_block ino) = bufs s1 (inode_block ino)"
    and ld: "\<forall>j < nr_inodes (sbi s). load_dinode (bufs s1 (inode_block j)) (inode_shift j) =
      (if j = ino then to_disk (inodes s ino) else load_dinode (bufs s (inode_block j)) (inode_shift j))" by blast
  have m: "media s1 b = bufs s1 b" for b using s1(2,3) assms(7) by (cases "b = inode_block ino") simp_all
  have "\<exists>t'. ouichefs_iget env ino t = (Inr ino, t') \<and> inodes t' ino = inodes s ino" if "bufs t = media s1" "sbi t = sbi s" for t
    using that assms(2,5,6) m of_to_disk [OF assms(4)] ld by (simp add: ouichefs_iget_def)
  then show ?thesis using s1(1) ld m assms(7) by auto
qed

theorem write_inode_read_back_witness:
  "\<exists>s1. ouichefs_write_inode demo_env 3 (demo_fs\<lparr>media := bufs demo_fs\<rparr>) = (0, s1) \<and>
     (\<exists>t'. ouichefs_iget demo_env 3 (s1\<lparr>bufs := media s1\<rparr>) = (Inr 3, t') \<and> inodes t' 3 = demo_inode 5 3 7)"
proof -
  let ?s = "demo_fs\<lparr>media := bufs demo_fs\<rparr>"
  have "wf_bufs ?s" using demo_wf(1) by (simp add: fs_wf_def wf_bufs_def)
  moreover have "inode_fits (inodes ?s 3)" by (simp add: inode_fits_def time_fits_def demo_inode_def demo_time_def)
  moreover have "nr_inodes demo_sb = 56" by (simp add: demo_sb_def)
  moreover have "\<forall>b. bread_ok demo_env b" "iget_locked demo_env 3 = Some True" by (simp_all add: demo_env_def)
  ultimately obtain s1 where s1: "ouichefs_write_inode demo_env 3 ?s = (0, s1)"
    "\<forall>t. bufs t = media s1 \<and> sbi t = demo_sb \<longrightarrow>
       (\<exists>t'. ouichefs_iget demo_env 3 t = (Inr 3, t') \<and> inodes t' 3 = demo_inode 5 3 7)"
    using write_inode_read_back [of ?s 3 demo_env] by auto
  moreover have "sbi s1 = demo_sb"
    using arg_cong [OF s1(1), of "\<lambda>r. sbi (snd r)"] by (simp add: ouichefs_write_inode_def split: if_splits)
  ultimately show ?thesis by auto
qed

section \<open>Superblock information: sync, then mount\<close>

text \<open>The k-th block of a bitmap.\<close>

definition chunk :: "byte list \<Rightarrow> nat \<Rightarrow> byte list" where
  "chunk bitmap k = take 4096 (drop (k * 4096) bitmap)"

lemma sync_bitmap_spec:
  assumes "wf_bufs s" "(i + n) * 4096 \<le> length bitmap" "\<forall>b. bread_ok env b"
  shows "\<exists>s'. sync_bitmap env True first bitmap i n s = Some (0, s') \<and> wf_bufs s' \<and>
    (\<forall>k < n. bufs s' (first + i + k) = chunk bitmap (i + k) \<and> media s' (first + i + k) = chunk bitmap (i + k)) \<and>
    (\<forall>b. b < first + i \<or> first + i + n \<le> b \<longrightarrow> bufs s' b = bufs s b \<and> media s' b = media s b) \<and>
    sbi s' = sbi s \<and> inodes s' = inodes s"
  using assms(1,2)
proof (induction n arbitrary: i s)
  case (Suc n)
  let ?b = "first + i"
  have len: "length (chunk bitmap i) = 4096" using Suc.prems(2) by (simp add: chunk_def)
  have rd: "mem_read bitmap (int (i * OUICHEFS_BLOCK_SIZE)) OUICHEFS_BLOCK_SIZE = Some (chunk bitmap i)"
    using Suc.prems(2) by (simp add: mem_read_def OUICHEFS_BLOCK_SIZE_def chunk_def nat_mult_distrib)
  have wr: "mem_write (bufs s ?b) 0 (chunk bitmap i) = Some (chunk bitmap i)"
    using len Suc.prems(1) by (simp add: mem_write_def wf_bufs_length overlay_def)
  define s1 where "s1 = write_back ?b (set_buf ?b (chunk bitmap i) s)"
  have step: "sync_bitmap env True first bitmap i (Suc n) s = sync_bitmap env True first bitmap (Suc i) n s1"
    using assms(3) rd wr by (simp add: s1_def write_back_def)
  have wf1: "wf_bufs s1" using Suc.prems(1) len by (simp add: s1_def wf_bufs_set_buf)
  from Suc.IH [OF wf1, of "Suc i"] Suc.prems(2) obtain s' where IH:
    "sync_bitmap env True first bitmap (Suc i) n s1 = Some (0, s')" "wf_bufs s'"
    "\<forall>k < n. bufs s' (first + Suc i + k) = chunk bitmap (Suc i + k) \<and> media s' (first + Suc i + k) = chunk bitmap (Suc i + k)"
    "\<forall>b. b < first + Suc i \<or> first + Suc i + n \<le> b \<longrightarrow> bufs s' b = bufs s1 b \<and> media s' b = media s1 b"
    "sbi s' = sbi s1" "inodes s' = inodes s1"
    by auto
  have "bufs s' (first + i + k) = chunk bitmap (i + k) \<and> media s' (first + i + k) = chunk bitmap (i + k)" if "k < Suc n" for k
  proof (cases k)
    case 0
    then show ?thesis using IH(4) by (simp add: s1_def)
  next
    case (Suc k')
    then show ?thesis using IH(3) that by simp
  qed
  with IH step show ?case by (intro exI [of _ s']) (simp add: s1_def)
qed auto

lemma read_bitmap_spec:
  assumes "\<forall>b. bread_ok env b"
  shows "\<lbrakk>\<forall>k < n. bufs t (first + i + k) = chunk bitmap (i + k); (i + n) * 4096 \<le> length bitmap\<rbrakk> \<Longrightarrow>
    read_bitmap env first i n t = Some (take (n * 4096) (drop (i * 4096) bitmap))"
proof (induction n arbitrary: i)
  case (Suc n)
  have "read_bitmap env first (Suc i) n t = Some (take (n * 4096) (drop (Suc i * 4096) bitmap))"
  proof (rule Suc.IH)
    show "\<forall>k < n. bufs t (first + Suc i + k) = chunk bitmap (Suc i + k)"
      using Suc.prems(1) by (metis Suc_less_eq add_Suc_right add_Suc)
  qed (use Suc.prems(2) in simp)
  moreover have "bufs t (first + i) = chunk bitmap i" using Suc.prems(1) by auto
  moreover have "take (Suc n * 4096) (drop (i * 4096) bitmap) =
      chunk bitmap i @ take (n * 4096) (drop (Suc i * 4096) bitmap)"
    using take_add [of 4096 "n * 4096" "drop (i * 4096) bitmap"] by (simp add: chunk_def add.commute)
  ultimately show ?case using assms by (simp add: OUICHEFS_BLOCK_SIZE_def chunk_def)
qed simp

text \<open>The shape of the superblock information of a mounted partition.\<close>

definition sb_shape :: "sb_info \<Rightarrow> bool" where
  "sb_shape q \<longleftrightarrow> sb_fits q \<and> length (ifree_bitmap q) = nr_ifree_blocks q * 4096 \<and>
     length (bfree_bitmap q) = nr_bfree_blocks q * 4096"

text \<open>
  The shape of a mounted partition: a superblock with the magic number, whole bitmap blocks, and
  an inode store that holds all inodes.
\<close>

definition mounted :: "fs \<Rightarrow> bool" where
  "mounted s \<longleftrightarrow> sb_shape (sbi s) \<and> get32 (bufs s 0) 0 = OUICHEFS_MAGIC \<and> nr_inodes (sbi s) \<le> 51 * nr_istore_blocks (sbi s)"

lemma sync_fs_spec:
  assumes wf: "wf_bufs s" "sb_shape (sbi s)" and br: "\<forall>b. bread_ok env b"
  defines "q \<equiv> sbi s"
  defines "f1 \<equiv> nr_istore_blocks q + 1" and "f2 \<equiv> nr_istore_blocks q + nr_ifree_blocks q + 1"
  shows "\<exists>s1. ouichefs_sync_fs env True s = Some (0, s1) \<and> wf_bufs s1 \<and>
    bufs s1 0 = store_sb q (bufs s 0) \<and> media s1 0 = bufs s1 0 \<and>
    (\<forall>k < nr_ifree_blocks q. bufs s1 (f1 + k) = chunk (ifree_bitmap q) k \<and> media s1 (f1 + k) = chunk (ifree_bitmap q) k) \<and>
    (\<forall>k < nr_bfree_blocks q. bufs s1 (f2 + k) = chunk (bfree_bitmap q) k \<and> media s1 (f2 + k) = chunk (bfree_bitmap q) k) \<and>
    (\<forall>b. 0 < b \<longrightarrow> b < f1 \<or> f2 + nr_bfree_blocks q \<le> b \<longrightarrow> bufs s1 b = bufs s b \<and> media s1 b = media s b) \<and>
    sbi s1 = q \<and> inodes s1 = inodes s"
proof -
  define s0 where "s0 = write_back 0 (set_buf 0 (store_sb q (bufs s 0)) s)"
  have sb: "sync_sb_info env True s = (0, s0)" using br by (simp add: sync_sb_info_def s0_def q_def write_back_def)
  have wf0: "wf_bufs s0" "sbi s0 = q"
    using wf(1) store_sb_facts(1) by (simp_all add: s0_def q_def wf_bufs_set_buf wf_bufs_length)
  have len: "(0 + nr_ifree_blocks q) * 4096 \<le> length (ifree_bitmap q)" "(0 + nr_bfree_blocks q) * 4096 \<le> length (bfree_bitmap q)"
    using wf(2) by (simp_all add: sb_shape_def q_def)
  from sync_bitmap_spec [OF wf0(1) len(1) br, of f1] obtain s2 where s2:
    "sync_ifree env True s0 = Some (0, s2)" "wf_bufs s2"
    "\<forall>k < nr_ifree_blocks q. bufs s2 (f1 + k) = chunk (ifree_bitmap q) k \<and> media s2 (f1 + k) = chunk (ifree_bitmap q) k"
    "\<forall>b. b < f1 \<or> f1 + nr_ifree_blocks q \<le> b \<longrightarrow> bufs s2 b = bufs s0 b \<and> media s2 b = media s0 b" "sbi s2 = q" "inodes s2 = inodes s0"
    using wf0(2) by (auto simp: sync_ifree_def f1_def)
  from sync_bitmap_spec [OF s2(2) len(2) br, of f2] obtain s1 where s1:
    "sync_bfree env True s2 = Some (0, s1)" "wf_bufs s1"
    "\<forall>k < nr_bfree_blocks q. bufs s1 (f2 + k) = chunk (bfree_bitmap q) k \<and> media s1 (f2 + k) = chunk (bfree_bitmap q) k"
    "\<forall>b. b < f2 \<or> f2 + nr_bfree_blocks q \<le> b \<longrightarrow> bufs s1 b = bufs s2 b \<and> media s1 b = media s2 b" "sbi s1 = q" "inodes s1 = inodes s2"
    using s2(5) by (auto simp: sync_bfree_def f2_def)
  have "ouichefs_sync_fs env True s = Some (0, s1)"
    using sb s2(1) s1(1) by (simp add: ouichefs_sync_fs_def)
  moreover have "bufs s1 0 = store_sb q (bufs s 0) \<and> media s1 0 = bufs s1 0"
    using s1(4) s2(4) by (simp add: f1_def f2_def s0_def)
  moreover have "bufs s1 (f1 + k) = chunk (ifree_bitmap q) k \<and> media s1 (f1 + k) = chunk (ifree_bitmap q) k" if "k < nr_ifree_blocks q" for k
    using that s1(4) s2(3) by (simp add: f1_def f2_def)
  moreover have "bufs s1 b = bufs s b \<and> media s1 b = media s b" if "0 < b" "b < f1 \<or> f2 + nr_bfree_blocks q \<le> b" for b
  proof -
    have "b < f2 \<or> f2 + nr_bfree_blocks q \<le> b" "b < f1 \<or> f1 + nr_ifree_blocks q \<le> b"
      using that by (auto simp: f1_def f2_def)
    then have "bufs s1 b = bufs s2 b \<and> media s1 b = media s2 b" "bufs s2 b = bufs s0 b \<and> media s2 b = media s0 b" using s1(4) s2(4) by blast+
    then show ?thesis using that(1) by (simp add: s0_def)
  qed
  ultimately show ?thesis using s1 s2(6) by (auto simp: s0_def)
qed

text \<open>What the kernel offers to a mount; and the mount of a partition on which this information lies.\<close>

definition mount_ok :: "kenv \<Rightarrow> bool" where
  "mount_ok env \<longleftrightarrow> (\<forall>b. bread_ok env b) \<and> (\<forall>n. kzalloc_ok env n) \<and> d_make_root_ok env \<and> iget_locked env 1 = Some True"

lemma mount_synced:
  assumes env: "mount_ok env" and q: "sb_shape q" "1 < nr_inodes q"
    and blk: "length blk = 4096" "get32 blk 0 = OUICHEFS_MAGIC" "bufs t 0 = store_sb q blk"
    and maps: "\<forall>k < nr_ifree_blocks q. bufs t (nr_istore_blocks q + 1 + k) = chunk (ifree_bitmap q) k"
      "\<forall>k < nr_bfree_blocks q. bufs t (nr_istore_blocks q + nr_ifree_blocks q + 1 + k) = chunk (bfree_bitmap q) k"
  defines "root \<equiv> of_disk (load_dinode (bufs t (inode_block 1)) (inode_shift 1))"
  shows "\<exists>uid gid t'. ouichefs_fill_super env t = (0, t') \<and> sbi t' = q \<and> bufs t' = bufs t \<and>
    inodes t' = (inodes t)(1 := root\<lparr>i_uid := uid, i_gid := gid, i_mode := snd (snd (init_owner env None (i_mode root)))\<rparr>)"
proof -
  have br: "\<forall>b. bread_ok env b" using env by (simp add: mount_ok_def)
  have fits: "sb_fits q" "length (ifree_bitmap q) = nr_ifree_blocks q * 4096" "length (bfree_bitmap q) = nr_bfree_blocks q * 4096"
    using q(1) by (simp_all add: sb_shape_def)
  have rb: "read_bitmap env (nr_istore_blocks q + 1) 0 (nr_ifree_blocks q) t = Some (ifree_bitmap q)"
    "read_bitmap env (nr_istore_blocks q + nr_ifree_blocks q + 1) 0 (nr_bfree_blocks q) t = Some (bfree_bitmap q)"
    using read_bitmap_spec [OF br, of "nr_ifree_blocks q" t "nr_istore_blocks q + 1" 0 "ifree_bitmap q"]
      read_bitmap_spec [OF br, of "nr_bfree_blocks q" t "nr_istore_blocks q + nr_ifree_blocks q + 1" 0 "bfree_bitmap q"] maps fits by simp_all
  have ld: "load_sb (bufs t 0) = q\<lparr>ifree_bitmap := [], bfree_bitmap := []\<rparr>" "get32 (bufs t 0) 0 = OUICHEFS_MAGIC"
    using store_sb_facts(2,3) [OF blk(1), of q] blk(2,3) fits(1) by simp_all
  obtain uid gid mode where ig: "init_owner env None (i_mode root) = (uid, gid, mode)" by (metis prod_cases3)
  define t' where "t' = set_inode 1 (root\<lparr>i_uid := uid, i_gid := gid, i_mode := mode\<rparr>) (t\<lparr>sbi := q\<rparr>)"
  have "ouichefs_fill_super env t = (0, t')"
    using ld rb br q(2) env ig
    by (simp add: ouichefs_fill_super_def Let_def ouichefs_iget_def mount_ok_def root_def [symmetric, unfolded One_nat_def] t'_def set_inode_def)
  then show ?thesis using ig by (auto simp: t'_def)
qed

text \<open>
  What \<open>ouichefs_sync_fs\<close> writes, a mount reads back: after a waiting sync of a file system with
  the right magic number, \<open>ouichefs_fill_super\<close> on buffers read from the medium succeeds and rebuilds
  exactly the in-memory superblock information, both bitmaps included.
\<close>

theorem sync_then_mount:
  assumes "wf_bufs s" "sb_shape (sbi s)" "get32 (bufs s 0) 0 = OUICHEFS_MAGIC" "1 < nr_inodes (sbi s)"
    and "\<forall>b. bread_ok env b" "\<forall>n. kzalloc_ok env n" "d_make_root_ok env" "iget_locked env 1 = Some True"
  shows "\<exists>s1. ouichefs_sync_fs env True s = Some (0, s1) \<and>
    (\<forall>t. bufs t = media s1 \<longrightarrow> (\<exists>t'. ouichefs_fill_super env t = (0, t') \<and> sbi t' = sbi s))"
proof -
  have env: "mount_ok env" using assms(5-8) by (simp add: mount_ok_def)
  from sync_fs_spec [OF assms(1,2,5)] obtain s1 where s1: "ouichefs_sync_fs env True s = Some (0, s1)"
    "bufs s1 0 = store_sb (sbi s) (bufs s 0)" "media s1 0 = bufs s1 0"
    "\<forall>k < nr_ifree_blocks (sbi s). media s1 (nr_istore_blocks (sbi s) + 1 + k) = chunk (ifree_bitmap (sbi s)) k"
    "\<forall>k < nr_bfree_blocks (sbi s). media s1 (nr_istore_blocks (sbi s) + nr_ifree_blocks (sbi s) + 1 + k) = chunk (bfree_bitmap (sbi s)) k"
    by blast
  have "\<exists>t'. ouichefs_fill_super env t = (0, t') \<and> sbi t' = sbi s" if "bufs t = media s1" for t
    using mount_synced [OF env assms(2,4) wf_bufs_length [OF assms(1)] assms(3), of t] s1(2-5) that by auto
  with s1(1) show ?thesis by blast
qed

text \<open>A partition of the demo's size with whole bitmap blocks and a superblock.\<close>

definition demo_mounted :: fs where
  "demo_mounted = set_buf 0 (put_fields [(0, le32_bytes OUICHEFS_MAGIC)] (replicate 4096 0))
     (demo_fs\<lparr>sbi := demo_sb\<lparr>ifree_bitmap := replicate 4096 0xFF, bfree_bitmap := replicate 4096 0xFC\<rparr>\<rparr>)"

theorem sync_then_mount_witness:
  "\<exists>s1 t'. ouichefs_sync_fs demo_env True demo_mounted = Some (0, s1) \<and>
     ouichefs_fill_super demo_env (s1\<lparr>bufs := media s1\<rparr>) = (0, t') \<and> sbi t' = sbi demo_mounted"
proof -
  have "length (put_fields [(0, le32_bytes OUICHEFS_MAGIC)] (replicate 4096 0)) = 4096" by simp
  then have "wf_bufs demo_mounted" using demo_wf(1) by (simp add: demo_mounted_def wf_bufs_set_buf fs_wf_def del: put_fields.simps)
  moreover have "sb_shape (sbi demo_mounted)" "1 < nr_inodes (sbi demo_mounted)"
    by (simp_all add: demo_mounted_def sb_shape_def sb_fits_def demo_sb_def)
  moreover have "get32 (bufs demo_mounted 0) 0 = OUICHEFS_MAGIC"
    using get_put_fields(1) [of 0 4 "[(0, le32_bytes OUICHEFS_MAGIC)]" "replicate 4096 0" 0 OUICHEFS_MAGIC]
    by (simp add: demo_mounted_def)
  ultimately obtain s1 where s1: "ouichefs_sync_fs demo_env True demo_mounted = Some (0, s1)"
      "\<forall>t. bufs t = media s1 \<longrightarrow> (\<exists>t'. ouichefs_fill_super demo_env t = (0, t') \<and> sbi t' = sbi demo_mounted)"
    using sync_then_mount [of demo_mounted demo_env] by (auto simp: demo_env_def)
  from s1(2) [THEN spec, of "s1\<lparr>bufs := media s1\<rparr>"] s1(1) show ?thesis by auto
qed

end
