(* ===== verification/Dirs.thy ===== *)
theory Dirs
  imports Super
begin

text \<open>
  Directories: the directory block (\<open>struct ouichefs_dir_block\<close>), the inode operations of inode.c
  (lookup, create, unlink, rename, mkdir, rmdir) and the listing of dir.c. A name is the list of its
  bytes without the terminating zero. Dentries and reference counts are not modelled.
\<close>

section \<open>The directory block\<close>

record dir_file =
  f_ino :: u32_word
  f_name :: "byte list"

fun dir_decode :: "nat \<Rightarrow> byte list \<Rightarrow> dir_file list" where
  "dir_decode 0 bs = []"
| "dir_decode (Suc n) bs = \<lparr>f_ino = get32 bs 0, f_name = take 28 (drop 4 bs)\<rparr> # dir_decode n (drop 32 bs)"

fun dir_encode :: "dir_file list \<Rightarrow> byte list" where
  "dir_encode [] = []"
| "dir_encode (f # fs) = le32_bytes (f_ino f) @ f_name f @ dir_encode fs"

definition wf_dir_block :: "dir_file list \<Rightarrow> bool" where
  "wf_dir_block fs \<longleftrightarrow> length fs = 128 \<and> (\<forall>f \<in> set fs. length (f_name f) = 28)"

definition no_file :: dir_file where
  "no_file = \<lparr>f_ino = 0, f_name = replicate 28 0\<rparr>"

lemma le32_bytes_get32: "4 \<le> length bs \<Longrightarrow> le32_bytes (get32 bs 0) = take 4 bs"
proof -
  assume "4 \<le> length bs"
  then obtain a b c d ds where "bs = a # b # c # d # ds"
    by (auto simp: numeral_eq_Suc Suc_le_length_iff)
  then show ?thesis by (simp add: get32_def le32_bytes_of)
qed

lemma get32_le32_bytes: "get32 (le32_bytes w @ bs) 0 = w"
  by (simp add: get32_def) (simp add: le32_bytes_def le32_of_bytes)

lemma dir_decode_encode:
  "\<forall>f \<in> set fs. length (f_name f) = 28 \<Longrightarrow> dir_decode (length fs) (dir_encode fs) = fs"
  by (induction fs) (simp_all add: get32_le32_bytes)

lemma dir_encode_decode: "length bs = 32 * n \<Longrightarrow> dir_encode (dir_decode n bs) = bs"
proof (induction n arbitrary: bs)
  case (Suc n)
  then have "dir_encode (dir_decode n (drop 32 bs)) = drop 32 bs" by simp
  moreover have "take 4 bs @ take 28 (drop 4 bs) @ drop 32 bs = bs"
    using append_take_drop_id [of 4 bs] append_take_drop_id [of 28 "drop 4 bs"] by simp
  ultimately show ?case using Suc.prems by (simp add: le32_bytes_get32)
qed simp

lemma length_dir_encode: "\<forall>f \<in> set fs. length (f_name f) = 28 \<Longrightarrow> length (dir_encode fs) = 32 * length fs"
  by (induction fs) simp_all

lemma dir_decode_wf: "length bs = 32 * n \<Longrightarrow>
  length (dir_decode n bs) = n \<and> (\<forall>f \<in> set (dir_decode n bs). length (f_name f) = 28)"
proof (induction n arbitrary: bs)
  case (Suc n)
  then have "length (drop 32 bs) = 32 * n" by simp
  from Suc.IH [OF this] Suc.prems show ?case by simp
qed simp

lemma dir_decode_zeros: "dir_decode n (replicate (32 * n) 0) = replicate n no_file"
proof (induction n)
  case (Suc n)
  have "replicate (32 * Suc n) (0 :: byte) = replicate 4 0 @ replicate 28 0 @ replicate (32 * n) 0"
    by (simp add: replicate_add [symmetric])
  with Suc show ?case by (simp add: no_file_def get32_def le32_def numeral_eq_Suc)
qed simp

interpretation dir_view: block_view "dir_decode 128" dir_encode wf_dir_block
proof (unfold_locales, goal_cases)
  case (1 bs)
  then show ?case using dir_decode_wf [of bs 128] by (simp add: wf_dir_block_def del: dir_decode.simps)
next
  case (2 v)
  then show ?case using length_dir_encode [of v] by (simp add: wf_dir_block_def)
next
  case (3 v)
  then show ?case using dir_decode_encode [of v] by (simp add: wf_dir_block_def del: dir_decode.simps)
next
  case (4 bs)
  then show ?case using dir_encode_decode [of bs 128] by (simp del: dir_decode.simps)
qed

definition load_dir :: "fs \<Rightarrow> nat \<Rightarrow> dir_file list" where
  "load_dir s b = dir_decode 128 (bufs s b)"

definition store_dir :: "nat \<Rightarrow> dir_file list \<Rightarrow> fs \<Rightarrow> fs" where
  "store_dir b files s = set_buf b (dir_encode files) s"

lemma load_store_dir:
  "wf_dir_block fs \<Longrightarrow> load_dir (store_dir b fs s) c = (if c = b then fs else load_dir s c)"
  unfolding load_dir_def store_dir_def using dir_view.decode_set_buf [of fs b s c] by simp

lemma wf_load_dir: "wf_bufs s \<Longrightarrow> wf_dir_block (load_dir s b)"
  unfolding load_dir_def by (rule dir_view.wf_load)

section \<open>Names and modes\<close>

definition OUICHEFS_FILENAME_LEN :: nat where "OUICHEFS_FILENAME_LEN = 28"
definition OUICHEFS_MAX_SUBFILES :: nat where "OUICHEFS_MAX_SUBFILES = 128"

definition S_ISDIR :: "16 word \<Rightarrow> bool" where "S_ISDIR mode \<longleftrightarrow> mode AND 0xF000 = 0x4000"
definition S_ISREG :: "16 word \<Rightarrow> bool" where "S_ISREG mode \<longleftrightarrow> mode AND 0xF000 = 0x8000"
definition S_IFDIR :: "16 word" where "S_IFDIR = 0x4000"

text \<open>\<open>strscpy(dst, name, 28)\<close>: at most 27 bytes and a zero; the rest of the field is not touched.\<close>

definition strscpy :: "byte list \<Rightarrow> byte list \<Rightarrow> byte list" where
  "strscpy dst name = overlay dst 0 (take (OUICHEFS_FILENAME_LEN - 1) name @ [0])"

text \<open>\<open>strncmp(filename, name, 28) == 0\<close> for a name that contains no zero byte.\<close>

definition name_eq :: "byte list \<Rightarrow> byte list \<Rightarrow> bool" where
  "name_eq filename name \<longleftrightarrow>
     takeWhile (\<lambda>c. c \<noteq> 0) (take OUICHEFS_FILENAME_LEN filename) = take OUICHEFS_FILENAME_LEN name"

definition touch_dir :: "kenv \<Rightarrow> inode \<Rightarrow> inode" where
  "touch_dir env D = D\<lparr>i_mtime := current_time env, i_atime := current_time env, i_ctime := current_time env\<rparr>"

section \<open>Lookup\<close>

fun lookup_loop :: "dir_file list \<Rightarrow> byte list \<Rightarrow> u32_word option" where
  "lookup_loop [] name = None"
| "lookup_loop (f # fs) name =
     (if f_ino f = 0 then None
      else if name_eq (f_name f) name then Some (f_ino f)
      else lookup_loop fs name)"

text \<open>
  What \<open>ouichefs_lookup\<close> does: it fails, or it returns NULL after \<open>d_add\<close> of NULL (no such name), of an
  inode, or of the error pointer that \<open>ouichefs_iget\<close> returned.
\<close>

datatype lookup_result = Lookup_error int | Add_null | Add_inode nat | Add_error_pointer int

definition ouichefs_lookup :: "kenv \<Rightarrow> nat \<Rightarrow> byte list \<Rightarrow> fs \<Rightarrow> lookup_result \<times> fs" where
  "ouichefs_lookup env dir name s =
     (let D = inodes s dir in
      if length name > OUICHEFS_FILENAME_LEN then (Lookup_error (- ENAMETOOLONG), s)
      else if \<not> bread_ok env (index_block D) then (Lookup_error (- EIO), s)
      else
        (case (case lookup_loop (load_dir s (index_block D)) name of
                 None \<Rightarrow> (Add_null, s)
               | Some ino \<Rightarrow>
                   (case ouichefs_iget env (unat ino) s of
                      (Inl e, s) \<Rightarrow> (Add_error_pointer e, s)
                    | (Inr i, s) \<Rightarrow> (Add_inode i, s)))
         of (r, s) \<Rightarrow>
           (r, mark_inode_dirty dir (set_inode dir ((inodes s dir)\<lparr>i_atime := current_time env\<rparr>) s))))"

section \<open>Creation\<close>

definition ouichefs_new_inode :: "kenv \<Rightarrow> nat \<Rightarrow> 16 word \<Rightarrow> fs \<Rightarrow> ((int + nat) \<times> fs) option" where
  "ouichefs_new_inode env dir mode s =
     (if \<not> S_ISDIR mode \<and> \<not> S_ISREG mode then Some (Inl (- EINVAL), s)
      else if nr_free_inodes (sbi s) = 0 \<or> nr_free_blocks (sbi s) = 0 then Some (Inl (- ENOSPC), s)
      else
        do { (ino, q) \<leftarrow> get_free_inode (sbi s);
             let s = s\<lparr>sbi := q\<rparr>;
             if ino = 0 then Some (Inl (- ENOSPC), s)
             else
               (case ouichefs_iget env ino s of
                  (Inl e, s) \<Rightarrow> do { q \<leftarrow> put_inode (sbi s) ino; Some (Inl e, s\<lparr>sbi := q\<rparr>) }
                | (Inr i, s) \<Rightarrow>
                    do { (bno, q) \<leftarrow> get_free_block (sbi s);
                         let s = s\<lparr>sbi := q\<rparr>;
                         if bno = 0 then do { q \<leftarrow> put_inode (sbi s) ino; Some (Inl (- ENOSPC), s\<lparr>sbi := q\<rparr>) }
                         else
                           (case init_owner env (Some dir) mode of (uid, gid, m) \<Rightarrow>
                            Some (Inr i, set_inode i
                              ((inodes s i)\<lparr>index_block := bno, i_uid := uid, i_gid := gid, i_mode := m, i_blocks := 1,
                                 i_size := (if S_ISDIR mode then int OUICHEFS_BLOCK_SIZE else 0),
                                 i_nlink := (if S_ISDIR mode then 2 else 1),
                                 i_ctime := current_time env, i_atime := current_time env,
                                 i_mtime := current_time env\<rparr>) s)) }) })"

text \<open>The first free slot of a directory block.\<close>

fun first_free :: "dir_file list \<Rightarrow> nat" where
  "first_free [] = 0"
| "first_free (f # fs) = (if f_ino f = 0 then 0 else Suc (first_free fs))"

definition inode_inc_link_count :: "nat \<Rightarrow> fs \<Rightarrow> fs" where
  "inode_inc_link_count ino s =
     mark_inode_dirty ino (set_inode ino ((inodes s ino)\<lparr>i_nlink := u32 (int (i_nlink (inodes s ino)) + 1)\<rparr>) s)"

definition inode_dec_link_count :: "nat \<Rightarrow> fs \<Rightarrow> fs" where
  "inode_dec_link_count ino s =
     mark_inode_dirty ino (set_inode ino ((inodes s ino)\<lparr>i_nlink := u32 (int (i_nlink (inodes s ino)) - 1)\<rparr>) s)"

definition ouichefs_create :: "kenv \<Rightarrow> nat \<Rightarrow> byte list \<Rightarrow> 16 word \<Rightarrow> fs \<Rightarrow> (int \<times> fs) option" where
  "ouichefs_create env dir name mode s =
     (let db = index_block (inodes s dir) in
      if length name > OUICHEFS_FILENAME_LEN then Some (- ENAMETOOLONG, s)
      else if \<not> bread_ok env db then Some (- EIO, s)
      else
        do { last \<leftarrow> arr (load_dir s db) (int OUICHEFS_MAX_SUBFILES - 1);
             if f_ino last \<noteq> 0 then Some (- EMLINK, s)
             else
               do { (r, s) \<leftarrow> ouichefs_new_inode env dir mode s;
                    case r of
                      Inl e \<Rightarrow> Some (e, s)
                    | Inr ino \<Rightarrow>
                        (let ib = index_block (inodes s ino) in
                         if \<not> bread_ok env ib then
                           do { q \<leftarrow> put_block (sbi s) ib;
                                q \<leftarrow> put_inode q ino;
                                Some (- EIO, s\<lparr>sbi := q\<rparr>) }
                         else
                           do { let s = mark_buffer_dirty ib (set_buf ib (replicate OUICHEFS_BLOCK_SIZE 0) s);
                                let i = first_free (load_dir s db);
                                f \<leftarrow> arr (load_dir s db) (int i);
                                files \<leftarrow> arr_set (load_dir s db) (int i)
                                          (f\<lparr>f_ino := word_of_nat ino, f_name := strscpy (f_name f) name\<rparr>);
                                let s = mark_buffer_dirty db (store_dir db files s);
                                let s = mark_inode_dirty ino s;
                                let s = set_inode dir (touch_dir env (inodes s dir)) s;
                                let s = (if S_ISDIR mode then inode_inc_link_count dir s else s);
                                Some (0, mark_inode_dirty dir s) }) } })"

definition ouichefs_mkdir :: "kenv \<Rightarrow> nat \<Rightarrow> byte list \<Rightarrow> 16 word \<Rightarrow> fs \<Rightarrow> (int \<times> fs) option" where
  "ouichefs_mkdir env dir name mode s = ouichefs_create env dir name (mode OR S_IFDIR) s"

section \<open>Removal\<close>

text \<open>
  The search of unlink: the last slot (before the first free one) that holds \<open>ino\<close>, or -1, and the
  number of used slots. The search of rename has no bound: it reads past the block when no slot is
  free.
\<close>

fun find_sub :: "dir_file list \<Rightarrow> u32_word \<Rightarrow> int \<Rightarrow> int \<Rightarrow> int \<times> int" where
  "find_sub [] ino i f_id = (f_id, i)"
| "find_sub (f # fs) ino i f_id =
     (if f_ino f = ino then find_sub fs ino (i + 1) i
      else if f_ino f = 0 then (f_id, i)
      else find_sub fs ino (i + 1) f_id)"

fun find_sub_unbounded :: "dir_file list \<Rightarrow> u32_word \<Rightarrow> int \<Rightarrow> int \<Rightarrow> (int \<times> int) option" where
  "find_sub_unbounded [] ino i f_id = None"
| "find_sub_unbounded (f # fs) ino i f_id =
     (if f_ino f = ino then find_sub_unbounded fs ino (i + 1) i
      else if f_ino f = 0 then Some (f_id, i)
      else find_sub_unbounded fs ino (i + 1) f_id)"

text \<open>The \<open>memmove\<close> over the removed entry and the \<open>memset\<close> of the last used one.\<close>

definition remove_sub :: "dir_file list \<Rightarrow> int \<Rightarrow> int \<Rightarrow> dir_file list option" where
  "remove_sub files f_id nr_subs =
     do { files \<leftarrow>
            (if f_id \<noteq> int OUICHEFS_MAX_SUBFILES - 1 then
               (let cnt = nr_subs - f_id - 1 in
                if 0 \<le> f_id \<and> 0 \<le> cnt \<and> f_id + 1 + cnt \<le> int (length files)
                then Some (overlay files (nat f_id) (take (nat cnt) (drop (nat (f_id + 1)) files)))
                else None)
             else Some files);
          arr_set files (nr_subs - 1) no_file }"

text \<open>The loop over the data blocks of an unlinked file.\<close>

function unlink_free :: "kenv \<Rightarrow> nat \<Rightarrow> nat \<Rightarrow> nat \<Rightarrow> fs \<Rightarrow> fs option" where
  "unlink_free env ib blocks i s =
     (if i < u64 (int blocks - 1) then
        (if 1024 \<le> i then None
         else case arr (load_index s ib) (int i) of
                None \<Rightarrow> None
              | Some e \<Rightarrow>
                  if e = 0 then unlink_free env ib blocks (Suc i) s
                  else
                    (case put_block (sbi s) (get_block_number e) of
                       None \<Rightarrow> None
                     | Some q \<Rightarrow>
                         (let b = get_block_number e; s = s\<lparr>sbi := q\<rparr> in
                          unlink_free env ib blocks (Suc i)
                            (if bread_ok env b
                             then mark_buffer_dirty b (set_buf b (replicate OUICHEFS_BLOCK_SIZE 0) s)
                             else s))))
      else Some s)"
  by pat_completeness auto
termination
  by (relation "measure (\<lambda>(env, ib, blocks, i, s). 1024 - i)") auto

declare unlink_free.simps [simp del]

text \<open>The label \<open>clean_inode\<close> of \<open>ouichefs_unlink\<close>.\<close>

definition clean_inode :: "nat \<Rightarrow> nat \<Rightarrow> fs \<Rightarrow> (int \<times> fs) option" where
  "clean_inode ino bno s =
     (let zero = \<lparr>tv_sec = 0, tv_nsec = 0\<rparr>;
          s = set_inode ino ((inodes s ino)\<lparr>i_blocks := 0, index_block := 0, i_size := 0, i_uid := 0, i_gid := 0,
                i_mode := 0, i_ctime := zero, i_mtime := zero, i_atime := zero\<rparr>) s;
          s = mark_inode_dirty ino (inode_dec_link_count ino s) in
      do { q \<leftarrow> put_block (sbi s) bno;
           q \<leftarrow> put_inode q ino;
           Some (0, s\<lparr>sbi := q\<rparr>) })"

definition ouichefs_unlink :: "kenv \<Rightarrow> nat \<Rightarrow> nat \<Rightarrow> fs \<Rightarrow> (int \<times> fs) option" where
  "ouichefs_unlink env dir ino s =
     (let bno = index_block (inodes s ino); db = index_block (inodes s dir) in
      if \<not> bread_ok env db then Some (- EIO, s)
      else
        do { let (f_id, nr_subs) = find_sub (load_dir s db) (word_of_nat ino) 0 (-1);
             files \<leftarrow> remove_sub (load_dir s db) f_id nr_subs;
             let s = mark_buffer_dirty db (store_dir db files s);
             let s = set_inode dir (touch_dir env (inodes s dir)) s;
             let s = (if S_ISDIR (i_mode (inodes s ino)) then inode_dec_link_count dir s else s);
             let s = mark_inode_dirty dir s;
             if \<not> bread_ok env bno then clean_inode ino bno s
             else
               do { s \<leftarrow> (if S_ISDIR (i_mode (inodes s ino)) then Some s
                          else unlink_free env bno (i_blocks (inodes s ino)) 0 s);
                    clean_inode ino bno
                      (mark_buffer_dirty bno (set_buf bno (replicate OUICHEFS_BLOCK_SIZE 0) s)) } })"

definition ouichefs_rmdir :: "kenv \<Rightarrow> nat \<Rightarrow> nat \<Rightarrow> fs \<Rightarrow> (int \<times> fs) option" where
  "ouichefs_rmdir env dir ino s =
     (let ib = index_block (inodes s ino) in
      if i_nlink (inodes s ino) > 2 then Some (- ENOTEMPTY, s)
      else if \<not> bread_ok env ib then Some (- EIO, s)
      else
        do { f \<leftarrow> arr (load_dir s ib) 0;
             if f_ino f \<noteq> 0 then Some (- ENOTEMPTY, s)
             else ouichefs_unlink env dir ino s })"

section \<open>Renaming\<close>

definition RENAME_EXCHANGE :: u32_word where "RENAME_EXCHANGE = 2"
definition RENAME_WHITEOUT :: u32_word where "RENAME_WHITEOUT = 4"

text \<open>
  The scan of the target directory: \<open>None\<close> when the new name exists, otherwise the position of the
  renamed file (when both directories are the same) and of the first free slot, -1 when there is none.
\<close>

fun rename_scan :: "bool \<Rightarrow> byte list \<Rightarrow> byte list \<Rightarrow> dir_file list \<Rightarrow> int \<Rightarrow> int \<Rightarrow> int \<Rightarrow> (int \<times> int) option" where
  "rename_scan same old_name new_name [] i f_pos new_pos = Some (f_pos, new_pos)"
| "rename_scan same old_name new_name (f # fs) i f_pos new_pos =
     (let f_pos = (if same \<and> name_eq (f_name f) old_name then i else f_pos) in
      if name_eq (f_name f) new_name then None
      else rename_scan same old_name new_name fs (i + 1) f_pos (if new_pos < 0 \<and> f_ino f = 0 then i else new_pos))"

definition ouichefs_rename ::
    "kenv \<Rightarrow> nat \<Rightarrow> nat \<Rightarrow> byte list \<Rightarrow> nat \<Rightarrow> byte list \<Rightarrow> u32_word \<Rightarrow> fs \<Rightarrow> (int \<times> fs) option" where
  "ouichefs_rename env old_dir src old_name new_dir new_name flags s =
     (let nb = index_block (inodes s new_dir); ob = index_block (inodes s old_dir) in
      if flags AND (RENAME_EXCHANGE OR RENAME_WHITEOUT) \<noteq> 0 then Some (- EINVAL, s)
      else if length new_name > OUICHEFS_FILENAME_LEN then Some (- ENAMETOOLONG, s)
      else if \<not> bread_ok env nb then Some (- EIO, s)
      else case rename_scan (new_dir = old_dir) old_name new_name (load_dir s nb) 0 (-1) (-1) of
             None \<Rightarrow> Some (- EEXIST, s)
           | Some (f_pos, new_pos) \<Rightarrow>
               if old_dir = new_dir then
                 do { f \<leftarrow> arr (load_dir s nb) f_pos;
                      files \<leftarrow> arr_set (load_dir s nb) f_pos (f\<lparr>f_name := strscpy (f_name f) new_name\<rparr>);
                      Some (0, mark_buffer_dirty nb (store_dir nb files s)) }
               else if new_pos < 0 then Some (- EMLINK, s)
               else
                 do { f \<leftarrow> arr (load_dir s nb) new_pos;
                      files \<leftarrow> arr_set (load_dir s nb) new_pos
                                (f\<lparr>f_ino := word_of_nat src, f_name := strscpy (f_name f) new_name\<rparr>);
                      let s = mark_buffer_dirty nb (store_dir nb files s);
                      let s = set_inode new_dir (touch_dir env (inodes s new_dir)) s;
                      let s = (if S_ISDIR (i_mode (inodes s src)) then inode_inc_link_count new_dir s else s);
                      let s = mark_inode_dirty new_dir s;
                      if \<not> bread_ok env ob then Some (- EIO, s)
                      else
                        do { (f_id, nr_subs) \<leftarrow> find_sub_unbounded (load_dir s ob) (word_of_nat src) 0 (-1);
                             files \<leftarrow> remove_sub (load_dir s ob) f_id nr_subs;
                             let s = mark_buffer_dirty ob (store_dir ob files s);
                             let s = set_inode old_dir (touch_dir env (inodes s old_dir)) s;
                             let s = (if S_ISDIR (i_mode (inodes s src)) then inode_dec_link_count old_dir s else s);
                             Some (0, mark_inode_dirty old_dir s) } })"

section \<open>Listing (dir.c)\<close>

text \<open>
  The context of a listing: the position and what was emitted. \<open>dir_emit\<close> and \<open>dir_emit_dots\<close> are
  functions of the VFS: the first takes an entry or refuses it.
\<close>

record dir_context =
  ctx_pos :: int
  emitted :: "(byte list \<times> nat) list"

function iterate_loop ::
    "(dir_context \<Rightarrow> byte list \<Rightarrow> nat \<Rightarrow> dir_context option) \<Rightarrow> dir_file list \<Rightarrow> int \<Rightarrow> dir_context \<Rightarrow>
     dir_context option" where
  "iterate_loop dir_emit files i ctx =
     (if i < int OUICHEFS_MAX_SUBFILES then
        (case arr files i of
           None \<Rightarrow> None
         | Some f \<Rightarrow>
             if f_ino f = 0 then Some ctx
             else (case dir_emit ctx (f_name f) (unat (f_ino f)) of
                     None \<Rightarrow> Some ctx
                   | Some ctx' \<Rightarrow> iterate_loop dir_emit files (i + 1) (ctx'\<lparr>ctx_pos := ctx_pos ctx' + 1\<rparr>)))
      else Some ctx)"
  by pat_completeness auto
termination
  by (relation "measure (\<lambda>(e, files, i, ctx). nat (128 - i))") (auto simp: OUICHEFS_MAX_SUBFILES_def)

declare iterate_loop.simps [simp del]

definition ouichefs_iterate ::
    "kenv \<Rightarrow> (dir_context \<Rightarrow> bool \<times> dir_context) \<Rightarrow>
     (dir_context \<Rightarrow> byte list \<Rightarrow> nat \<Rightarrow> dir_context option) \<Rightarrow> nat \<Rightarrow> dir_context \<Rightarrow> fs \<Rightarrow>
     (int \<times> dir_context) option" where
  "ouichefs_iterate env dir_emit_dots dir_emit dir ctx s =
     (let D = inodes s dir in
      if \<not> S_ISDIR (i_mode D) then Some (- ENOTDIR, ctx)
      else if ctx_pos ctx > int OUICHEFS_MAX_SUBFILES + 2 then Some (0, ctx)
      else case dir_emit_dots ctx of
             (False, ctx) \<Rightarrow> Some (0, ctx)
           | (True, ctx) \<Rightarrow>
               if \<not> bread_ok env (index_block D) then Some (- EIO, ctx)
               else do { ctx \<leftarrow> iterate_loop dir_emit (load_dir s (index_block D)) (s32 (ctx_pos ctx - 2)) ctx;
                         Some (0, ctx) })"

end
