(* ===== verification/FileOps.thy ===== *)
theory FileOps
  imports Insert Demo
begin

text \<open>
  The address-space and open operations of file.c. The VFS helpers that call back into them
  (\<open>block_write_begin\<close>, \<open>generic_write_end\<close>) are parameters. The page cache itself is not modelled:
  \<open>truncate_pagecache\<close> has no effect here.
\<close>

section \<open>The operations\<close>

text \<open>
  \<open>ouichefs_file_get_block\<close>: the result, the block mapped to the caller's buffer head if any, and
  the state. The index buffer is changed but not marked dirty, and \<open>i_blocks\<close> is not updated.
\<close>

definition ouichefs_file_get_block ::
    "kenv \<Rightarrow> nat \<Rightarrow> nat \<Rightarrow> bool \<Rightarrow> fs \<Rightarrow> (int \<times> nat option \<times> fs) option" where
  "ouichefs_file_get_block env ino iblock create s =
     (let ib = index_block (inodes s ino) in
      if iblock \<ge> OUICHEFS_BLOCK_SIZE div 4 then Some (- EFBIG, None, s)
      else if \<not> bread_ok env ib then Some (- EIO, None, s)
      else
        do { e \<leftarrow> arr (load_index s ib) (int iblock);
             if e = 0 then
               (if \<not> create then Some (0, None, s)
                else
                  do { (bno, q) \<leftarrow> get_free_block (sbi s);
                       if bno = 0 then Some (- ENOSPC, None, s\<lparr>sbi := q\<rparr>)
                       else Some (0, Some bno,
                              store_index ib ((load_index s ib)[iblock := set_block_number e bno]) (s\<lparr>sbi := q\<rparr>)) })
             else Some (0, Some (get_block_number e), s) })"

text \<open>
  The callbacks that only pass this mapping on; \<open>mpage_read_folio\<close>, \<open>mpage_readahead\<close> and
  \<open>block_write_full_page\<close> of the kernel are parameters.
\<close>

type_synonym get_block = "kenv \<Rightarrow> nat \<Rightarrow> nat \<Rightarrow> bool \<Rightarrow> fs \<Rightarrow> (int \<times> nat option \<times> fs) option"

definition ouichefs_read_folio :: "('folio \<Rightarrow> get_block \<Rightarrow> 'r) \<Rightarrow> 'folio \<Rightarrow> 'r" where
  "ouichefs_read_folio mpage_read_folio folio = mpage_read_folio folio ouichefs_file_get_block"

definition ouichefs_readahead :: "('rac \<Rightarrow> get_block \<Rightarrow> 'r) \<Rightarrow> 'rac \<Rightarrow> 'r" where
  "ouichefs_readahead mpage_readahead rac = mpage_readahead rac ouichefs_file_get_block"

definition ouichefs_writepage :: "('page \<Rightarrow> get_block \<Rightarrow> 'wbc \<Rightarrow> 'r) \<Rightarrow> 'page \<Rightarrow> 'wbc \<Rightarrow> 'r" where
  "ouichefs_writepage block_write_full_page page wbc = block_write_full_page page ouichefs_file_get_block wbc"

definition ouichefs_write_begin ::
    "(int \<Rightarrow> nat \<Rightarrow> fs \<Rightarrow> (int \<times> fs) option) \<Rightarrow> file \<Rightarrow> int \<Rightarrow> nat \<Rightarrow> fs \<Rightarrow> (int \<times> fs) option" where
  "ouichefs_write_begin block_write_begin f pos len s =
     (let I = inodes s (f_inode f) in
      if pos + int len > int OUICHEFS_MAX_FILESIZE then Some (- ENOSPC, s)
      else
        (let nr_allocs = u32 (max (pos + int len) (i_size I) sdiv int OUICHEFS_BLOCK_SIZE);
             old = u64 (int (i_blocks I) - 1);
             nr_allocs = (if nr_allocs > old then u32 (int nr_allocs - int old) else 0) in
         if nr_allocs > nr_free_blocks (sbi s) then Some (- ENOSPC, s)
         else block_write_begin pos len s))"

text \<open>The loop of \<open>ouichefs_write_end\<close> passes whole entries to \<open>put_block\<close>, not block numbers.\<close>

function write_end_free :: "sb_info \<Rightarrow> entry list \<Rightarrow> nat \<Rightarrow> nat \<Rightarrow> (sb_info \<times> entry list) option" where
  "write_end_free q idx i stop =
     (if i < stop then
        case arr idx (int i) of
          None \<Rightarrow> None
        | Some e \<Rightarrow>
            (case put_block q (unat e) of
               None \<Rightarrow> None
             | Some q' \<Rightarrow> write_end_free q' (idx[i := 0]) (Suc i) stop)
      else Some (q, idx))"
  by pat_completeness auto
termination
  by (relation "measure (\<lambda>(q, idx, i, stop). stop - i)") auto

declare write_end_free.simps [simp del]

definition ouichefs_write_end ::
    "kenv \<Rightarrow> (int \<Rightarrow> nat \<Rightarrow> nat \<Rightarrow> fs \<Rightarrow> int \<times> fs) \<Rightarrow> file \<Rightarrow> int \<Rightarrow> nat \<Rightarrow> nat \<Rightarrow> fs \<Rightarrow> (int \<times> fs) option" where
  "ouichefs_write_end env generic_write_end f pos len copied s =
     (let ino = f_inode f in
      case generic_write_end pos len copied s of (ret, s) \<Rightarrow>
      if u32 ret < len then Some (ret, s)
      else
        (let I = inodes s ino;
             nr_blocks_old = u32 (int (i_blocks I));
             blocks = i_size I sdiv int OUICHEFS_BLOCK_SIZE + 1;
             blocks = u64 (if i_size I smod int OUICHEFS_BLOCK_SIZE \<noteq> 0 then blocks + 1 else blocks);
             I = I\<lparr>i_blocks := blocks, i_mtime := current_time env, i_ctime := current_time env\<rparr>;
             s = mark_inode_dirty ino (set_inode ino I s);
             ib = index_block I in
         if nr_blocks_old > blocks then
           (if \<not> bread_ok env ib then Some (ret, s)
            else
              do { (q, idx) \<leftarrow> write_end_free (sbi s) (load_index s ib)
                                (u32 (s32 (int blocks - 1))) (u32 (int nr_blocks_old - 1));
                   Some (ret, mark_buffer_dirty ib (store_index ib idx (s\<lparr>sbi := q\<rparr>))) })
         else Some (ret, s)))"

text \<open>The truncation loop of \<open>ouichefs_open\<close>: it stops at the first zero entry, not at the array's end.\<close>

function open_free :: "sb_info \<Rightarrow> entry list \<Rightarrow> nat \<Rightarrow> (sb_info \<times> entry list) option" where
  "open_free q idx iblock =
     (case arr idx (int iblock) of
        None \<Rightarrow> None
      | Some e \<Rightarrow>
          if e \<noteq> 0 then
            (case put_block q (get_block_number e) of
               None \<Rightarrow> None
             | Some q' \<Rightarrow> open_free q' (idx[iblock := 0]) (Suc iblock))
          else Some (q, idx))"
  by pat_completeness auto
termination
  by (relation "measure (\<lambda>(q, idx, i). length idx - i)") (auto dest!: arr_SomeD)

declare open_free.simps [simp del]

definition ouichefs_open :: "kenv \<Rightarrow> file \<Rightarrow> fs \<Rightarrow> (int \<times> fs) option" where
  "ouichefs_open env f s =
     (let ino = f_inode f; I = inodes s ino; ib = index_block I;
          wronly = (f_flags f AND O_WRONLY \<noteq> 0);
          rdwr = (f_flags f AND O_RDWR \<noteq> 0);
          trunc = (f_flags f AND O_TRUNC \<noteq> 0) in
      if (wronly \<or> rdwr) \<and> trunc \<and> i_size I \<noteq> 0 then
        (if \<not> bread_ok env ib then Some (- EIO, s)
         else
           do { (q, idx) \<leftarrow> open_free (sbi s) (load_index s ib) 0;
                Some (0, set_inode ino (I\<lparr>i_size := 0, i_blocks := 0\<rparr>) (store_index ib idx (s\<lparr>sbi := q\<rparr>))) })
      else Some (0, s))"

section \<open>Mapping a block of the page cache\<close>

text \<open>
  C17: With free blocks left, mapping an unallocated block of a file for writing allocates it: the
  call maps a block that was free, is not block 0, and is taken out of the free set, and a later
  lookup of the same block, with or without \<open>create\<close>, maps the same block and changes nothing.
\<close>

theorem get_block_allocates_once:
  assumes "fs_wf s" "bread_ok env (index_block (inodes s ino))" "iblock < 1024"
    and "load_index s (index_block (inodes s ino)) ! iblock = 0" "0 < nr_free_blocks (sbi s)"
  shows "\<exists>bno s'. ouichefs_file_get_block env ino iblock True s = Some (0, Some bno, s') \<and>
    bno \<in> free_blocks (sbi s) \<and> 0 < bno \<and> free_blocks (sbi s') = free_blocks (sbi s) - {bno} \<and> fs_wf s' \<and>
    (\<forall>create. ouichefs_file_get_block env ino iblock create s' = Some (0, Some bno, s'))"
proof -
  let ?ib = "index_block (inodes s ino)"
  have wf: "wf_bufs s" "block_map_wf (sbi s)" "nr_blocks (sbi s) \<le> 2 ^ 19" using assms(1) by (simp_all add: fs_wf_def)
  from balloc.alloc_fresh [OF wf(2) assms(5)] obtain bno q where q: "get_free_block (sbi s) = Some (bno, q)"
      "bno \<in> free_blocks (sbi s)" "0 < bno" "bno < nr_blocks (sbi s)" "block_map_wf q"
      "free_blocks q = free_blocks (sbi s) - {bno}" "nr_blocks q = nr_blocks (sbi s)"
    by blast
  let ?e = "set_block_number 0 bno"
  have e: "get_block_number ?e = bno" "?e \<noteq> 0"
    using get_set_block_number [of bno 0] q(3,4) wf(3) by (auto dest: arg_cong [of _ _ get_block_number])
  define s' where "s' = store_index ?ib ((load_index s ?ib)[iblock := ?e]) (s\<lparr>sbi := q\<rparr>)"
  have len: "length (load_index s ?ib) = 1024" using wf(1) by simp
  have "ouichefs_file_get_block env ino iblock True s = Some (0, Some bno, s')"
    using assms(2-4) q(1,3) len
    by (simp add: ouichefs_file_get_block_def OUICHEFS_BLOCK_SIZE_def arr_int s'_def Let_def)
  moreover have "ouichefs_file_get_block env ino iblock create s' = Some (0, Some bno, s')" for create
    using assms(2,3) len e
    by (simp add: ouichefs_file_get_block_def OUICHEFS_BLOCK_SIZE_def arr_int s'_def load_store_index Let_def)
  moreover have "fs_wf s'" using wf q len by (simp add: fs_wf_def s'_def wf_bufs_store_index)
  moreover have "free_blocks (sbi s') = free_blocks (sbi s) - {bno}" using q by (simp add: s'_def)
  ultimately show ?thesis using q by blast
qed

theorem get_block_allocates_once_witness:
  "\<exists>bno s'. ouichefs_file_get_block demo_env 2 7 True demo_fs = Some (0, Some bno, s') \<and>
     bno \<in> {10, 11, 12, 13, 14, 15} \<and> ouichefs_file_get_block demo_env 2 7 False s' = Some (0, Some bno, s')"
  using get_block_allocates_once [OF demo_wf(1), of demo_env 2 7]
  by (auto simp: demo_index demo_free demo_env_def)

section \<open>Opening with truncation\<close>

lemma open_free_spec:
  assumes "block_map_wf q" "0 \<notin> set R" "distinct (map get_block_number R)"
    and "\<forall>b \<in> get_block_number ` set R. allocated q b"
  shows "Z = [] \<Longrightarrow> open_free q (A @ R @ Z) (length A) = None"
    and "Z = 0 # Z' \<Longrightarrow> \<exists>q'. open_free q (A @ R @ Z) (length A) = Some (q', A @ replicate (length R) 0 @ Z) \<and>
      block_map_wf q' \<and> free_blocks q' = free_blocks q \<union> get_block_number ` set R \<and> nr_blocks q' = nr_blocks q"
  using assms
proof (induction R arbitrary: A q)
  case Nil
  { case 1 then show ?case by (simp add: open_free.simps [of q A] arr_def) }
  { case 2 then show ?case by (simp add: open_free.simps [of q "A @ 0 # Z'"] arr_mid) }
next
  case (Cons e R)
  let ?b = "get_block_number e"
  have step: "\<exists>q1. put_block q ?b = Some q1 \<and> block_map_wf q1 \<and> free_blocks q1 = insert ?b (free_blocks q) \<and>
      nr_blocks q1 = nr_blocks q \<and> (\<forall>b \<in> get_block_number ` set R. allocated q1 b) \<and>
      open_free q (A @ (e # R) @ Z) (length A) = open_free q1 ((A @ [0]) @ R @ Z) (length (A @ [0 :: entry]))"
    if "block_map_wf q" "0 \<notin> set (e # R)" "distinct (map get_block_number (e # R))"
      "\<forall>b \<in> get_block_number ` set (e # R). allocated q b" for q A
  proof -
    have al: "0 < ?b" "?b < nr_blocks q" "?b \<notin> free_blocks q" using that(4) by (auto simp: allocated_def)
    from balloc.release_ok [OF that(1) al] obtain q1 where q1: "put_block q ?b = Some q1" "block_map_wf q1"
        "free_blocks q1 = insert ?b (free_blocks q)" "nr_blocks q1 = nr_blocks q" by blast
    moreover have "\<forall>b \<in> get_block_number ` set R. allocated q1 b"
      using that(3,4) q1(3,4) by (auto simp: allocated_def image_iff)
    moreover have "open_free q (A @ (e # R) @ Z) (length A) = open_free q1 ((A @ [0]) @ R @ Z) (length (A @ [0 :: entry]))"
    proof -
      have "arr (A @ (e # R) @ Z) (int (length A)) = Some e" "(A @ (e # R) @ Z)[length A := 0] = (A @ [0]) @ R @ Z"
        "length (A @ [0 :: entry]) = Suc (length A)" "e \<noteq> 0"
        using arr_mid [of A e "R @ Z"] that(2) by auto
      then show ?thesis
        unfolding open_free.simps [of q "A @ (e # R) @ Z"] using q1(1) by (simp only: option.case if_True simp_thms)
    qed
    ultimately show ?thesis by blast
  qed
  { case 1
    from step [OF 1(2-5)] obtain q1 where q1: "block_map_wf q1" "\<forall>b \<in> get_block_number ` set R. allocated q1 b"
      "open_free q (A @ (e # R) @ Z) (length A) = open_free q1 ((A @ [0]) @ R @ Z) (length (A @ [0 :: entry]))"
      by blast
    with Cons.IH(1) [of q1 "A @ [0]"] 1 show ?case by simp }
  { case 2
    from step [OF 2(2-5)] obtain q1 where q1: "block_map_wf q1" "free_blocks q1 = insert ?b (free_blocks q)" "nr_blocks q1 = nr_blocks q"
      "\<forall>b \<in> get_block_number ` set R. allocated q1 b"
      "open_free q (A @ (e # R) @ Z) (length A) = open_free q1 ((A @ [0]) @ R @ Z) (length (A @ [0 :: entry]))"
      by blast
    with Cons.IH(2) [of q1 "A @ [0]"] 2 show ?case by auto }
qed

text \<open>The flags of an open that truncates.\<close>

definition truncating :: "file \<Rightarrow> bool" where
  "truncating f \<longleftrightarrow> (f_flags f AND O_WRONLY \<noteq> 0 \<or> f_flags f AND O_RDWR \<noteq> 0) \<and> f_flags f AND O_TRUNC \<noteq> 0"

lemma file_data_alloc:
  "file_wf s ino \<Longrightarrow> \<forall>b \<in> get_block_number ` set (data_entries s ino). allocated (sbi s) b"
  using data_entries_allocated by auto

text \<open>
  C18: A truncating open of a well-formed, non-empty file whose index has a free slot returns every
  data block of the file to the free set and clears the index; the size becomes 0. The block count
  becomes 0 too, although the index block is still allocated, so the file is not well formed any more.
\<close>

theorem open_truncates:
  assumes "fs_wf s" "file_wf s ino" "f_inode f = ino" "truncating f" "bread_ok env (index_block (inodes s ino))"
    and "i_size (inodes s ino) \<noteq> 0" "length (data_entries s ino) < 1024"
  shows "\<exists>s'. ouichefs_open env f s = Some (0, s') \<and> fs_wf s' \<and>
    free_blocks (sbi s') = free_blocks (sbi s) \<union> get_block_number ` set (data_entries s ino) \<and>
    load_index s' (index_block (inodes s ino)) = replicate 1024 0 \<and>
    inodes s' ino = (inodes s ino)\<lparr>i_size := 0, i_blocks := 0\<rparr> \<and> \<not> file_wf s' ino"
proof -
  define es ib I where "es = data_entries s ino" and "ib = index_block (inodes s ino)" and "I = inodes s ino"
  note ix = file_index_split [OF assms(1,2), folded es_def ib_def]
  have lt: "length es < 1024" using assms(7) by (simp add: es_def)
  define Z where "Z = replicate (1023 - length es) (0 :: entry)"
  have "1024 - length es = Suc (1023 - length es)" using lt by linarith
  then have z: "replicate (1024 - length es) (0 :: entry) = 0 # Z" by (simp only: Z_def replicate_Suc)
  from open_free_spec(2) [of "sbi s" es "0 # Z" Z "[]"] assms(1) ix(5,6) file_data_alloc [OF assms(2), folded es_def]
  obtain q where q: "open_free (sbi s) (es @ 0 # Z) 0 = Some (q, replicate (length es) 0 @ 0 # Z)"
    "block_map_wf q" "free_blocks q = free_blocks (sbi s) \<union> get_block_number ` set es" "nr_blocks q = nr_blocks (sbi s)"
    by (auto simp: fs_wf_def)
  have zero: "replicate (length es) 0 @ 0 # Z = replicate 1024 (0 :: entry)"
    unfolding z [symmetric] using lt by (simp add: replicate_add [symmetric])
  define s' where "s' = set_inode ino (I\<lparr>i_size := 0, i_blocks := 0\<rparr>) (store_index ib (replicate 1024 0) (s\<lparr>sbi := q\<rparr>))"
  have "ouichefs_open env f s = Some (0, s')"
    using assms(3-6) q(1) ix(1) unfolding z zero
    by (simp add: ouichefs_open_def truncating_def Let_def ib_def I_def s'_def)
  moreover have "fs_wf s'" using assms(1) q by (simp add: fs_wf_def s'_def wf_bufs_store_index)
  moreover have "\<not> file_wf s' ino" by (simp add: file_wf_def Let_def s'_def)
  ultimately show ?thesis using q(3) by (simp add: s'_def load_store_index ib_def [symmetric] I_def es_def)
qed

text \<open>The demo partition's file 2, opened for writing with truncation.\<close>

definition demo_trunc :: "nat \<Rightarrow> file" where
  "demo_trunc ino = \<lparr>f_flags = O_RDWR OR O_TRUNC, f_inode = ino\<rparr>"

lemma demo_trunc: "truncating (demo_trunc ino)" "f_inode (demo_trunc ino) = ino"
  by (simp_all add: truncating_def demo_trunc_def O_RDWR_def O_TRUNC_def O_WRONLY_def)

theorem open_truncates_witness:
  "\<exists>s'. ouichefs_open demo_env (demo_trunc 2) demo_fs = Some (0, s') \<and>
     free_blocks (sbi s') = {6, 10, 11, 12, 13, 14, 15} \<and> i_blocks (inodes s' 2) = 0 \<and> \<not> file_wf s' 2"
  using open_truncates [OF demo_wf(1,2) demo_trunc(2,1), of demo_env]
  by (auto simp: demo_free demo_env_def)

text \<open>
  A truncating open of a file that uses all 1024 slots of its index reads past the index block:
  the loop looks for a zero entry and there is none.
\<close>

theorem open_truncate_overrun:
  assumes "fs_wf s" "file_wf s ino" "f_inode f = ino" "truncating f" "bread_ok env (index_block (inodes s ino))"
    and "i_size (inodes s ino) \<noteq> 0" "length (data_entries s ino) = 1024"
  shows "ouichefs_open env f s = None"
proof -
  note ix = file_index_split [OF assms(1,2)]
  from open_free_spec(1) [of "sbi s" "data_entries s ino" "[]" "[]"] assms(1) ix(5,6) file_data_alloc [OF assms(2)]
  have "open_free (sbi s) (data_entries s ino) 0 = None" by (simp add: fs_wf_def)
  then show ?thesis using assms(3-7) ix(1) by (simp add: ouichefs_open_def truncating_def Let_def)
qed

theorem open_truncate_overrun_witness: "ouichefs_open demo_env (demo_trunc 2) demo_max = None"
proof -
  have "index_block (inodes demo_max 2) = 5" "i_size (inodes demo_max 2) = 1024"
    by (simp_all add: demo_max_def)
  moreover have "length (data_entries demo_max 2) = 1024"
    by (simp add: demo_max_facts(1) demo_max_entries_def del: upt_rec_numeral)
  ultimately show ?thesis
    using open_truncate_overrun [OF demo_max_facts(2,3) demo_trunc(2,1), of demo_env]
    by (simp add: demo_env_def)
qed

end
