(* ===== verification/DirProps.thy ===== *)
theory DirProps
  imports Dirs FileOps
begin

text \<open>
  Correctness of the directory operations. A well-formed directory block holds its entries in a
  prefix of the slots and zeros behind them.
\<close>

section \<open>Well-formed directory blocks\<close>

definition dir_wf :: "dir_file list \<Rightarrow> dir_file list \<Rightarrow> bool" where
  "dir_wf files us \<longleftrightarrow> files = us @ replicate (128 - length us) no_file \<and> length us \<le> 128 \<and>
     (\<forall>f \<in> set us. f_ino f \<noteq> 0 \<and> length (f_name f) = 28)"

text \<open>The name in a slot.\<close>

definition cname :: "dir_file \<Rightarrow> byte list" where
  "cname f = takeWhile (\<lambda>c. c \<noteq> 0) (f_name f)"

lemma dir_wf_block: "dir_wf files us \<Longrightarrow> wf_dir_block files"
  by (auto simp: dir_wf_def wf_dir_block_def no_file_def)

lemma first_free_used: "\<forall>f \<in> set us. f_ino f \<noteq> 0 \<Longrightarrow> first_free (us @ no_file # rest) = length us"
  by (induction us) (simp_all add: no_file_def)

lemma name_eq_cname: "length (f_name f) = 28 \<Longrightarrow> name_eq (f_name f) name \<longleftrightarrow> cname f = take 28 name"
  by (simp add: name_eq_def cname_def OUICHEFS_FILENAME_LEN_def)

lemma lookup_loop_used:
  "\<lbrakk>\<forall>f \<in> set us. f_ino f \<noteq> 0 \<and> length (f_name f) = 28; \<forall>f \<in> set us. cname f \<noteq> take 28 name\<rbrakk> \<Longrightarrow>
   lookup_loop (us @ rest) name = lookup_loop rest name"
  by (induction us) (simp_all add: name_eq_cname)

lemma lookup_loop_free: "lookup_loop (replicate n no_file) name = None"
  by (cases n) (simp_all add: no_file_def)

text \<open>What \<open>strscpy\<close> leaves in a free slot: at most 27 bytes of the name.\<close>

lemma strscpy_name:
  assumes "length name \<le> 28" "0 \<notin> set name"
  shows "length (strscpy (replicate 28 0) name) = 28"
    "takeWhile (\<lambda>c. c \<noteq> 0) (strscpy (replicate 28 0) name) = take 27 name"
proof -
  have "\<forall>c \<in> set (take 27 name). c \<noteq> 0" using assms(2) by (metis in_set_takeD)
  then show "takeWhile (\<lambda>c. c \<noteq> 0) (strscpy (replicate 28 0) name) = take 27 name"
    by (simp add: strscpy_def overlay_def OUICHEFS_FILENAME_LEN_def)
  show "length (strscpy (replicate 28 0) name) = 28"
    using assms(1) by (simp add: strscpy_def OUICHEFS_FILENAME_LEN_def)
qed

lemma load_dir_simps [simp]:
  "load_dir (set_inode i I s) = load_dir s" "load_dir (mark_inode_dirty i s) = load_dir s"
  "load_dir (mark_buffer_dirty b s) = load_dir s" "load_dir (s\<lparr>sbi := q\<rparr>) = load_dir s"
  "load_dir (inode_inc_link_count i s) = load_dir s" "load_dir (inode_dec_link_count i s) = load_dir s"
  "b \<noteq> c \<Longrightarrow> load_dir (set_buf c bs s) b = load_dir s b"
  by (simp_all add: load_dir_def fun_eq_iff inode_inc_link_count_def inode_dec_link_count_def del: dir_decode.simps)

lemma link_count_simps [simp]:
  "bufs (inode_inc_link_count i s) = bufs s" "sbi (inode_inc_link_count i s) = sbi s"
  "bufs (inode_dec_link_count i s) = bufs s" "sbi (inode_dec_link_count i s) = sbi s"
  "index_block (inodes (inode_inc_link_count i s) j) = index_block (inodes s j)"
  "i_blocks (inodes (inode_inc_link_count i s) j) = i_blocks (inodes s j)"
  "i_size (inodes (inode_inc_link_count i s) j) = i_size (inodes s j)"
  "index_block (inodes (inode_dec_link_count i s) j) = index_block (inodes s j)"
  "i_blocks (inodes (inode_dec_link_count i s) j) = i_blocks (inodes s j)"
  "i_mode (inodes (inode_dec_link_count i s) j) = i_mode (inodes s j)"
  "i_mode (inodes (inode_inc_link_count i s) j) = i_mode (inodes s j)"
  "j \<noteq> i \<Longrightarrow> inodes (inode_inc_link_count i s) j = inodes s j" "j \<noteq> i \<Longrightarrow> inodes (inode_dec_link_count i s) j = inodes s j"
  by (simp_all add: inode_inc_link_count_def inode_dec_link_count_def)

lemma store_dir_simps [simp]:
  "sbi (store_dir b fs s) = sbi s" "inodes (store_dir b fs s) = inodes s"
  "c \<noteq> b \<Longrightarrow> bufs (store_dir b fs s) c = bufs s c" "bufs (store_dir b fs s) b = dir_encode fs"
  by (simp_all add: store_dir_def)

lemma touch_dir_simps [simp]:
  "index_block (touch_dir env D) = index_block D" "i_mode (touch_dir env D) = i_mode D"
  "i_blocks (touch_dir env D) = i_blocks D" "i_size (touch_dir env D) = i_size D"
  by (simp_all add: touch_dir_def)

lemma wf_bufs_store_dir: "\<lbrakk>wf_bufs s; wf_dir_block fs\<rbrakk> \<Longrightarrow> wf_bufs (store_dir b fs s)"
  unfolding store_dir_def by (rule dir_view.wf_bufs_store)

lemma wf_bufs_cong: "bufs s = bufs t \<Longrightarrow> wf_bufs s = wf_bufs t"
  by (simp add: wf_bufs_def)

text \<open>
  The footprint of a directory operation: the directories \<open>D\<close> get new times and link counts, the inodes \<open>N\<close>
  are rewritten, and the blocks \<open>B\<close> change.
\<close>

definition dir_frame :: "fs \<Rightarrow> nat set \<Rightarrow> nat set \<Rightarrow> nat set \<Rightarrow> fs \<Rightarrow> bool" where
  "dir_frame s D N B s' \<longleftrightarrow> geometry (sbi s') = geometry (sbi s) \<and>
     (\<forall>j. j \<notin> D \<union> N \<longrightarrow> inodes s' j = inodes s j) \<and>
     (\<forall>d \<in> D. index_block (inodes s' d) = index_block (inodes s d) \<and> i_mode (inodes s' d) = i_mode (inodes s d)) \<and>
     (\<forall>b. b \<notin> B \<longrightarrow> bufs s' b = bufs s b)"

section \<open>Creation\<close>

text \<open>The situation in which an inode can be created in directory \<open>dir\<close>.\<close>

definition can_create :: "kenv \<Rightarrow> nat \<Rightarrow> 16 word \<Rightarrow> fs \<Rightarrow> bool" where
  "can_create env dir mode s \<longleftrightarrow>
     fs_wf s \<and> inode_map_wf (sbi s) \<and> free_inodes (sbi s) \<noteq> {} \<and> 0 < nr_free_blocks (sbi s) \<and>
     (S_ISDIR mode \<or> S_ISREG mode) \<and> (\<forall>b. bread_ok env b) \<and> (\<forall>ino. iget_locked env ino \<noteq> None) \<and>
     dir \<notin> free_inodes (sbi s) \<and> index_block (inodes s dir) \<notin> free_blocks (sbi s)"

lemma alloc_frames:
  "get_free_inode q = Some (i, q') \<Longrightarrow>
     nr_blocks q' = nr_blocks q \<and> bfree_bitmap q' = bfree_bitmap q \<and> nr_free_blocks q' = nr_free_blocks q"
  "get_free_block q = Some (i, q') \<Longrightarrow>
     nr_inodes q' = nr_inodes q \<and> ifree_bitmap q' = ifree_bitmap q \<and> nr_free_inodes q' = nr_free_inodes q"
  by (auto simp: get_free_inode_def get_free_block_def Let_def split: bind_splits if_splits)

lemma new_inode_spec:
  assumes "can_create env dir mode s"
  shows "\<exists>ino bno q I. ouichefs_new_inode env dir mode s = Some (Inr ino, set_inode ino I (s\<lparr>sbi := q\<rparr>)) \<and>
    ino \<in> free_inodes (sbi s) \<and> bno \<in> free_blocks (sbi s) \<and> index_block I = bno \<and> i_blocks I = 1 \<and>
    i_size I = (if S_ISDIR mode then 4096 else 0) \<and> i_nlink I = (if S_ISDIR mode then 2 else 1) \<and>
    i_mode I = snd (snd (init_owner env (Some dir) mode)) \<and> geometry q = geometry (sbi s) \<and>
    free_inodes q = free_inodes (sbi s) - {ino} \<and> free_blocks q = free_blocks (sbi s) - {bno} \<and>
    inode_map_wf q \<and> block_map_wf q \<and> nr_blocks q = nr_blocks (sbi s) \<and> nr_inodes q = nr_inodes (sbi s)"
proof -
  note c = assms [unfolded can_create_def]
  have w: "inode_map_wf (sbi s)" "free_inodes (sbi s) \<noteq> {}" using c by simp_all
  then have "0 < card (free_inodes (sbi s))" using ialloc.finite_avail [OF w(1)] by (simp add: card_gt_0_iff)
  then have nf: "0 < nr_free_inodes (sbi s)" using w(1) unfolding inode_map_wf_def by linarith
  from ialloc.take_fresh [of "sbi s"] c obtain ino q1 where q1: "get_free_inode (sbi s) = Some (ino, q1)"
      "ino \<in> free_inodes (sbi s)" "0 < ino" "ino < nr_inodes (sbi s)" "inode_map_wf q1"
      "free_inodes q1 = free_inodes (sbi s) - {ino}" "nr_inodes q1 = nr_inodes (sbi s)"
    by auto
  have b1: "block_map_wf q1" "free_blocks q1 = free_blocks (sbi s)" "nr_free_blocks q1 = nr_free_blocks (sbi s)"
      "nr_blocks q1 = nr_blocks (sbi s)"
    using c alloc_frames(1) [OF q1(1)] by (simp_all add: fs_wf_def block_map_wf_def free_blocks_def)
  from balloc.alloc_fresh [OF b1(1)] b1(3) c obtain bno q where q: "get_free_block q1 = Some (bno, q)"
      "bno \<in> free_blocks q1" "0 < bno" "block_map_wf q" "free_blocks q = free_blocks q1 - {bno}" "nr_blocks q = nr_blocks q1"
    by auto
  have i2: "inode_map_wf q" "free_inodes q = free_inodes q1" "nr_inodes q = nr_inodes q1"
    using q1(5) alloc_frames(2) [OF q(1)] by (simp_all add: inode_map_wf_def free_inodes_def)
  obtain uid gid m where o: "init_owner env (Some dir) mode = (uid, gid, m)" by (cases "init_owner env (Some dir) mode") auto
  obtain fresh where "iget_locked env ino = Some fresh" using c by blast
  then have "\<exists>J. ouichefs_iget env ino (s\<lparr>sbi := q1\<rparr>) = (Inr ino, set_inode ino J (s\<lparr>sbi := q1\<rparr>))"
    using c q1 by (cases fresh) (auto simp: ouichefs_iget_def set_inode_def intro: exI [of _ "inodes s ino"] split: bool.split)
  then obtain J where "ouichefs_iget env ino (s\<lparr>sbi := q1\<rparr>) = (Inr ino, set_inode ino J (s\<lparr>sbi := q1\<rparr>))" ..
  moreover define I where "I = J
      \<lparr>index_block := bno, i_uid := uid, i_gid := gid, i_mode := m, i_blocks := 1,
       i_size := (if S_ISDIR mode then 4096 else 0), i_nlink := (if S_ISDIR mode then 2 else 1),
       i_ctime := current_time env, i_atime := current_time env, i_mtime := current_time env\<rparr>"
  ultimately have "ouichefs_new_inode env dir mode s = Some (Inr ino, set_inode ino I (s\<lparr>sbi := q\<rparr>))"
    using c nf q1(1,3) q(1,3) o by (auto simp: ouichefs_new_inode_def OUICHEFS_BLOCK_SIZE_def set_inode_def)
  moreover have "index_block I = bno" "i_blocks I = 1" "i_size I = (if S_ISDIR mode then 4096 else 0)"
      "i_nlink I = (if S_ISDIR mode then 2 else 1)" "i_mode I = snd (snd (init_owner env (Some dir) mode))"
    by (simp_all add: I_def o)
  moreover have "geometry q = geometry (sbi s)" using geometry_alloc(1) [OF q1(1)] geometry_alloc(2) [OF q(1)] by simp
  ultimately show ?thesis using q1 q b1 i2 by (intro ex4I [of _ ino bno q I]) simp
qed

text \<open>The effect of a successful creation.\<close>

lemma create_spec:
  assumes cc: "can_create env dir mode s" and d: "dir_wf (load_dir s (index_block (inodes s dir))) us"
    and len: "length us < 128" and name: "length name \<le> 28"
  defines "db \<equiv> index_block (inodes s dir)"
  shows "\<exists>ino s'. ouichefs_create env dir name mode s = Some (0, s') \<and>
    ino \<in> free_inodes (sbi s) \<and> free_inodes (sbi s') = free_inodes (sbi s) - {ino} \<and>
    index_block (inodes s' ino) \<in> free_blocks (sbi s) \<and>
    free_blocks (sbi s') = free_blocks (sbi s) - {index_block (inodes s' ino)} \<and>
    bufs s' (index_block (inodes s' ino)) = replicate 4096 0 \<and>
    i_blocks (inodes s' ino) = 1 \<and> i_size (inodes s' ino) = (if S_ISDIR mode then 4096 else 0) \<and>
    inode_map_wf (sbi s') \<and> fs_wf s' \<and> index_block (inodes s' dir) = db \<and>
    i_mode (inodes s' ino) = snd (snd (init_owner env (Some dir) mode)) \<and>
    dir_frame s {dir} {ino} {db, index_block (inodes s' ino)} s' \<and>
    dir_wf (load_dir s' db) (us @ [\<lparr>f_ino = word_of_nat ino, f_name = strscpy (replicate 28 0) name\<rparr>])"
proof -
  note c = cc [unfolded can_create_def]
  from new_inode_spec [OF cc] obtain ino bno q I where ni:
    "ouichefs_new_inode env dir mode s = Some (Inr ino, set_inode ino I (s\<lparr>sbi := q\<rparr>))"
    "ino \<in> free_inodes (sbi s)" "bno \<in> free_blocks (sbi s)" "index_block I = bno" "i_blocks I = 1"
    "i_size I = (if S_ISDIR mode then 4096 else 0)"
    "free_inodes q = free_inodes (sbi s) - {ino}" "free_blocks q = free_blocks (sbi s) - {bno}"
    "inode_map_wf q" "block_map_wf q" "nr_blocks q = nr_blocks (sbi s)" "nr_inodes q = nr_inodes (sbi s)"
    and ng: "i_mode I = snd (snd (init_owner env (Some dir) mode))" "geometry q = geometry (sbi s)"
    by blast
  have ne: "ino \<noteq> dir" "bno \<noteq> db" using ni(2,3) c by (auto simp: db_def)
  define L where "L = load_dir s db"
  have L: "L = us @ no_file # replicate (127 - length us) no_file"
  proof -
    have "128 - length us = Suc (127 - length us)" using len by linarith
    then show ?thesis using d by (simp add: dir_wf_def L_def db_def)
  qed
  have used: "\<forall>f \<in> set us. f_ino f \<noteq> 0 \<and> length (f_name f) = 28" using d by (simp add: dir_wf_def)
  define new where "new = \<lparr>f_ino = word_of_nat ino :: u32_word, f_name = strscpy (replicate 28 0) name\<rparr>"
  define files where "files = us @ new # replicate (127 - length us) no_file"
  define s1 where "s1 = mark_buffer_dirty bno (set_buf bno (replicate 4096 0) (set_inode ino I (s\<lparr>sbi := q\<rparr>)))"
  define s2 where "s2 = set_inode dir (touch_dir env (inodes s1 dir)) (mark_inode_dirty ino (mark_buffer_dirty db (store_dir db files s1)))"
  define s' where "s' = mark_inode_dirty dir (if S_ISDIR mode then inode_inc_link_count dir s2 else s2)"
  have L1: "load_dir s1 db = L" using ne by (simp add: s1_def L_def)
  have slot: "arr L (int (first_free L)) = Some no_file" "arr_set L (int (first_free L)) v = Some (us @ v # replicate (127 - length us) no_file)" for v
    unfolding L using first_free_used [of us] used arr_mid [of us no_file] arr_set_mid [of us no_file] by auto
  have last: "arr L 127 = Some no_file"
  proof -
    have "L = us @ replicate (128 - length us) no_file" using d by (simp add: dir_wf_def L_def db_def)
    then show ?thesis using len by (simp add: arr_def nth_append)
  qed
  have nw: "no_file\<lparr>f_ino := word_of_nat ino, f_name := strscpy (replicate 28 0) name\<rparr> = new"
    "f_name no_file = replicate 28 0" "f_ino no_file = 0" by (simp_all add: new_def no_file_def)
  have call: "ouichefs_create env dir name mode s = Some (0, s')"
    using c name ni(1,4) last slot nw L1 [unfolded s1_def]
    by (simp add: ouichefs_create_def OUICHEFS_FILENAME_LEN_def OUICHEFS_MAX_SUBFILES_def Let_def
        db_def [symmetric] L_def [symmetric] OUICHEFS_BLOCK_SIZE_def s'_def s2_def s1_def files_def)
  have ino2: "ino < 2 ^ 32" "0 < ino"
    using ialloc.avail_limit [of "sbi s"] c ni(2) by (auto simp: inode_map_wf_def)
  then have inz: "f_ino new \<noteq> 0" using unat_u32 [of ino] by (auto simp: new_def)
  have "length (f_name new) = 28" using name by (simp add: new_def strscpy_def OUICHEFS_FILENAME_LEN_def)
  then have dw: "dir_wf files (us @ [new])" using used inz len by (auto simp: dir_wf_def files_def)
  have wfb: "wf_bufs s'"
  proof -
    have "wf_bufs s1" using c unfolding fs_wf_def s1_def
      by (simp add: wf_bufs_def OUICHEFS_BLOCK_SIZE_def)
    then have "wf_bufs (store_dir db files s1)" using dir_wf_block [OF dw] by (rule wf_bufs_store_dir)
    then show ?thesis by (simp add: s'_def s2_def wf_bufs_def)
  qed
  have b': "bufs s' bno = replicate 4096 0" "sbi s' = q" "index_block (inodes s' ino) = bno" "i_blocks (inodes s' ino) = 1"
      "i_size (inodes s' ino) = (if S_ISDIR mode then 4096 else 0)" "index_block (inodes s' dir) = db"
      "i_mode (inodes s' ino) = i_mode I" "i_mode (inodes s' dir) = i_mode (inodes s dir)"
      "\<forall>j. j \<notin> {dir} \<union> {ino} \<longrightarrow> inodes s' j = inodes s j" "\<forall>b. b \<notin> {db, bno} \<longrightarrow> bufs s' b = bufs s b"
    using ne ni(4-6) by (simp_all add: s'_def s2_def s1_def db_def)
  have "load_dir s' db = files"
    using load_store_dir [OF dir_wf_block [OF dw], of db s1 db] by (simp add: s'_def s2_def)
  then show ?thesis
    using call b' ni ng wfb dw c by (intro exI [of _ ino] exI [of _ s']) (simp add: fs_wf_def new_def dir_frame_def db_def)
qed

text \<open>The refusals of \<open>ouichefs_create\<close> leave the state alone.\<close>

lemma new_inode_no_space:
  assumes "fs_wf s" "inode_map_wf (sbi s)" "free_inodes (sbi s) = {} \<or> nr_free_blocks (sbi s) = 0" "S_ISDIR mode \<or> S_ISREG mode"
  shows "ouichefs_new_inode env dir mode s = Some (Inl (- ENOSPC), s)"
proof (cases "nr_free_inodes (sbi s) = 0 \<or> nr_free_blocks (sbi s) = 0")
  case True
  then show ?thesis using assms(4) by (auto simp: ouichefs_new_inode_def)
next
  case False
  then have "get_free_inode (sbi s) = Some (0, sbi s)" using assms(3) ialloc.alloc_empty [OF assms(2)] by simp
  then show ?thesis using False assms(4) by (auto simp: ouichefs_new_inode_def)
qed

lemma create_refused:
  assumes "fs_wf s" "inode_map_wf (sbi s)" "\<forall>b. bread_ok env b" "S_ISDIR mode \<or> S_ISREG mode"
    and "dir_wf (load_dir s (index_block (inodes s dir))) us"
    and "28 < length name \<or> length us = 128 \<or> free_inodes (sbi s) = {} \<or> nr_free_blocks (sbi s) = 0"
  shows "\<exists>e \<in> {ENAMETOOLONG, EMLINK, ENOSPC}. ouichefs_create env dir name mode s = Some (- e, s)"
proof -
  define L where "L = load_dir s (index_block (inodes s dir))"
  have "length L = 128" using assms(5) by (simp add: dir_wf_def L_def)
  then have l: "arr L 127 = Some (L ! 127)" by (simp add: arr_def)
  consider "28 < length name" | "length name \<le> 28" "f_ino (L ! 127) \<noteq> 0"
    | "length name \<le> 28" "f_ino (L ! 127) = 0" "length us \<noteq> 128" | "f_ino (L ! 127) = 0" "length us = 128" by linarith
  then show ?thesis
  proof cases
    case 1
    then show ?thesis by (simp add: ouichefs_create_def OUICHEFS_FILENAME_LEN_def Let_def)
  next
    case 2
    then show ?thesis using l assms(3)
      by (simp add: ouichefs_create_def OUICHEFS_FILENAME_LEN_def OUICHEFS_MAX_SUBFILES_def Let_def L_def [symmetric])
  next
    case 3
    then have "ouichefs_new_inode env dir mode s = Some (Inl (- ENOSPC), s)"
      using assms by (intro new_inode_no_space) auto
    then show ?thesis using l assms(3) 3
      by (simp add: ouichefs_create_def OUICHEFS_FILENAME_LEN_def OUICHEFS_MAX_SUBFILES_def Let_def L_def [symmetric])
  next
    case 4
    then have "L = us" using assms(5) by (simp add: dir_wf_def L_def)
    then have "L ! 127 \<in> set us" using 4 by simp
    then show ?thesis using 4 assms(5) by (simp add: dir_wf_def)
  qed
qed

lemma lookup_loop_new:
  assumes "dir_wf files us" "dir_wf files' (us @ [new])" "length name \<le> 28"
  shows "lookup_loop files' name = (case lookup_loop files name of Some i \<Rightarrow> Some i
     | None \<Rightarrow> if cname new = name then Some (f_ino new) else None)"
proof -
  have "lookup_loop (us @ new # replicate k no_file) name =
      (case lookup_loop (us @ replicate n no_file) name of Some i \<Rightarrow> Some i
       | None \<Rightarrow> if cname new = name then Some (f_ino new) else None)"
    if "\<forall>f \<in> set us. f_ino f \<noteq> 0 \<and> length (f_name f) = 28" "f_ino new \<noteq> 0" "length (f_name new) = 28" for k n
    using that assms(3) by (induction us) (auto simp: name_eq_cname lookup_loop_free)
  then show ?thesis using assms(1,2) by (simp add: dir_wf_def)
qed

text \<open>
  C20: Creating a file or directory under a name of at most 27 bytes that the directory does not
  hold yet takes one free inode and one free block, scrubs the block, appends one entry to the
  directory, and afterwards the lookup of the name finds the new inode while every other name
  resolves as before.
\<close>

theorem create_then_lookup:
  assumes "can_create env dir mode s" "dir_wf (load_dir s (index_block (inodes s dir))) us" "length us < 128"
    and "length name \<le> 27" "0 \<notin> set name" "lookup_loop (load_dir s (index_block (inodes s dir))) name = None"
  shows "\<exists>ino s'. ouichefs_create env dir name mode s = Some (0, s') \<and>
    ino \<in> free_inodes (sbi s) \<and> free_inodes (sbi s') = free_inodes (sbi s) - {ino} \<and>
    index_block (inodes s' ino) \<in> free_blocks (sbi s) \<and>
    free_blocks (sbi s') = free_blocks (sbi s) - {index_block (inodes s' ino)} \<and>
    bufs s' (index_block (inodes s' ino)) = replicate 4096 0 \<and> inode_map_wf (sbi s') \<and> fs_wf s' \<and>
    lookup_loop (load_dir s' (index_block (inodes s' dir))) name = Some (word_of_nat ino) \<and>
    (\<forall>other. length other \<le> 28 \<and> other \<noteq> name \<longrightarrow>
       lookup_loop (load_dir s' (index_block (inodes s' dir))) other =
       lookup_loop (load_dir s (index_block (inodes s dir))) other)"
proof -
  have n28: "length name \<le> 28" using assms(4) by simp
  from create_spec [OF assms(1-3) n28] obtain ino s' where c:
    "ouichefs_create env dir name mode s = Some (0, s')" "ino \<in> free_inodes (sbi s)"
    "free_inodes (sbi s') = free_inodes (sbi s) - {ino}" "index_block (inodes s' ino) \<in> free_blocks (sbi s)"
    "free_blocks (sbi s') = free_blocks (sbi s) - {index_block (inodes s' ino)}"
    "bufs s' (index_block (inodes s' ino)) = replicate 4096 0" "inode_map_wf (sbi s')" "fs_wf s'"
    "index_block (inodes s' dir) = index_block (inodes s dir)"
    "dir_wf (load_dir s' (index_block (inodes s dir))) (us @ [\<lparr>f_ino = word_of_nat ino, f_name = strscpy (replicate 28 0) name\<rparr>])"
    by blast
  note look = lookup_loop_new [OF assms(2) c(10)]
  have cn: "cname \<lparr>f_ino = word_of_nat ino, f_name = strscpy (replicate 28 0) name\<rparr> = name"
    using strscpy_name(2) [OF n28 assms(5)] assms(4) by (simp add: cname_def)
  have "lookup_loop (load_dir s' (index_block (inodes s' dir))) name = Some (word_of_nat ino)"
    using look [OF n28] cn c(9) assms(6) by simp
  moreover have "lookup_loop (load_dir s' (index_block (inodes s' dir))) other =
      lookup_loop (load_dir s (index_block (inodes s dir))) other" if "length other \<le> 28" "other \<noteq> name" for other
    using look [OF that(1)] cn that(2) c(9) by (simp split: option.split)
  ultimately show ?thesis using c by blast
qed

text \<open>
  C21: A name of 28 bytes passes the length check of \<open>ouichefs_create\<close>, but only 27 bytes of it are
  stored: the call succeeds and the name cannot be looked up afterwards.
\<close>

theorem create_28_byte_name_lost:
  assumes "can_create env dir mode s" "dir_wf (load_dir s (index_block (inodes s dir))) us" "length us < 128"
    and "length name = 28" "0 \<notin> set name" "lookup_loop (load_dir s (index_block (inodes s dir))) name = None"
  shows "\<exists>s'. ouichefs_create env dir name mode s = Some (0, s') \<and>
    lookup_loop (load_dir s' (index_block (inodes s' dir))) name = None"
proof -
  have n28: "length name \<le> 28" using assms(4) by simp
  from create_spec [OF assms(1-3) n28] obtain ino s' where c:
    "ouichefs_create env dir name mode s = Some (0, s')" "index_block (inodes s' dir) = index_block (inodes s dir)"
    "dir_wf (load_dir s' (index_block (inodes s dir))) (us @ [\<lparr>f_ino = word_of_nat ino, f_name = strscpy (replicate 28 0) name\<rparr>])"
    by blast
  have "length (take 27 name) \<noteq> length name" using assms(4) by simp
  then have "take 27 name \<noteq> name" by metis
  then have "cname \<lparr>f_ino = word_of_nat ino, f_name = strscpy (replicate 28 0) name\<rparr> \<noteq> name"
    using strscpy_name(2) [OF n28 assms(5)] by (simp add: cname_def)
  then show ?thesis using lookup_loop_new [OF assms(2) c(3) n28] c assms(6) by auto
qed

section \<open>Removal\<close>

lemma find_sub_used:
  "\<lbrakk>\<forall>x \<in> set A. f_ino x \<noteq> ino \<and> f_ino x \<noteq> 0; ino \<noteq> 0\<rbrakk> \<Longrightarrow>
   find_sub (A @ rest) ino i f_id = find_sub rest ino (i + int (length A)) f_id"
  by (induction A arbitrary: i) (auto simp: add.assoc)

lemma find_sub_entry:
  assumes "\<forall>x \<in> set (A @ B). f_ino x \<noteq> ino \<and> f_ino x \<noteq> 0" "ino \<noteq> 0" "f_ino f = ino"
  shows "find_sub (A @ f # B @ replicate n no_file) ino 0 (-1) = (int (length A), int (length (A @ f # B)))"
proof -
  have "find_sub (A @ f # B @ replicate n no_file) ino 0 (-1) = find_sub (f # B @ replicate n no_file) ino (int (length A)) (-1)"
    using assms by (subst find_sub_used) auto
  also have "\<dots> = find_sub (B @ replicate n no_file) ino (int (length A) + 1) (int (length A))" using assms by simp
  also have "\<dots> = find_sub (replicate n no_file) ino (int (length A) + 1 + int (length B)) (int (length A))"
    using assms by (subst find_sub_used) auto
  also have "\<dots> = (int (length A), int (length (A @ f # B)))" using assms(2) by (cases n) (auto simp: no_file_def)
  finally show ?thesis .
qed

lemma remove_sub_entry:
  assumes len: "length (A @ f # B @ Z) = 128"
  shows "remove_sub (A @ f # B @ Z) (int (length A)) (int (length (A @ f # B))) = Some (A @ B @ no_file # Z)"
proof (cases "length A = 127")
  case True
  then have "B = []" "Z = []" using len by auto
  then show ?thesis using True arr_set_mid [of A f "[]" no_file] by (simp add: remove_sub_def OUICHEFS_MAX_SUBFILES_def)
next
  case False
  have ov: "overlay (A @ f # B @ Z) (length A) B = A @ B @ drop (length B) (f # B @ Z)"
    by (simp add: overlay_def)
  obtain x where x: "drop (length B) (f # B @ Z) = x # Z" by (cases B rule: rev_cases) auto
  have "arr_set ((A @ B) @ x # Z) (int (length (A @ B))) no_file = Some ((A @ B) @ no_file # Z)" by (rule arr_set_mid)
  then show ?thesis using False len ov x
    by (simp add: remove_sub_def OUICHEFS_MAX_SUBFILES_def nat_add_distrib Let_def)
qed

lemma unlink_free_spec:
  assumes "wf_bufs s" "load_index s ib = A @ R @ Z" "block_map_wf (sbi s)" "\<forall>b. bread_ok env b"
    and "0 \<notin> set R" "distinct (ib # map get_block_number R)" "\<forall>b \<in> get_block_number ` set R. allocated (sbi s) b"
    and "blocks = Suc (length A + length R)" "length A + length R \<le> 1024"
  shows "\<exists>s'. unlink_free env ib blocks (length A) s = Some s' \<and> wf_bufs s' \<and> block_map_wf (sbi s') \<and>
    free_blocks (sbi s') = free_blocks (sbi s) \<union> get_block_number ` set R \<and> nr_blocks (sbi s') = nr_blocks (sbi s) \<and>
    free_inodes (sbi s') = free_inodes (sbi s) \<and> (inode_map_wf (sbi s) \<longrightarrow> inode_map_wf (sbi s')) \<and>
    nr_inodes (sbi s') = nr_inodes (sbi s) \<and> geometry (sbi s') = geometry (sbi s) \<and>
    (\<forall>b. bufs s' b = (if b \<in> get_block_number ` set R then replicate 4096 0 else bufs s b)) \<and> inodes s' = inodes s"
  using assms
proof (induction R arbitrary: A s)
  case Nil
  then show ?case by (simp add: unlink_free.simps [of env] u64_id)
next
  case (Cons e R)
  let ?b = "get_block_number e"
  have al: "0 < ?b" "?b < nr_blocks (sbi s)" "?b \<notin> free_blocks (sbi s)" using Cons.prems(7) by (auto simp: allocated_def)
  from balloc.release_ok [OF Cons.prems(3) al] obtain q where q: "put_block (sbi s) ?b = Some q" "block_map_wf q"
      "free_blocks q = insert ?b (free_blocks (sbi s))" "nr_blocks q = nr_blocks (sbi s)" by blast
  have qi: "nr_inodes q = nr_inodes (sbi s)" "ifree_bitmap q = ifree_bitmap (sbi s)" "nr_free_inodes q = nr_free_inodes (sbi s)"
    using q(1) by (auto simp: put_block_def split: bind_splits if_splits)
  define s1 where "s1 = mark_buffer_dirty ?b (set_buf ?b (replicate 4096 0) (s\<lparr>sbi := q\<rparr>))"
  have ne: "?b \<noteq> ib" using Cons.prems(6) by auto
  have li: "load_index s1 ib = (A @ [e]) @ R @ Z" using Cons.prems(2) ne by (simp add: s1_def load_index_def)
  have "length A < u64 (int blocks - 1)" "length A < 1024" using Cons.prems(8,9) by (simp_all add: u64_id)
  then have step: "unlink_free env ib blocks (length A) s = unlink_free env ib blocks (length (A @ [e])) s1"
    using Cons.prems(2,4,5) q(1) arr_mid [of A e "R @ Z"]
    by (subst unlink_free.simps) (simp add: Let_def s1_def OUICHEFS_BLOCK_SIZE_def)
  have "\<exists>s'. unlink_free env ib blocks (length (A @ [e])) s1 = Some s' \<and> wf_bufs s' \<and> block_map_wf (sbi s') \<and>
    free_blocks (sbi s') = free_blocks (sbi s1) \<union> get_block_number ` set R \<and> nr_blocks (sbi s') = nr_blocks (sbi s1) \<and>
    free_inodes (sbi s') = free_inodes (sbi s1) \<and> (inode_map_wf (sbi s1) \<longrightarrow> inode_map_wf (sbi s')) \<and>
    nr_inodes (sbi s') = nr_inodes (sbi s1) \<and> geometry (sbi s') = geometry (sbi s1) \<and>
    (\<forall>b. bufs s' b = (if b \<in> get_block_number ` set R then replicate 4096 0 else bufs s1 b)) \<and> inodes s' = inodes s1"
  proof (rule Cons.IH [OF _ li])
    show "wf_bufs s1" using Cons.prems(1) by (simp add: s1_def wf_bufs_def OUICHEFS_BLOCK_SIZE_def)
    show "\<forall>b \<in> get_block_number ` set R. allocated (sbi s1) b"
      using Cons.prems(6,7) q(3,4) by (auto simp: allocated_def s1_def image_iff)
  qed (use Cons.prems q in \<open>auto simp: s1_def\<close>)
  then obtain s' where IH: "unlink_free env ib blocks (length (A @ [e])) s1 = Some s'" "wf_bufs s'" "block_map_wf (sbi s')"
    "free_blocks (sbi s') = free_blocks q \<union> get_block_number ` set R" "nr_blocks (sbi s') = nr_blocks q"
    "free_inodes (sbi s') = free_inodes q" "inode_map_wf q \<longrightarrow> inode_map_wf (sbi s')" "nr_inodes (sbi s') = nr_inodes q"
    "geometry (sbi s') = geometry q"
    "\<forall>b. bufs s' b = (if b \<in> get_block_number ` set R then replicate 4096 0 else bufs s1 b)" "inodes s' = inodes s"
    by (auto simp: s1_def)
  have "free_inodes q = free_inodes (sbi s)" "inode_map_wf q = inode_map_wf (sbi s)"
    using qi by (simp_all add: free_inodes_def inode_map_wf_def)
  then show ?case
    using step IH q qi geometry_alloc(4) [OF q(1)] by (intro exI [of _ s']) (auto simp: s1_def)
qed

text \<open>The label \<open>clean_inode\<close> returns the index block and the inode.\<close>

lemma clean_inode_spec:
  assumes "block_map_wf (sbi s)" "inode_map_wf (sbi s)" "allocated (sbi s) bno"
    and "0 < ino" "ino < nr_inodes (sbi s)" "ino \<notin> free_inodes (sbi s)"
  shows "\<exists>s'. clean_inode ino bno s = Some (0, s') \<and> block_map_wf (sbi s') \<and> inode_map_wf (sbi s') \<and>
    free_blocks (sbi s') = insert bno (free_blocks (sbi s)) \<and> free_inodes (sbi s') = insert ino (free_inodes (sbi s)) \<and>
    nr_blocks (sbi s') = nr_blocks (sbi s) \<and> geometry (sbi s') = geometry (sbi s) \<and> bufs s' = bufs s \<and> (\<forall>j. j \<noteq> ino \<longrightarrow> inodes s' j = inodes s j)"
proof -
  from balloc.release_ok [OF assms(1), of bno] assms(3) obtain q where q: "put_block (sbi s) bno = Some q" "block_map_wf q"
    "free_blocks q = insert bno (free_blocks (sbi s))" "nr_blocks q = nr_blocks (sbi s)" by (auto simp: allocated_def)
  have qi: "nr_inodes q = nr_inodes (sbi s)" "ifree_bitmap q = ifree_bitmap (sbi s)" "nr_free_inodes q = nr_free_inodes (sbi s)"
    using q(1) by (auto simp: put_block_def split: bind_splits if_splits)
  then have iw: "inode_map_wf q" "free_inodes q = free_inodes (sbi s)"
    using assms(2) by (simp_all add: free_inodes_def inode_map_wf_def)
  from ialloc.release_ok [OF iw(1), of ino] assms(4-6) iw(2) qi(1) obtain q' where q': "put_inode q ino = Some q'"
    "inode_map_wf q'" "free_inodes q' = insert ino (free_inodes q)" "nr_inodes q' = nr_inodes q" by auto
  have qb: "nr_blocks q' = nr_blocks q" "bfree_bitmap q' = bfree_bitmap q" "nr_free_blocks q' = nr_free_blocks q"
    using q'(1) by (auto simp: put_inode_def split: bind_splits if_splits)
  then have "block_map_wf q'" "free_blocks q' = free_blocks q"
    using q(2) by (simp_all add: free_blocks_def block_map_wf_def)
  then show ?thesis using q q' iw qb geometry_alloc(4) [OF q(1)] geometry_alloc(3) [OF q'(1)]
    by (simp add: clean_inode_def Let_def inode_dec_link_count_def)
qed

text \<open>The blocks of an inode: the entries of a directory are in its index block.\<close>

definition owned :: "fs \<Rightarrow> nat \<Rightarrow> nat set" where
  "owned s ino = (if S_ISDIR (i_mode (inodes s ino)) then {index_block (inodes s ino)} else file_blocks s ino)"

lemma owned_index: "index_block (inodes s ino) \<in> owned s ino"
  by (simp add: owned_def file_blocks_def)

text \<open>The removal of the entry from the directory block.\<close>

lemma unlink_entry:
  assumes "dir_wf (load_dir s db) (A @ f # B)" "f_ino f = word_of_nat ino" "\<forall>x \<in> set (A @ B). f_ino x \<noteq> word_of_nat ino"
  shows "\<exists>files. remove_sub (load_dir s db) (fst (find_sub (load_dir s db) (word_of_nat ino) 0 (-1)))
      (snd (find_sub (load_dir s db) (word_of_nat ino) 0 (-1))) = Some files \<and> dir_wf files (A @ B)"
proof -
  define Z where "Z = replicate (128 - length (A @ f # B)) no_file"
  have L: "load_dir s db = A @ f # B @ Z" using assms(1) by (simp add: dir_wf_def Z_def)
  have wn: "word_of_nat ino \<noteq> (0 :: u32_word)" using assms(1,2) by (auto simp: dir_wf_def)
  have "find_sub (load_dir s db) (word_of_nat ino) 0 (-1) = (int (length A), int (length (A @ f # B)))"
    unfolding L Z_def using assms wn by (intro find_sub_entry) (auto simp: dir_wf_def)
  moreover have "length (A @ f # B @ Z) = 128" using assms(1) by (simp add: dir_wf_def Z_def)
  note remove_sub_entry [OF this]
  moreover have "dir_wf (A @ B @ no_file # Z) (A @ B)"
    using assms(1) by (auto simp: dir_wf_def Z_def Suc_diff_le simp flip: replicate_Suc)
  ultimately show ?thesis using L by simp
qed

text \<open>The release of the data blocks, which a directory does not have.\<close>

lemma unlink_data:
  assumes wf: "fs_wf s" and ib: "ib = index_block (inodes s ino)" and br: "\<forall>b. bread_ok env b"
    and al: "allocated (sbi s) ib" "\<not> S_ISDIR (i_mode (inodes s ino)) \<Longrightarrow> file_wf s ino"
  shows "\<exists>s'. (if S_ISDIR (i_mode (inodes s ino)) then Some s else unlink_free env ib (i_blocks (inodes s ino)) 0 s) = Some s' \<and>
    wf_bufs s' \<and> block_map_wf (sbi s') \<and> free_blocks (sbi s') = free_blocks (sbi s) \<union> (owned s ino - {ib}) \<and>
    nr_blocks (sbi s') = nr_blocks (sbi s) \<and> free_inodes (sbi s') = free_inodes (sbi s) \<and> (inode_map_wf (sbi s) \<longrightarrow> inode_map_wf (sbi s')) \<and>
    nr_inodes (sbi s') = nr_inodes (sbi s) \<and> geometry (sbi s') = geometry (sbi s) \<and>
    (\<forall>b. bufs s' b = (if b \<in> owned s ino - {ib} then replicate 4096 0 else bufs s b)) \<and> inodes s' = inodes s"
proof (cases "S_ISDIR (i_mode (inodes s ino))")
  case True
  then show ?thesis using wf ib by (simp add: owned_def fs_wf_def)
next
  case False
  define es where "es = data_entries s ino"
  note ix = file_index_split [OF wf al(2) [OF False], folded es_def ib]
  have o: "owned s ino - {ib} = get_block_number ` set es"
    using False ix(6) by (auto simp: owned_def file_blocks_def es_def ib)
  have "\<forall>b \<in> get_block_number ` set es. allocated (sbi s) b"
    using data_entries_allocated [OF al(2) [OF False]] by (simp add: es_def)
  moreover have "i_blocks (inodes s ino) = Suc (length ([] :: entry list) + length es)" "length ([] :: entry list) + length es \<le> 1024"
    using ix by simp_all
  ultimately show ?thesis
    using unlink_free_spec [of s ib "[]" es "replicate (1024 - length es) 0" env, OF _ _ _ br ix(5,6)] wf ix(1) False o
    by (auto simp: fs_wf_def)
qed

lemma unlink_done:
  assumes wf: "fs_wf s" "inode_map_wf (sbi s)" and br: "\<forall>b. bread_ok env b"
    and al: "allocated (sbi s) (index_block (inodes s ino))" "\<not> S_ISDIR (i_mode (inodes s ino)) \<Longrightarrow> file_wf s ino" and ne: "dir \<noteq> ino"
    and ino: "0 < ino" "ino < nr_inodes (sbi s)" "ino \<notin> free_inodes (sbi s)" and db: "db = index_block (inodes s dir)" "db \<notin> owned s ino"
    and d: "dir_wf (load_dir s db) (A @ f # B)" "f_ino f = word_of_nat ino" "\<forall>x \<in> set (A @ B). f_ino x \<noteq> word_of_nat ino"
  shows "\<exists>s'. ouichefs_unlink env dir ino s = Some (0, s') \<and> dir_wf (load_dir s' db) (A @ B) \<and>
    free_blocks (sbi s') = free_blocks (sbi s) \<union> owned s ino \<and> free_inodes (sbi s') = insert ino (free_inodes (sbi s)) \<and>
    (\<forall>b \<in> owned s ino. bufs s' b = replicate 4096 0) \<and> fs_wf s' \<and> inode_map_wf (sbi s') \<and> dir_frame s {dir} {ino} (insert db (owned s ino)) s'"
proof -
  define ib where "ib = index_block (inodes s ino)"
  from unlink_entry [OF d] obtain files where files: "remove_sub (load_dir s db) (fst (find_sub (load_dir s db) (word_of_nat ino) 0 (-1)))
      (snd (find_sub (load_dir s db) (word_of_nat ino) 0 (-1))) = Some files" and dw: "dir_wf files (A @ B)" by blast
  define s0 where "s0 = set_inode dir (touch_dir env (inodes s dir)) (mark_buffer_dirty db (store_dir db files s))"
  define s1 where "s1 = mark_inode_dirty dir (if S_ISDIR (i_mode (inodes s0 ino)) then inode_dec_link_count dir s0 else s0)"
  have s1: "wf_bufs s1" "sbi s1 = sbi s" "inodes s1 ino = inodes s ino" "\<And>b. b \<noteq> db \<Longrightarrow> bufs s1 b = bufs s b" "bufs s1 db = dir_encode files"
      "\<And>j. j \<noteq> dir \<Longrightarrow> inodes s1 j = inodes s j" "i_mode (inodes s1 dir) = i_mode (inodes s dir)" "index_block (inodes s1 dir) = db"
  proof -
    have "wf_bufs (store_dir db files s)" using wf(1) dir_wf_block [OF dw] by (intro wf_bufs_store_dir) (simp_all add: fs_wf_def)
    then show "wf_bufs s1" by (simp add: s1_def s0_def wf_bufs_def)
  qed (use ne db(1) in \<open>simp_all add: s1_def s0_def\<close>)
  have nb: "b \<noteq> db" if "b \<in> owned s ino" for b using that db(2) by auto
  have fb: "file_wf s1 ino" "file_blocks s1 ino = file_blocks s ino" if "\<not> S_ISDIR (i_mode (inodes s ino))"
  proof -
    have "bufs s1 b = bufs s b \<and> allocated (sbi s1) b" if b: "b \<in> file_blocks s ino" for b
      using b nb [of b] s1(2,4) al(2) \<open>\<not> S_ISDIR (i_mode (inodes s ino))\<close> by (auto simp: owned_def file_wf_def Let_def)
    from file_unchanged [OF al(2) [OF that] s1(3) this]
    show "file_wf s1 ino" "file_blocks s1 ino = file_blocks s ino" by simp_all
  qed
  then have ow: "owned s1 ino = owned s ino" using s1(3) by (simp add: owned_def)
  have "fs_wf s1" using wf(1) s1(1,2) by (simp add: fs_wf_def)
  note ud = unlink_data [OF this _ br, of ib ino, unfolded s1(2,3) ow]
  from ud al(1) fb ib_def wf(2) obtain s2 where s2:
    "(if S_ISDIR (i_mode (inodes s ino)) then Some s1 else unlink_free env ib (i_blocks (inodes s ino)) 0 s1) = Some s2"
    "wf_bufs s2" "block_map_wf (sbi s2)" "free_blocks (sbi s2) = free_blocks (sbi s) \<union> (owned s ino - {ib})"
    "nr_blocks (sbi s2) = nr_blocks (sbi s)" "free_inodes (sbi s2) = free_inodes (sbi s)" "inode_map_wf (sbi s2)"
    "nr_inodes (sbi s2) = nr_inodes (sbi s)" "geometry (sbi s2) = geometry (sbi s)"
    "\<forall>b. bufs s2 b = (if b \<in> owned s ino - {ib} then replicate 4096 0 else bufs s1 b)" "inodes s2 = inodes s1"
    by auto
  define s3 where "s3 = mark_buffer_dirty ib (set_buf ib (replicate 4096 0) s2)"
  have "allocated (sbi s3) ib" using al(1) s2(4,5) by (auto simp: s3_def allocated_def ib_def)
  then obtain s' where s': "clean_inode ino ib s3 = Some (0, s')" "block_map_wf (sbi s')" "inode_map_wf (sbi s')"
    "free_blocks (sbi s') = insert ib (free_blocks (sbi s3))" "free_inodes (sbi s') = insert ino (free_inodes (sbi s3))"
    "nr_blocks (sbi s') = nr_blocks (sbi s3)" "geometry (sbi s') = geometry (sbi s3)" "bufs s' = bufs s3"
    "\<forall>j. j \<noteq> ino \<longrightarrow> inodes s' j = inodes s3 j"
    using clean_inode_spec [of s3 ib ino] ino s2 by (auto simp: s3_def)
  have bufs': "bufs s' b = (if b \<in> owned s ino then replicate 4096 0 else bufs s1 b)" for b
    using s'(8) s2(10) owned_index [of s ino] by (auto simp: s3_def ib_def)
  have "load_dir s' db = files"
    using bufs' [of db] db(2) s1(5) dir_view.decode_encode [OF dir_wf_block [OF dw]] by (simp add: load_dir_def del: dir_decode.simps)
  moreover have "fs_wf s'"
    using wf(1) s' s2(2,5) by (simp add: fs_wf_def wf_bufs_def s3_def OUICHEFS_BLOCK_SIZE_def)
  moreover have "ouichefs_unlink env dir ino s =
      do { s \<leftarrow> (if S_ISDIR (i_mode (inodes s1 ino)) then Some s1 else unlink_free env ib (i_blocks (inodes s1 ino)) 0 s1);
           clean_inode ino ib (mark_buffer_dirty ib (set_buf ib (replicate 4096 0) s)) }"
    using br files db(1) ne
    by (simp add: ouichefs_unlink_def Let_def split_beta ib_def s1_def s0_def OUICHEFS_BLOCK_SIZE_def cong: if_cong)
  then have "ouichefs_unlink env dir ino s = Some (0, s')" unfolding s1(3) s2(1) using s'(1) by (simp add: s3_def)
  moreover have "free_blocks (sbi s') = free_blocks (sbi s) \<union> owned s ino"
    using s'(4) s2(4) owned_index [of s ino] by (auto simp: s3_def ib_def)
  moreover have "dir_frame s {dir} {ino} (insert db (owned s ino)) s'"
    using s' s2 s1 bufs' ne db(1) by (simp add: dir_frame_def s3_def)
  ultimately show ?thesis
    using dw s'(3,5) s2(6) bufs' by (intro exI [of _ s']) (simp add: s3_def)
qed

text \<open>
  C22: Unlinking a regular file of a well-formed directory removes exactly its entry (the others keep
  their order), returns its index block, all its data blocks and its inode to the free sets, and
  scrubs these blocks; all other blocks but the directory's are untouched.
\<close>

theorem unlink_releases:
  assumes "fs_wf s" "inode_map_wf (sbi s)" "\<forall>b. bread_ok env b"
    and "file_wf s ino" "\<not> S_ISDIR (i_mode (inodes s ino))" "dir \<noteq> ino"
    and "0 < ino" "ino < nr_inodes (sbi s)" "ino \<notin> free_inodes (sbi s)"
    and "dir_wf (load_dir s (index_block (inodes s dir))) (A @ f # B)" "f_ino f = word_of_nat ino"
    and "\<forall>x \<in> set (A @ B). f_ino x \<noteq> word_of_nat ino" "index_block (inodes s dir) \<notin> file_blocks s ino"
  shows "\<exists>s'. ouichefs_unlink env dir ino s = Some (0, s') \<and>
    dir_wf (load_dir s' (index_block (inodes s dir))) (A @ B) \<and>
    free_blocks (sbi s') = free_blocks (sbi s) \<union> file_blocks s ino \<and>
    free_inodes (sbi s') = insert ino (free_inodes (sbi s)) \<and> fs_wf s' \<and> inode_map_wf (sbi s') \<and>
    (\<forall>b \<in> file_blocks s ino. bufs s' b = replicate 4096 0) \<and>
    (\<forall>b. b \<notin> file_blocks s ino \<longrightarrow> b \<noteq> index_block (inodes s dir) \<longrightarrow> bufs s' b = bufs s b)"
proof -
  have o: "owned s ino = file_blocks s ino" "allocated (sbi s) (index_block (inodes s ino))"
    using assms(4,5) file_blocks_index [of s ino] by (auto simp: owned_def file_wf_def Let_def)
  then have "index_block (inodes s dir) \<notin> owned s ino" using assms(13) by simp
  from unlink_done [OF assms(1-3) o(2) assms(4,6-9) refl this assms(10-12)]
  show ?thesis using o(1) by (auto simp: dir_frame_def)
qed

section \<open>The demo partition with its root directory\<close>

definition demo_slot :: "nat \<Rightarrow> byte list \<Rightarrow> dir_file" where
  "demo_slot ino name = \<lparr>f_ino = word_of_nat ino, f_name = strscpy (replicate 28 0) name\<rparr>"

definition demo_dir :: fs where
  "demo_dir = store_dir 4 ([demo_slot 2 [97], demo_slot 3 [98]] @ replicate 126 no_file)
     (set_inode 1 ((demo_inode 4096 1 4)\<lparr>i_mode := 0x41ED, i_nlink := 2\<rparr>) demo_fs)"

lemma demo_slot_facts [simp]:
  "length (f_name (demo_slot i name)) = 28" "f_ino (demo_slot i name) = word_of_nat i"
  by (simp_all add: demo_slot_def strscpy_def OUICHEFS_FILENAME_LEN_def)

lemma demo_dir_files:
  "load_dir demo_dir 4 = [demo_slot 2 [97], demo_slot 3 [98]] @ replicate 126 no_file"
  "dir_wf (load_dir demo_dir 4) [demo_slot 2 [97], demo_slot 3 [98]]"
proof -
  have w: "dir_wf ([demo_slot 2 [97], demo_slot 3 [98]] @ replicate 126 no_file) [demo_slot 2 [97], demo_slot 3 [98]]"
    by (simp add: dir_wf_def)
  show l: "load_dir demo_dir 4 = [demo_slot 2 [97], demo_slot 3 [98]] @ replicate 126 no_file"
    unfolding demo_dir_def using load_store_dir [OF dir_wf_block [OF w], of 4 _ 4] by simp
  show "dir_wf (load_dir demo_dir 4) [demo_slot 2 [97], demo_slot 3 [98]]" unfolding l by (rule w)
qed

lemma demo_dir_simps [simp]:
  "sbi demo_dir = demo_sb" "inodes demo_dir 2 = inodes demo_fs 2" "index_block (inodes demo_dir (Suc 0)) = 4"
  "i_mode (inodes demo_dir 2) = 0x81A4" "b \<noteq> 4 \<Longrightarrow> bufs demo_dir b = bufs demo_fs b"
  by (simp_all add: demo_dir_def demo_inode_def)

lemma demo_free_inodes: "free_inodes demo_sb = {4..<56}"
proof -
  have "free_inodes demo_sb = set (filter (test_bit (ifree_bitmap demo_sb)) [0..<56])"
    by (auto simp: free_inodes_def ones_def demo_sb_def)
  also have "filter (test_bit (ifree_bitmap demo_sb)) [0..<56] = [4..<56]" by code_simp
  finally show ?thesis by (simp del: upt_rec_numeral)
qed

lemma demo_dir_wf: "fs_wf demo_dir" "inode_map_wf demo_sb" "file_wf demo_dir 2" "file_blocks demo_dir 2 = {5, 6}"
proof -
  have "wf_bufs demo_dir" unfolding demo_dir_def
    using demo_wf(1) dir_wf_block [OF demo_dir_files(2) [unfolded demo_dir_files(1)]]
    by (intro wf_bufs_store_dir) (simp_all add: fs_wf_def)
  then show "fs_wf demo_dir" using demo_wf(1) by (simp add: fs_wf_def)
  show "inode_map_wf demo_sb" using demo_free_inodes
    by (simp add: inode_map_wf_def) (simp add: demo_sb_def bitmap_bits_def)
  have al: "allocated (sbi demo_dir) b" if "b \<in> file_blocks demo_fs 2" for b
    using that demo_wf(2) by (simp add: file_wf_def Let_def)
  have "bufs demo_dir b = bufs demo_fs b \<and> allocated (sbi demo_dir) b" if "b \<in> file_blocks demo_fs 2" for b
  proof -
    have "b \<in> {5, 6}" using that unfolding demo_wf(4) .
    then have "b \<noteq> 4" by auto
    then show ?thesis using that al by (metis demo_dir_simps(5))
  qed
  from file_unchanged [OF demo_wf(2) demo_dir_simps(2) this]
  show "file_wf demo_dir 2" "file_blocks demo_dir 2 = {5, 6}" using demo_wf(4) by simp_all
qed

lemma demo_env_ok: "\<forall>b. bread_ok demo_env b" "\<forall>i. iget_locked demo_env i = Some True"
  by (simp_all add: demo_env_def)

lemma demo_can_create: "can_create demo_env 1 0x81A4 demo_dir"
  using demo_dir_wf(1,2) demo_env_ok demo_free demo_free_inodes
  by (simp add: can_create_def S_ISREG_def)

lemma demo_no_name:
  "name \<noteq> [97] \<Longrightarrow> name \<noteq> [98] \<Longrightarrow> length name \<le> 28 \<Longrightarrow> lookup_loop (load_dir demo_dir 4) name = None"
  using lookup_loop_used [of "[demo_slot 2 [97], demo_slot 3 [98]]" name "replicate 126 no_file"] lookup_loop_free [of 126 name]
  by (simp add: demo_dir_files(1) cname_def demo_slot_def strscpy_name)

theorem create_then_lookup_witness:
  "\<exists>ino s'. ouichefs_create demo_env 1 [99, 46, 99] 0x81A4 demo_dir = Some (0, s') \<and> ino \<in> {4..<56} \<and>
     lookup_loop (load_dir s' (index_block (inodes s' 1))) [99, 46, 99] = Some (word_of_nat ino) \<and>
     lookup_loop (load_dir s' (index_block (inodes s' 1))) [100] = None"
proof -
  have "dir_wf (load_dir demo_dir (index_block (inodes demo_dir 1))) [demo_slot 2 [97], demo_slot 3 [98]]"
    using demo_dir_files(2) by simp
  moreover have "lookup_loop (load_dir demo_dir (index_block (inodes demo_dir 1))) [99, 46, 99] = None"
    "lookup_loop (load_dir demo_dir (index_block (inodes demo_dir 1))) [100] = None"
    using demo_no_name by simp_all
  ultimately show ?thesis
    using create_then_lookup [OF demo_can_create, of "[demo_slot 2 [97], demo_slot 3 [98]]" "[99, 46, 99]"]
    by (fastforce simp: demo_free_inodes)
qed

theorem create_28_byte_name_lost_witness:
  "\<exists>s'. ouichefs_create demo_env 1 (replicate 28 120) 0x81A4 demo_dir = Some (0, s') \<and>
     lookup_loop (load_dir s' (index_block (inodes s' 1))) (replicate 28 120) = None"
proof -
  have "replicate 28 120 \<noteq> [97 :: byte]" "replicate 28 120 \<noteq> [98 :: byte]" by (simp_all add: numeral_eq_Suc)
  then have "lookup_loop (load_dir demo_dir 4) (replicate 28 120) = None" by (intro demo_no_name) simp_all
  then show ?thesis
    using create_28_byte_name_lost [OF demo_can_create, of "[demo_slot 2 [97], demo_slot 3 [98]]" "replicate 28 120"]
      demo_dir_files(2) by simp
qed

theorem unlink_releases_witness:
  "\<exists>s'. ouichefs_unlink demo_env 1 2 demo_dir = Some (0, s') \<and> dir_wf (load_dir s' 4) [demo_slot 3 [98]] \<and>
     free_blocks (sbi s') = {5, 6, 10, 11, 12, 13, 14, 15} \<and> free_inodes (sbi s') = insert 2 {4..<56}"
proof -
  have "\<not> S_ISDIR (i_mode (inodes demo_dir 2))" by (simp add: S_ISDIR_def demo_inode_def)
  then show ?thesis
    using unlink_releases [OF demo_dir_wf(1), of demo_env 2 1 "[]" "demo_slot 2 [97]" "[demo_slot 3 [98]]"]
      demo_dir_wf demo_env_ok demo_dir_files(2) demo_free_inodes demo_free
    by fastforce
qed

end
