(* ===== verification/Rename.thy ===== *)
theory Rename
  imports DirProps
begin

text \<open>
  Correctness of \<open>ouichefs_rename\<close>. A well-formed directory is seen as a finite map from
  names to inode numbers.
\<close>

section \<open>Directories as maps\<close>

definition dir_map :: "dir_file list \<Rightarrow> byte list \<Rightarrow> u32_word option" where
  "dir_map us = map_of (map (\<lambda>f. (cname f, f_ino f)) us)"

lemma lookup_map_of:
  assumes "dir_wf files us" "length name \<le> 28"
  shows "lookup_loop files name = dir_map us name"
proof -
  have "lookup_loop (us @ replicate n no_file) name = dir_map us name"
    if "\<forall>f \<in> set us. f_ino f \<noteq> 0 \<and> length (f_name f) = 28" for n
    using that by (induction us) (auto simp: dir_map_def name_eq_cname lookup_loop_free assms(2))
  then show ?thesis using assms(1) by (simp add: dir_wf_def)
qed

lemma dir_map_entry:
  "dir_map (A @ g # B) name = (if name = cname g \<and> name \<notin> cname ` set A then Some (f_ino g) else dir_map (A @ B) name)"
  by (induction A) (auto simp: dir_map_def)

lemma dir_map_None: "dir_map us name = None \<longleftrightarrow> (\<forall>x \<in> set us. cname x \<noteq> name)"
  by (force simp: dir_map_def map_of_eq_None_iff)

lemma strscpy_cname:
  assumes "length dst = 28" "length name \<le> 27" "0 \<notin> set name"
  shows "length (strscpy dst name) = 28" "cname \<lparr>f_ino = i, f_name = strscpy dst name\<rparr> = name"
proof -
  have "\<forall>c \<in> set name. c \<noteq> 0" using assms(3) by metis
  then show "cname \<lparr>f_ino = i, f_name = strscpy dst name\<rparr> = name"
    using assms(2) by (simp add: cname_def strscpy_def overlay_def OUICHEFS_FILENAME_LEN_def)
  show "length (strscpy dst name) = 28" using assms by (simp add: strscpy_def OUICHEFS_FILENAME_LEN_def)
qed

section \<open>The scan of the target directory\<close>

lemma rename_scan_skip:
  assumes "\<forall>f \<in> set us. \<not> name_eq (f_name f) new \<and> \<not> (same \<and> name_eq (f_name f) old)"
  shows "\<exists>np'. rename_scan same old new (us @ rest) i fp np = rename_scan same old new rest (i + int (length us)) fp np' \<and>
    (0 \<le> np \<or> (\<forall>f \<in> set us. f_ino f \<noteq> 0) \<longrightarrow> np' = np)"
  using assms
proof (induction us arbitrary: i np)
  case (Cons f us)
  let ?np = "if np < 0 \<and> f_ino f = 0 then i else np"
  have "\<forall>f \<in> set us. \<not> name_eq (f_name f) new \<and> \<not> (same \<and> name_eq (f_name f) old)" using Cons.prems by simp
  from Cons.IH [OF this, of "i + 1" ?np] obtain np' where "rename_scan same old new (us @ rest) (i + 1) fp ?np =
      rename_scan same old new rest (i + 1 + int (length us)) fp np'"
    "0 \<le> ?np \<or> (\<forall>f \<in> set us. f_ino f \<noteq> 0) \<longrightarrow> np' = ?np" by blast
  then show ?case using Cons.prems by (intro exI [of _ np']) (auto simp: add.assoc)
qed simp

text \<open>The first free slot, when the directory does not hold the new name.\<close>

lemma rename_scan_free:
  assumes "dir_wf files us" "length us < 128" "new \<noteq> []" "length new \<le> 28" "\<forall>f \<in> set us. cname f \<noteq> new"
  shows "rename_scan False old new files 0 (-1) (-1) = Some (-1, int (length us))"
proof -
  have us: "\<forall>f \<in> set us. \<not> name_eq (f_name f) new" "\<forall>f \<in> set us. f_ino f \<noteq> 0"
    using assms by (auto simp: dir_wf_def name_eq_cname)
  have nf: "\<not> name_eq (f_name no_file) new" using assms(3) by (simp add: no_file_def name_eq_def OUICHEFS_FILENAME_LEN_def)
  have f: "files = us @ no_file # replicate (127 - length us) no_file @ []"
  proof -
    have "128 - length us = Suc (127 - length us)" using assms(2) by linarith
    then show ?thesis using assms(1) by (simp add: dir_wf_def)
  qed
  have "rename_scan False old new files 0 (-1) (-1) =
      rename_scan False old new (replicate (127 - length us) no_file @ []) (int (length us) + 1) (-1) (int (length us))"
    using rename_scan_skip [of us new False old "no_file # replicate (127 - length us) no_file @ []" 0 "-1" "-1"] us nf
    unfolding f by (auto simp: no_file_def Let_def)
  also have "\<dots> = Some (-1, int (length us))"
    using rename_scan_skip [of "replicate (127 - length us) no_file" new False old "[]" "int (length us) + 1" "-1" "int (length us)"] nf
    by auto
  finally show ?thesis .
qed

text \<open>The position of the renamed entry, in the same directory.\<close>

lemma rename_scan_same:
  assumes "dir_wf files (A @ f # B)" "new \<noteq> []" "length new \<le> 28" "\<forall>x \<in> set (A @ f # B). cname x \<noteq> new"
    and "old \<noteq> []" "length old \<le> 28" "cname f = old" "\<forall>x \<in> set (A @ B). cname x \<noteq> old"
  shows "\<exists>np. rename_scan True old new files 0 (-1) (-1) = Some (int (length A), np)"
proof -
  define Z where "Z = replicate (128 - length (A @ f # B)) no_file"
  have nf: "\<not> name_eq (f_name no_file) new" "\<not> name_eq (f_name no_file) old"
    using assms(2,5) by (simp_all add: no_file_def name_eq_def OUICHEFS_FILENAME_LEN_def)
  have ne: "name_eq (f_name x) name \<longleftrightarrow> cname x = name" if "x \<in> set (A @ f # B)" "length name \<le> 28" for x name
    using that assms(1) by (auto simp: dir_wf_def name_eq_cname)
  have f: "files = A @ f # (B @ Z) @ []" using assms(1) by (simp add: dir_wf_def Z_def)
  have "\<forall>x \<in> set A. \<not> name_eq (f_name x) new \<and> \<not> (True \<and> name_eq (f_name x) old)"
    using ne assms(3,4,6,8) by auto
  from rename_scan_skip [OF this, of "f # (B @ Z) @ []" 0 "-1" "-1"] obtain np where a: "rename_scan True old new files 0 (-1) (-1) =
      rename_scan True old new (f # (B @ Z) @ []) (int (length A)) (-1) np"
    unfolding f by auto
  have "\<forall>x \<in> set (B @ Z). \<not> name_eq (f_name x) new \<and> \<not> (True \<and> name_eq (f_name x) old)"
    using ne nf assms(3,4,6,8) by (auto simp: Z_def)
  note b = rename_scan_skip [OF this, of "[]" "int (length A) + 1" "int (length A)" "if np < 0 \<and> f_ino f = 0 then int (length A) else np"]
  have "rename_scan True old new (f # (B @ Z) @ []) (int (length A)) (-1) np =
      rename_scan True old new ((B @ Z) @ []) (int (length A) + 1) (int (length A)) (if np < 0 \<and> f_ino f = 0 then int (length A) else np)"
    using ne [of f] assms(3,4,6,7) by (simp add: Let_def)
  then show ?thesis using a b by auto
qed

section \<open>The search without bound in the source directory\<close>

lemma find_sub_unbounded_used:
  "\<lbrakk>\<forall>x \<in> set A. f_ino x \<noteq> ino \<and> f_ino x \<noteq> 0; ino \<noteq> 0\<rbrakk> \<Longrightarrow>
   find_sub_unbounded (A @ rest) ino i f_id = find_sub_unbounded rest ino (i + int (length A)) f_id"
  by (induction A arbitrary: i) (auto simp: add.assoc)

text \<open>It finds the entry when a free slot ends the search, and leaves a full directory block.\<close>

lemma find_sub_unbounded_entry:
  assumes "\<forall>x \<in> set (A @ B). f_ino x \<noteq> ino \<and> f_ino x \<noteq> 0" "ino \<noteq> 0" "f_ino f = ino"
  shows "find_sub_unbounded (A @ f # B @ replicate n no_file) ino 0 (-1) =
    (if n = 0 then None else Some (int (length A), int (length (A @ f # B))))"
proof -
  have "find_sub_unbounded (A @ f # B @ replicate n no_file) ino 0 (-1) =
      find_sub_unbounded (f # B @ replicate n no_file) ino (int (length A)) (-1)"
    using assms by (subst find_sub_unbounded_used) auto
  also have "\<dots> = find_sub_unbounded (B @ replicate n no_file) ino (int (length A) + 1) (int (length A))" using assms by simp
  also have "\<dots> = find_sub_unbounded (replicate n no_file) ino (int (length A) + 1 + int (length B)) (int (length A))"
    using assms by (subst find_sub_unbounded_used) auto
  also have "\<dots> = (if n = 0 then None else Some (int (length A), int (length (A @ f # B))))"
    using assms(2) by (cases n) (auto simp: no_file_def)
  finally show ?thesis .
qed

section \<open>Renaming\<close>

lemma rename_same_dir:
  assumes wf: "wf_bufs s" and ok: "bread_ok env db" and fl: "flags AND (RENAME_EXCHANGE OR RENAME_WHITEOUT) = 0"
    and db: "db = index_block (inodes s dir)" "dir_wf (load_dir s db) (A @ f # B)"
    and new: "new \<noteq> []" "length new \<le> 27" "0 \<notin> set new" "\<forall>x \<in> set (A @ f # B). cname x \<noteq> new"
    and old: "old \<noteq> []" "length old \<le> 28" "cname f = old" "\<forall>x \<in> set (A @ B). cname x \<noteq> old"
  shows "\<exists>s'. ouichefs_rename env dir src old dir new flags s = Some (0, s') \<and> (\<forall>b. b \<noteq> db \<longrightarrow> bufs s' b = bufs s b) \<and>
    dir_wf (load_dir s' db) (A @ \<lparr>f_ino = f_ino f, f_name = strscpy (f_name f) new\<rparr> # B) \<and>
    wf_bufs s' \<and> sbi s' = sbi s \<and> dir_frame s {dir} {} {db} s'"
proof -
  define f' Z where "f' = \<lparr>f_ino = f_ino f, f_name = strscpy (f_name f) new\<rparr>" and "Z = replicate (128 - length (A @ f # B)) no_file"
  have L: "load_dir s db = A @ f # B @ Z" using db(2) by (simp add: dir_wf_def Z_def)
  have n28: "length new \<le> 28" using new(2) by simp
  from rename_scan_same [OF db(2) new(1) n28 new(4) old] obtain np
    where sc: "rename_scan True old new (load_dir s db) 0 (-1) (-1) = Some (int (length A), np)" by blast
  have "length (f_name f) = 28" "f_ino f \<noteq> 0" using db(2) by (simp_all add: dir_wf_def)
  then have dw: "dir_wf (A @ f' # B @ Z) (A @ f' # B)"
    using db(2) strscpy_cname(1) [OF _ new(2,3)] by (simp add: dir_wf_def Z_def f'_def)
  define s' where "s' = mark_buffer_dirty db (store_dir db (A @ f' # B @ Z) s)"
  have "f\<lparr>f_name := strscpy (f_name f) new\<rparr> = f'" by (simp add: f'_def)
  then have "ouichefs_rename env dir src old dir new flags s = Some (0, s')"
    using ok fl db(1) [symmetric] n28 sc arr_mid [of A f "B @ Z"] arr_set_mid [of A f "B @ Z"]
    by (simp add: ouichefs_rename_def Let_def OUICHEFS_FILENAME_LEN_def L s'_def)
  moreover have "load_dir s' db = A @ f' # B @ Z"
    using load_store_dir [OF dir_wf_block [OF dw], of db s db] by (simp add: s'_def)
  moreover have "\<forall>b. b \<noteq> db \<longrightarrow> bufs s' b = bufs s b" by (simp add: s'_def)
  moreover have "wf_bufs (store_dir db (A @ f' # B @ Z) s)" using wf dir_wf_block [OF dw] by (rule wf_bufs_store_dir)
  then have "wf_bufs s'" by (simp add: s'_def wf_bufs_def)
  moreover have "sbi s' = sbi s" "inodes s' = inodes s" by (simp_all add: s'_def)
  ultimately show ?thesis using dw by (auto simp: f'_def dir_frame_def)
qed

lemma rename_other_dir:
  assumes wf: "wf_bufs s" and ok: "\<forall>b. bread_ok env b" and fl: "flags AND (RENAME_EXCHANGE OR RENAME_WHITEOUT) = 0"
    and dirs: "old_dir \<noteq> new_dir" "ob = index_block (inodes s old_dir)" "nb = index_block (inodes s new_dir)" "ob \<noteq> nb"
    and od: "dir_wf (load_dir s ob) (A @ f # B)" "f_ino f = word_of_nat src" "\<forall>x \<in> set (A @ B). f_ino x \<noteq> word_of_nat src"
    and nd: "dir_wf (load_dir s nb) us" "length us < 128"
    and new: "new \<noteq> []" "length new \<le> 27" "0 \<notin> set new" "\<forall>x \<in> set us. cname x \<noteq> new"
  shows "if length (A @ f # B) = 128 then ouichefs_rename env old_dir src old new_dir new flags s = None
    else \<exists>s'. ouichefs_rename env old_dir src old new_dir new flags s = Some (0, s') \<and>
      (\<forall>b. b \<noteq> ob \<and> b \<noteq> nb \<longrightarrow> bufs s' b = bufs s b) \<and> dir_wf (load_dir s' ob) (A @ B) \<and>
      dir_wf (load_dir s' nb) (us @ [\<lparr>f_ino = word_of_nat src, f_name = strscpy (replicate 28 0) new\<rparr>]) \<and>
      wf_bufs s' \<and> sbi s' = sbi s \<and> dir_frame s {old_dir, new_dir} {} {ob, nb} s'"
proof -
  define e Z n where "e = \<lparr>f_ino = word_of_nat src :: u32_word, f_name = strscpy (replicate 28 0) new\<rparr>"
    and "Z = replicate (127 - length us) no_file" and "n = 128 - length (A @ f # B)"
  have Lo: "load_dir s ob = A @ f # B @ replicate n no_file" using od(1) by (simp add: dir_wf_def n_def)
  have Ln: "load_dir s nb = us @ no_file # Z"
  proof -
    have "128 - length us = Suc (127 - length us)" using nd(2) by linarith
    then show ?thesis using nd(1) by (simp add: dir_wf_def Z_def)
  qed
  have n28: "length new \<le> 28" using new(2) by simp
  note sc = rename_scan_free [OF nd(1,2) new(1) n28 new(4), of old]
  have wn: "word_of_nat src \<noteq> (0 :: u32_word)" using od(1,2) by (auto simp: dir_wf_def)
  have dn: "dir_wf (us @ e # Z) (us @ [e])"
    using nd wn strscpy_cname(1) [OF _ new(2,3)] by (auto simp: dir_wf_def Z_def e_def)
  have fs: "find_sub_unbounded (load_dir s ob) (word_of_nat src) 0 (-1) =
      (if n = 0 then None else Some (int (length A), int (length (A @ f # B))))"
    unfolding Lo using od wn by (intro find_sub_unbounded_entry) (auto simp: dir_wf_def)
  define s0 where "s0 = mark_buffer_dirty nb (store_dir nb (us @ e # Z) s)"
  define s1 where "s1 = set_inode new_dir (touch_dir env (inodes s0 new_dir)) s0"
  define s2 where "s2 = mark_inode_dirty new_dir (if S_ISDIR (i_mode (inodes s1 src)) then inode_inc_link_count new_dir s1 else s1)"
  have l0: "load_dir s0 b = (if b = nb then us @ e # Z else load_dir s b)" for b
    using load_store_dir [OF dir_wf_block [OF dn], of nb s b] by (simp add: s0_def)
  then have l2: "load_dir s2 b = (if b = nb then us @ e # Z else load_dir s b)" for b by (simp add: s2_def s1_def)
  have b2: "bufs s2 b = bufs s b" if "b \<noteq> nb" for b using that by (simp add: s2_def s1_def s0_def)
  have e: "no_file\<lparr>f_ino := word_of_nat src, f_name := strscpy (f_name no_file) new\<rparr> = e" by (simp add: e_def no_file_def)
  have call: "ouichefs_rename env old_dir src old new_dir new flags s =
      do { (f_id, nr_subs) \<leftarrow> find_sub_unbounded (load_dir s2 ob) (word_of_nat src) 0 (-1);
           files \<leftarrow> remove_sub (load_dir s2 ob) f_id nr_subs;
           let s = mark_buffer_dirty ob (store_dir ob files s2);
           let s = set_inode old_dir (touch_dir env (inodes s old_dir)) s;
           let s = (if S_ISDIR (i_mode (inodes s src)) then inode_dec_link_count old_dir s else s);
           Some (0, mark_inode_dirty old_dir s) }"
    using ok fl dirs(1) dirs(2,3) [symmetric] n28 sc arr_mid [of us no_file Z] arr_set_mid [of us no_file Z]
    by (simp add: ouichefs_rename_def Let_def OUICHEFS_FILENAME_LEN_def Ln s2_def s1_def s0_def e [symmetric] cong: if_cong)
  show ?thesis
  proof (cases "n = 0")
    case True
    then have "length (A @ f # B) = 128" using od(1) by (simp add: n_def dir_wf_def)
    then show ?thesis using call fs l2 dirs(4) True by simp
  next
    case False
    define files where "files = A @ B @ no_file # replicate n no_file"
    have "length (A @ f # B @ replicate n no_file) = 128" using od(1) by (simp add: dir_wf_def n_def)
    from remove_sub_entry [OF this] have rm: "remove_sub (load_dir s ob) (int (length A)) (int (length (A @ f # B))) = Some files"
      by (simp add: Lo files_def)
    have dof: "dir_wf files (A @ B)"
      using od(1) by (auto simp: dir_wf_def files_def n_def Suc_diff_le simp flip: replicate_Suc)
    define s3 where "s3 = mark_buffer_dirty ob (store_dir ob files s2)"
    define s4 where "s4 = set_inode old_dir (touch_dir env (inodes s3 old_dir)) s3"
    define s' where "s' = mark_inode_dirty old_dir (if S_ISDIR (i_mode (inodes s4 src)) then inode_dec_link_count old_dir s4 else s4)"
    have "ouichefs_rename env old_dir src old new_dir new flags s = Some (0, s')"
      using call fs l2 dirs(4) False rm by (simp add: s'_def s4_def s3_def Let_def cong: if_cong)
    moreover have "load_dir s3 b = (if b = ob then files else load_dir s2 b)" for b
      using load_store_dir [OF dir_wf_block [OF dof], of ob s2 b] by (simp add: s3_def)
    then have "load_dir s' ob = files" "load_dir s' nb = us @ e # Z" using l2 dirs(4) by (simp_all add: s'_def s4_def)
    moreover have "\<forall>b. b \<noteq> ob \<and> b \<noteq> nb \<longrightarrow> bufs s' b = bufs s b" using b2 by (simp add: s'_def s4_def s3_def)
    moreover have "wf_bufs s'"
    proof -
      have "wf_bufs s2" using wf_bufs_store_dir [OF wf dir_wf_block [OF dn], of nb] by (simp add: s2_def s1_def s0_def wf_bufs_def)
      then show ?thesis using wf_bufs_store_dir [OF _ dir_wf_block [OF dof], of s2 ob] by (simp add: s'_def s4_def s3_def wf_bufs_def)
    qed
    moreover have "sbi s' = sbi s" by (simp add: s'_def s4_def s3_def s2_def s1_def s0_def)
    moreover have "inodes s' j = inodes s j" if "j \<notin> {old_dir, new_dir}" for j
      using that by (simp add: s'_def s4_def s3_def s2_def s1_def s0_def)
    moreover have "index_block (inodes s' j) = index_block (inodes s j) \<and> i_mode (inodes s' j) = i_mode (inodes s j)" for j
      by (simp add: s'_def s4_def s3_def s2_def s1_def s0_def)
    moreover have "length (A @ f # B) \<noteq> 128" using False by (simp add: n_def)
    ultimately show ?thesis using dof dn by (auto simp: e_def dir_frame_def)
  qed
qed

text \<open>The refusals of \<open>ouichefs_rename\<close>: each leaves the state alone.\<close>

lemma rename_scan_exists:
  "\<lbrakk>f \<in> set files; name_eq (f_name f) new\<rbrakk> \<Longrightarrow> rename_scan same old new files i fp np = None"
  by (induction files arbitrary: i fp np) (auto simp: Let_def)

lemma rename_refused:
  assumes br: "\<forall>b. bread_ok env b" and nb: "nb = index_block (inodes s new_dir)" and d: "dir_wf (load_dir s nb) us" and new: "new \<noteq> []"
    and r: "flags AND (RENAME_EXCHANGE OR RENAME_WHITEOUT) \<noteq> 0 \<or> 28 < length new \<or> (\<exists>f \<in> set us. cname f = new) \<or>
      old_dir \<noteq> new_dir \<and> length us = 128"
  shows "\<exists>e \<in> {EINVAL, ENAMETOOLONG, EEXIST, EMLINK}. ouichefs_rename env old_dir src old new_dir new flags s = Some (- e, s)"
proof -
  let ?call = "ouichefs_rename env old_dir src old new_dir new flags s"
  note defs = ouichefs_rename_def OUICHEFS_FILENAME_LEN_def Let_def nb [symmetric]
  consider "flags AND (RENAME_EXCHANGE OR RENAME_WHITEOUT) \<noteq> 0" | "flags AND (RENAME_EXCHANGE OR RENAME_WHITEOUT) = 0" "28 < length new"
    | f where "flags AND (RENAME_EXCHANGE OR RENAME_WHITEOUT) = 0" "length new \<le> 28" "f \<in> set us" "cname f = new"
    | "flags AND (RENAME_EXCHANGE OR RENAME_WHITEOUT) = 0" "length new \<le> 28" "\<forall>f \<in> set us. cname f \<noteq> new" "old_dir \<noteq> new_dir" "length us = 128"
    using r by (meson leI)
  then show ?thesis
  proof cases
    case 1
    then have "?call = Some (- EINVAL, s)" by (simp add: defs)
    then show ?thesis by blast
  next
    case 2
    then have "?call = Some (- ENAMETOOLONG, s)" by (simp add: defs)
    then show ?thesis by blast
  next
    case 3
    then have "f \<in> set (load_dir s nb)" "name_eq (f_name f) new" using d by (auto simp: dir_wf_def name_eq_cname)
    then have "?call = Some (- EEXIST, s)" using 3 br rename_scan_exists [of f "load_dir s nb"] by (simp add: defs)
    then show ?thesis by blast
  next
    case 4
    then have L: "load_dir s nb = us @ []" "\<forall>f \<in> set us. \<not> name_eq (f_name f) new \<and> \<not> (False \<and> name_eq (f_name f) old)" "\<forall>f \<in> set us. f_ino f \<noteq> 0"
      using d by (auto simp: dir_wf_def name_eq_cname)
    from rename_scan_skip [OF L(2), of "[]" 0 "-1" "-1"] L(3)
    have "rename_scan (new_dir = old_dir) old new (load_dir s nb) 0 (-1) (-1) = Some (-1, -1)" unfolding L(1) using 4(4) by auto
    then have "?call = Some (- EMLINK, s)" using 4 br by (simp add: defs)
    then show ?thesis by blast
  qed
qed

section \<open>Properties\<close>

text \<open>
  C36: Renaming an entry, inside a directory or into another one whose blocks differ and that has room, to a
  name of at most 27 bytes that the target does not hold: the call succeeds, the new name resolves
  to the inode in the target directory, the old name resolves no longer in the source directory,
  every other name of both directories resolves as before, and no other block changes. (The
  source directory must not be full when the directories differ: the search there has no bound.)
\<close>

theorem rename_moves:
  assumes "fs_wf s" "\<forall>b. bread_ok env b" "flags AND (RENAME_EXCHANGE OR RENAME_WHITEOUT) = 0"
    and "ob = index_block (inodes s old_dir)" "nb = index_block (inodes s new_dir)"
    and "dir_wf (load_dir s ob) (A @ f # B)" "distinct (map cname (A @ f # B))" "cname f = old_name" "old_name \<noteq> []"
    and "f_ino f = word_of_nat src" "\<forall>x \<in> set (A @ B). f_ino x \<noteq> word_of_nat src"
    and "old_dir \<noteq> new_dir \<longrightarrow> ob \<noteq> nb \<and> length (A @ f # B) < 128" "dir_wf (load_dir s nb) us" "old_dir \<noteq> new_dir \<longrightarrow> length us < 128"
    and "new_name \<noteq> []" "length new_name \<le> 27" "0 \<notin> set new_name" "lookup_loop (load_dir s nb) new_name = None"
  shows "\<exists>s'. ouichefs_rename env old_dir src old_name new_dir new_name flags s = Some (0, s') \<and>
    (\<forall>d name. d \<in> {old_dir, new_dir} \<and> length name \<le> 28 \<longrightarrow>
       lookup_loop (load_dir s' (index_block (inodes s d))) name =
         (if d = new_dir \<and> name = new_name then Some (word_of_nat src)
          else if d = old_dir \<and> name = old_name then None
          else lookup_loop (load_dir s (index_block (inodes s d))) name)) \<and>
    (\<forall>b. b \<noteq> ob \<and> b \<noteq> nb \<longrightarrow> bufs s' b = bufs s b)"
proof -
  have wb: "wf_bufs s" using assms(1) by (simp add: fs_wf_def)
  have n28: "length new_name \<le> 28" using assms(16) by simp
  have old28: "length old_name \<le> 28"
    using assms(6,8) length_takeWhile_le [of "\<lambda>c. c \<noteq> 0" "f_name f"] by (auto simp: dir_wf_def cname_def)
  have free: "\<forall>x \<in> set vs. cname x \<noteq> new_name" if "dir_wf (load_dir s nb) vs" for vs
    using assms(18) lookup_map_of [OF that n28] by (simp add: dir_map_None)
  have AB: "\<forall>x \<in> set (A @ B). cname x \<noteq> old_name" using assms(7,8) by (auto simp: image_iff)
  have nil: "dir_map (A @ B) old_name = None" using AB by (simp only: dir_map_None)
  show ?thesis
  proof (cases "old_dir = new_dir")
    case True
    note nAB = free [OF assms(6) [unfolded assms(4) True, folded assms(5)]]
    from rename_same_dir [OF wb _ assms(3,4,6,15,16,17) nAB assms(9) old28 assms(8) AB, of env src] assms(2) True obtain s' where s':
      "ouichefs_rename env old_dir src old_name new_dir new_name flags s = Some (0, s')" "\<forall>b. b \<noteq> ob \<longrightarrow> bufs s' b = bufs s b"
      "dir_wf (load_dir s' ob) (A @ \<lparr>f_ino = f_ino f, f_name = strscpy (f_name f) new_name\<rparr> # B)" by auto
    have cn: "cname \<lparr>f_ino = f_ino f, f_name = strscpy (f_name f) new_name\<rparr> = new_name"
      using assms(6) by (intro strscpy_cname(2) [OF _ assms(16,17)]) (simp add: dir_wf_def)
    have "lookup_loop (load_dir s' ob) name = (if name = new_name then Some (word_of_nat src) else if name = old_name then None
        else lookup_loop (load_dir s ob) name)" if "length name \<le> 28" for name
      using lookup_map_of [OF s'(3) that] lookup_map_of [OF assms(6) that] cn nil assms(8,10) nAB dir_map_entry [of A]
      by (auto simp: image_iff)
    then show ?thesis using s'(1,2) assms(4,5) True by auto
  next
    case False
    then have ne: "ob \<noteq> nb" "length us < 128" "length (A @ f # B) \<noteq> 128" using assms(12,14) by auto
    from rename_other_dir [OF wb assms(2,3) False assms(4,5) ne(1) assms(6,10,11,13) ne(2) assms(15-17) free [OF assms(13)], of old_name] ne(3)
    obtain s' where s': "ouichefs_rename env old_dir src old_name new_dir new_name flags s = Some (0, s')"
      "\<forall>b. b \<noteq> ob \<and> b \<noteq> nb \<longrightarrow> bufs s' b = bufs s b" "dir_wf (load_dir s' ob) (A @ B)"
      "dir_wf (load_dir s' nb) (us @ [\<lparr>f_ino = word_of_nat src, f_name = strscpy (replicate 28 0) new_name\<rparr>])" by auto
    have cn: "cname \<lparr>f_ino = word_of_nat src, f_name = strscpy (replicate 28 0) new_name\<rparr> = new_name"
      by (intro strscpy_cname(2) [OF _ assms(16,17)]) simp
    have "lookup_loop (load_dir s' ob) name = (if name = old_name then None else lookup_loop (load_dir s ob) name)" if "length name \<le> 28" for name
      using lookup_map_of [OF s'(3) that] lookup_map_of [OF assms(6) that] nil assms(8) dir_map_entry [of A f B name] AB by (auto simp: image_iff)
    moreover have "lookup_loop (load_dir s' nb) name = (if name = new_name then Some (word_of_nat src) else lookup_loop (load_dir s nb) name)"
      if "length name \<le> 28" for name
      using lookup_loop_new [OF assms(13) s'(4) that] cn assms(18) by (auto split: option.splits)
    ultimately show ?thesis using s'(1,2) False by (intro exI [of _ s']) (auto simp: assms(4,5))
  qed
qed

text \<open>The example partition with a second, empty directory.\<close>

definition demo_dirs :: fs where
  "demo_dirs = set_inode 9 (demo_inode 4096 1 12) (store_dir 12 (replicate 128 no_file) demo_dir)"

lemma demo_dirs_facts:
  "load_dir demo_dirs 4 = load_dir demo_dir 4" "dir_wf (load_dir demo_dirs 12) []" "fs_wf demo_dirs"
  "index_block (inodes demo_dirs 9) = 12" "index_block (inodes demo_dirs 1) = 4"
proof -
  have w: "dir_wf (replicate 128 no_file) []" by (simp add: dir_wf_def)
  note l = load_store_dir [OF dir_wf_block [OF w], of 12 demo_dir]
  show "load_dir demo_dirs 4 = load_dir demo_dir 4" "dir_wf (load_dir demo_dirs 12) []"
    using l [of 4] l [of 12] w by (simp_all add: demo_dirs_def)
  show "fs_wf demo_dirs" using demo_dir_wf(1) wf_bufs_store_dir [OF _ dir_wf_block [OF w], of demo_dir 12]
    by (simp add: fs_wf_def demo_dirs_def)
  show "index_block (inodes demo_dirs 9) = 12" "index_block (inodes demo_dirs 1) = 4" by (simp_all add: demo_dirs_def)
qed

theorem rename_moves_witness:
  "\<exists>s'. ouichefs_rename demo_env 1 2 [97] 9 [99] 0 demo_dirs = Some (0, s') \<and> lookup_loop (load_dir s' 12) [99] = Some 2 \<and>
     lookup_loop (load_dir s' 4) [97] = None \<and> lookup_loop (load_dir s' 4) [98] = lookup_loop (load_dir demo_dir 4) [98]"
proof -
  have c: "cname (demo_slot 2 [97]) = [97]" "cname (demo_slot 3 [98]) = [98]"
    unfolding demo_slot_def by (intro strscpy_cname(2); simp)+
  have d: "dir_wf (load_dir demo_dirs 4) ([] @ demo_slot 2 [97] # [demo_slot 3 [98]])"
    using demo_dir_files(2) demo_dirs_facts(1) by simp
  have n: "lookup_loop (load_dir demo_dirs 12) [99] = None" using lookup_map_of [OF demo_dirs_facts(2), of "[99]"] by (simp add: dir_map_def)
  from rename_moves [OF demo_dirs_facts(3) demo_env_ok(1) _ demo_dirs_facts(5) [symmetric] demo_dirs_facts(4) [symmetric] d _ c(1) _ _ _ _
        demo_dirs_facts(2) _ _ _ _ n, of 0 2] c
  obtain s' where r: "ouichefs_rename demo_env 1 2 [97] 9 [99] 0 demo_dirs = Some (0, s')" and
    l: "\<And>d name. d \<in> {1, 9} \<and> length name \<le> 28 \<Longrightarrow> lookup_loop (load_dir s' (index_block (inodes demo_dirs d))) name =
      (if d = 9 \<and> name = [99] then Some (word_of_nat 2) else if d = 1 \<and> name = [97] then None
       else lookup_loop (load_dir demo_dirs (index_block (inodes demo_dirs d))) name)" by auto
  show ?thesis using r l [of 9 "[99]"] l [of 1 "[97]"] l [of 1 "[98]"] demo_dirs_facts(1,4,5) by simp
qed

end
