(* ===== verification/Tree.thy ===== *)
theory Tree
  imports Sessions Rename
begin

text \<open>
  What a mounted partition is to its users: a tree of directories, each a finite map from names to
  inodes, and regular files, each a sequence of bytes; and what every call of the module may do to
  this tree.
\<close>

section \<open>Trees\<close>

record tree =
  dirs :: "nat \<Rightarrow> (byte list \<Rightarrow> nat option) option"
  files :: "nat \<Rightarrow> byte list option"

definition nodes :: "tree \<Rightarrow> nat set" where
  "nodes t = dom (dirs t) \<union> dom (files t)"

definition link :: "tree \<Rightarrow> nat \<Rightarrow> byte list \<Rightarrow> nat \<Rightarrow> bool" where
  "link t d name i \<longleftrightarrow> (\<exists>m. dirs t d = Some m \<and> m name = Some i)"

text \<open>The root directory is inode 1; every other inode has exactly one name.\<close>

definition root_ino :: nat where "root_ino = 1"

definition tree_ok :: "tree \<Rightarrow> bool" where
  "tree_ok t \<longleftrightarrow> root_ino \<in> dom (dirs t) \<and> (\<forall>i. dirs t i = None \<or> files t i = None) \<and>
     (\<forall>d name i. link t d name i \<longrightarrow> i \<in> nodes t \<and> i \<noteq> root_ino) \<and>
     (\<forall>d name e other i. link t d name i \<longrightarrow> link t e other i \<longrightarrow> d = e \<and> name = other) \<and>
     (\<forall>i. i \<in> nodes t \<longrightarrow> i = root_ino \<or> (\<exists>d name. link t d name i))"

lemma tree_okI:
  assumes "root_ino \<in> dom (dirs t)" "\<And>i. dirs t i = None \<or> files t i = None"
    and "\<And>d name i. link t d name i \<Longrightarrow> i \<in> nodes t \<and> i \<noteq> root_ino"
    and "\<And>d name e other i. \<lbrakk>link t d name i; link t e other i\<rbrakk> \<Longrightarrow> d = e \<and> name = other"
    and "\<And>i. \<lbrakk>i \<in> nodes t; i \<noteq> root_ino\<rbrakk> \<Longrightarrow> \<exists>d name. link t d name i"
  shows "tree_ok t"
  using assms unfolding tree_ok_def by blast

lemma tree_okD:
  assumes "tree_ok t"
  shows "root_ino \<in> dom (dirs t)" "dirs t i = None \<or> files t i = None"
    and "link t d name i \<Longrightarrow> i \<in> nodes t \<and> i \<noteq> root_ino"
    and "\<lbrakk>link t d name i; link t e other i\<rbrakk> \<Longrightarrow> d = e \<and> name = other"
    and "\<lbrakk>i \<in> nodes t; i \<noteq> root_ino\<rbrakk> \<Longrightarrow> \<exists>d name. link t d name i"
  by (insert assms, unfold tree_ok_def) (elim conjE, simp, metis+)

definition add_name :: "nat \<Rightarrow> byte list \<Rightarrow> nat \<Rightarrow> tree \<Rightarrow> tree" where
  "add_name d name i t = t\<lparr>dirs := (dirs t)(d \<mapsto> (the (dirs t d))(name \<mapsto> i))\<rparr>"

definition drop_name :: "nat \<Rightarrow> byte list \<Rightarrow> tree \<Rightarrow> tree" where
  "drop_name d name t = t\<lparr>dirs := (dirs t)(d \<mapsto> (the (dirs t d))(name := None))\<rparr>"

definition put_file :: "nat \<Rightarrow> byte list \<Rightarrow> tree \<Rightarrow> tree" where
  "put_file i c t = t\<lparr>files := (files t)(i \<mapsto> c)\<rparr>"

definition put_dir :: "nat \<Rightarrow> tree \<Rightarrow> tree" where
  "put_dir i t = t\<lparr>dirs := (dirs t)(i \<mapsto> Map.empty)\<rparr>"

definition del_node :: "nat \<Rightarrow> tree \<Rightarrow> tree" where
  "del_node i t = t\<lparr>dirs := (dirs t)(i := None), files := (files t)(i := None)\<rparr>"

lemmas tree_ops = add_name_def drop_name_def put_file_def put_dir_def del_node_def

text \<open>A step only changes the tree as the next lemmas say, so every step keeps a tree a tree.\<close>

lemma linkD: "link t d name i \<Longrightarrow> d \<in> dom (dirs t)"
  by (auto simp: link_def)

lemma link_unique: "\<lbrakk>link t d name i; link t d name j\<rbrakk> \<Longrightarrow> i = j"
  by (auto simp: link_def)

lemma in_nodes: "i \<in> nodes t \<longleftrightarrow> dirs t i \<noteq> None \<or> files t i \<noteq> None"
  by (auto simp: nodes_def)

lemma tree_ok_put_file: "\<lbrakk>tree_ok t; i \<in> dom (files t)\<rbrakk> \<Longrightarrow> tree_ok (put_file i c t)"
proof -
  assume t: "tree_ok t" "i \<in> dom (files t)"
  have v: "files (put_file i c t) = (files t)(i \<mapsto> c)" "dirs (put_file i c t) = dirs t" by (simp_all add: put_file_def)
  have "nodes (put_file i c t) = nodes t" "link (put_file i c t) = link t"
    using t(2) by (auto simp: v nodes_def link_def fun_eq_iff)
  then show ?thesis using t tree_okD(2) [OF t(1), of i] unfolding tree_ok_def v by auto
qed

lemma tree_ok_new:
  assumes t: "tree_ok t" and d: "dirs t d = Some m" "m name = None" and i: "i \<notin> nodes t"
    and u: "u = put_file i [] t \<or> u = put_dir i t"
  shows "tree_ok (add_name d name i u)"
proof -
  let ?v = "add_name d name i u"
  have i0: "dirs t i = None" "files t i = None" using i by (simp_all add: in_nodes)
  then have i1: "i \<noteq> root_ino" "i \<noteq> d" using d tree_okD(1) [OF t] by auto
  have n: "nodes ?v = insert i (nodes t)"
    using d u by (auto simp: tree_ops nodes_def split: if_splits)
  have l: "link ?v e x j \<longleftrightarrow> link t e x j \<or> e = d \<and> x = name \<and> j = i" for e x j
    using d i0 u i1 by (auto simp: tree_ops link_def split: if_splits)
  note tD = tree_okD [OF t]
  have no: "\<not> link t e x i" for e x using tD(3) i by blast
  show ?thesis
  proof (rule tree_okI)
    show "root_ino \<in> dom (dirs ?v)" using tD(1) u by (auto simp: tree_ops)
    show "dirs ?v j = None \<or> files ?v j = None" for j
      using tD(2) [of j] tD(2) [of d] d i0 i1 u by (auto simp: tree_ops split: if_splits)
    show "j \<in> nodes ?v \<and> j \<noteq> root_ino" if "link ?v e x j" for e x j
      using that tD(3) i1 unfolding l n by blast
    show "e = f \<and> x = y" if "link ?v e x j" "link ?v f y j" for e x f y j
      using that no tD(4) unfolding l by blast
    show "\<exists>e x. link ?v e x j" if "j \<in> nodes ?v" "j \<noteq> root_ino" for j
      using that tD(5) unfolding l n by blast
  qed
qed

lemma tree_ok_del:
  assumes t: "tree_ok t" and l: "link t d name i" "d \<noteq> i" and e: "dirs t i = None \<or> dirs t i = Some Map.empty"
  shows "tree_ok (drop_name d name (del_node i t))"
proof -
  let ?v = "drop_name d name (del_node i t)"
  note tD = tree_okD [OF t]
  have i1: "i \<noteq> root_ino" using tD(3) l by blast
  have v: "dirs ?v = ((dirs t)(i := None))(d \<mapsto> (the (dirs t d))(name := None))" "files ?v = (files t)(i := None)"
    using l(2) by (simp_all add: tree_ops)
  have n: "nodes ?v = nodes t - {i}" using l unfolding nodes_def v by (auto simp: link_def)
  have ll: "link ?v f x j \<longleftrightarrow> link t f x j \<and> \<not> (f = d \<and> x = name)" for f x j
    using l e unfolding link_def v by auto
  show ?thesis
  proof (rule tree_okI)
    show "root_ino \<in> dom (dirs ?v)" using tD(1) i1 unfolding v by auto
    show "dirs ?v j = None \<or> files ?v j = None" for j
      using tD(2) [of j] tD(2) [of d] l unfolding v by (auto simp: link_def)
    show "j \<in> nodes ?v \<and> j \<noteq> root_ino" if "link ?v e x j" for e x j
      using that tD(3) [of e x j] tD(4) [OF l(1), of e x] unfolding ll n by blast
    show "e = f \<and> x = y" if "link ?v e x j" "link ?v f y j" for e x f y j
      using that tD(4) unfolding ll by blast
    show "\<exists>e x. link ?v e x j" if "j \<in> nodes ?v" "j \<noteq> root_ino" for j
      using that tD(5) [of j] link_unique [OF l(1), of j] unfolding ll n by blast
  qed
qed

lemma tree_ok_rename:
  assumes t: "tree_ok t" and l: "link t d name i" and e: "dirs t e = Some m" "m other = None"
  shows "tree_ok (add_name e other i (drop_name d name t))"
proof -
  let ?v = "add_name e other i (drop_name d name t)"
  note tD = tree_okD [OF t]
  have v: "dom (dirs ?v) = dom (dirs t)" "files ?v = files t" using l e by (auto simp: tree_ops link_def)
  have n: "nodes ?v = nodes t" by (simp add: nodes_def v)
  have ll: "link ?v f x j \<longleftrightarrow> link t f x j \<and> \<not> (f = d \<and> x = name) \<or> f = e \<and> x = other \<and> j = i" for f x j
    using l e by (auto simp: tree_ops link_def)
  have no: "\<not> link t e other j" for j using e by (simp add: link_def)
  show ?thesis
  proof (rule tree_okI)
    show "root_ino \<in> dom (dirs ?v)" using tD(1) unfolding v .
    show "dirs ?v j = None \<or> files ?v j = None" for j
      using tD(2) [of j] v by (metis domIff)
    show "j \<in> nodes ?v \<and> j \<noteq> root_ino" if "link ?v f x j" for f x j
      using that tD(3) l unfolding ll n by blast
    show "f = g \<and> x = y" if "link ?v f x j" "link ?v g y j" for f x g y j
      using that tD(4) [OF l] tD(4) no unfolding ll by blast
    show "\<exists>f x. link ?v f x j" if "j \<in> nodes ?v" "j \<noteq> root_ino" for j
      using that tD(5) [of j] link_unique [OF l, of j] unfolding ll n by blast
  qed
qed

section \<open>Calls\<close>

datatype syscall =
    Create nat "byte list" "16 word"
  | Mkdir nat "byte list" "16 word"
  | Unlink nat nat
  | Rmdir nat nat
  | Rename nat nat "byte list" nat "byte list" u32_word
  | File_call call

fun refusals :: "syscall \<Rightarrow> int set" where
  "refusals (Create d name mode) = {- ENAMETOOLONG, - EMLINK, - ENOSPC}"
| "refusals (Mkdir d name mode) = {- ENAMETOOLONG, - EMLINK, - ENOSPC}"
| "refusals (Unlink d i) = {}"
| "refusals (Rmdir d i) = {- ENOTEMPTY}"
| "refusals (Rename od i old nd new flags) = {- EINVAL, - ENAMETOOLONG, - EEXIST, - EMLINK}"
| "refusals (File_call c) = {}"

inductive tree_step :: "tree \<Rightarrow> syscall \<Rightarrow> int \<Rightarrow> tree \<Rightarrow> bool" where
  Tree_create: "i \<notin> nodes t \<Longrightarrow> tree_step t (Create d name mode) 0 (add_name d name i (put_file i [] t))"
| Tree_mkdir: "i \<notin> nodes t \<Longrightarrow> tree_step t (Mkdir d name mode) 0 (add_name d name i (put_dir i t))"
| Tree_unlink: "link t d name i \<Longrightarrow> tree_step t (Unlink d i) 0 (drop_name d name (del_node i t))"
| Tree_rmdir: "\<lbrakk>link t d name i; dirs t i = Some Map.empty\<rbrakk> \<Longrightarrow>
     tree_step t (Rmdir d i) 0 (drop_name d name (del_node i t))"
| Tree_rename: "the (dirs t nd) new = None \<Longrightarrow>
     tree_step t (Rename od i old nd new flags) 0 (add_name nd new i (drop_name od old t))"
| Tree_write: "\<lbrakk>files t (f_inode f) = Some c;
      write_spec c (if f_flags f AND O_APPEND \<noteq> 0 then length c else nat pos) buff r c'\<rbrakk> \<Longrightarrow>
     tree_step t (File_call (Write f buff pos)) r (put_file (f_inode f) c' t)"
| Tree_defragment: "tree_step t (File_call (Defragment f)) 0 t"
| Tree_refused: "r \<in> refusals op \<Longrightarrow> tree_step t op r t"

text \<open>
  What the VFS guarantees of its calls: the directories exist, the names it passes are those of the
  entries, a new entry does not exist yet, a mode has the type the call is for. A name of 28 bytes
  is excluded: the module stores only 27 bytes of it (property C21).
\<close>

definition name_ok :: "byte list \<Rightarrow> bool" where
  "name_ok name \<longleftrightarrow> name \<noteq> [] \<and> 0 \<notin> set name \<and> length name \<noteq> 28"

fun vfs_call :: "tree \<Rightarrow> syscall \<Rightarrow> bool" where
  "vfs_call t (Create d name mode) \<longleftrightarrow> (\<exists>m. dirs t d = Some m \<and> m name = None) \<and> name_ok name \<and> S_ISREG mode"
| "vfs_call t (Mkdir d name mode) \<longleftrightarrow> (\<exists>m. dirs t d = Some m \<and> m name = None) \<and> name_ok name \<and> mode AND 0xF000 = 0"
| "vfs_call t (Unlink d i) \<longleftrightarrow> (\<exists>name. link t d name i) \<and> i \<in> dom (files t)"
| "vfs_call t (Rmdir d i) \<longleftrightarrow> (\<exists>name. link t d name i) \<and> i \<in> dom (dirs t) \<and> d \<noteq> i"
| "vfs_call t (Rename od i old nd new flags) \<longleftrightarrow> link t od old i \<and> nd \<in> dom (dirs t) \<and> name_ok new"
| "vfs_call t (File_call c) \<longleftrightarrow> valid_call (dom (files t)) c"

inductive sys_step :: "kenv \<Rightarrow> fs \<Rightarrow> syscall \<Rightarrow> int \<Rightarrow> fs \<Rightarrow> bool" for env where
  Sys_create: "ouichefs_create env d name mode s = Some (r, s') \<Longrightarrow> sys_step env s (Create d name mode) r s'"
| Sys_mkdir: "ouichefs_mkdir env d name mode s = Some (r, s') \<Longrightarrow> sys_step env s (Mkdir d name mode) r s'"
| Sys_unlink: "ouichefs_unlink env d i s = Some (r, s') \<Longrightarrow> sys_step env s (Unlink d i) r s'"
| Sys_rmdir: "ouichefs_rmdir env d i s = Some (r, s') \<Longrightarrow> sys_step env s (Rmdir d i) r s'"
| Sys_rename: "ouichefs_rename env od i old nd new flags s = Some (r, s') \<Longrightarrow>
     sys_step env s (Rename od i old nd new flags) r s'"
| Sys_file: "fs_step env s c r s' \<Longrightarrow> sys_step env s (File_call c) r s'"

end
