(* ===== verification/Consistent.thy ===== *)
theory Consistent
  imports Tree
begin

text \<open>
  When a mounted partition is consistent: the tree that its inodes and directory blocks describe is a
  tree, every directory and file is well formed, and the blocks behind the metadata are divided
  among the inodes in use and the free blocks, none owned twice and none lost. One lemma says how
  much an operation has to establish to keep a partition consistent.
\<close>

section \<open>Consistent partitions\<close>

text \<open>The first block behind the superblock, the inode store and the two bitmaps.\<close>

definition first_data_block :: "sb_info \<Rightarrow> nat" where
  "first_data_block q = nr_istore_blocks q + nr_ifree_blocks q + nr_bfree_blocks q + 1"

definition used_inodes :: "sb_info \<Rightarrow> nat set" where
  "used_inodes q = {0<..<nr_inodes q} - free_inodes q"

definition slots :: "fs \<Rightarrow> nat \<Rightarrow> dir_file list" where
  "slots s d = takeWhile (\<lambda>f. f_ino f \<noteq> 0) (load_dir s (index_block (inodes s d)))"

definition dir_names :: "fs \<Rightarrow> nat \<Rightarrow> byte list \<Rightarrow> nat option" where
  "dir_names s d name = map_option unat (dir_map (slots s d) name)"

definition dir_shows :: "fs \<Rightarrow> nat \<Rightarrow> (byte list \<Rightarrow> nat option) \<Rightarrow> bool" where
  "dir_shows s d m \<longleftrightarrow> S_ISDIR (i_mode (inodes s d)) \<and> dir_wf (load_dir s (index_block (inodes s d))) (slots s d) \<and>
     distinct (map cname (slots s d)) \<and> (\<forall>f \<in> set (slots s d). cname f \<noteq> []) \<and> m = dir_names s d"

definition file_shows :: "fs \<Rightarrow> nat \<Rightarrow> byte list \<Rightarrow> bool" where
  "file_shows s i c \<longleftrightarrow> \<not> S_ISDIR (i_mode (inodes s i)) \<and> file_wf s i \<and> file_content s i = c"

definition blocks_ok :: "fs \<Rightarrow> nat set \<Rightarrow> bool" where
  "blocks_ok s N \<longleftrightarrow> (\<forall>i \<in> N. \<forall>j \<in> N. i \<noteq> j \<longrightarrow> owned s i \<inter> owned s j = {}) \<and>
     (\<forall>i \<in> N. owned s i \<inter> free_blocks (sbi s) = {}) \<and>
     (\<forall>b. b \<in> free_blocks (sbi s) \<or> (\<exists>i \<in> N. b \<in> owned s i) \<longleftrightarrow> first_data_block (sbi s) \<le> b \<and> b < nr_blocks (sbi s))"

definition represents :: "fs \<Rightarrow> tree \<Rightarrow> bool" where
  "represents s t \<longleftrightarrow> fs_wf s \<and> inode_map_wf (sbi s) \<and> tree_ok t \<and> nodes t = used_inodes (sbi s) \<and>
     (\<forall>d m. dirs t d = Some m \<longrightarrow> dir_shows s d m) \<and> (\<forall>i c. files t i = Some c \<longrightarrow> file_shows s i c) \<and>
     blocks_ok s (nodes t)"

text \<open>The tree of a partition, and its consistency.\<close>

definition tree_of :: "fs \<Rightarrow> tree" where
  "tree_of s =
     \<lparr>dirs = (\<lambda>d. if d \<in> used_inodes (sbi s) \<and> S_ISDIR (i_mode (inodes s d)) then Some (dir_names s d) else None),
      files = (\<lambda>i. if i \<in> used_inodes (sbi s) \<and> \<not> S_ISDIR (i_mode (inodes s i)) then Some (file_content s i) else None)\<rparr>"

definition consistent :: "fs \<Rightarrow> bool" where
  "consistent s \<longleftrightarrow> represents s (tree_of s)"

lemma representsD:
  assumes "represents s t"
  shows "fs_wf s" "inode_map_wf (sbi s)" "tree_ok t" "nodes t = used_inodes (sbi s)"
    and "dirs t d = Some m \<Longrightarrow> dir_shows s d m" "files t i = Some c \<Longrightarrow> file_shows s i c" "blocks_ok s (nodes t)"
  using assms unfolding represents_def by fast+

lemma represents_tree_of:
  assumes r: "represents s t"
  shows "tree_of s = t"
proof -
  note rD = representsD [OF r]
  have d: "dirs (tree_of s) i = dirs t i" for i
  proof (cases "dirs t i")
    case None
    then have "\<exists>c. files t i = Some c" if "i \<in> nodes t" using that by (auto simp: in_nodes)
    then show ?thesis using None rD(4,6) by (auto simp: tree_of_def file_shows_def)
  next
    case (Some m)
    then have "i \<in> nodes t" by (simp add: in_nodes)
    then show ?thesis using rD(4) rD(5) [OF Some] Some by (simp add: tree_of_def dir_shows_def)
  qed
  have f: "files (tree_of s) i = files t i" for i
  proof (cases "files t i")
    case None
    then have "\<exists>m. dirs t i = Some m" if "i \<in> nodes t" using that by (auto simp: in_nodes)
    then show ?thesis using None rD(4,5) by (auto simp: tree_of_def dir_shows_def)
  next
    case (Some c)
    then have "i \<in> nodes t" by (simp add: in_nodes)
    then show ?thesis using rD(4) rD(6) [OF Some] Some by (simp add: tree_of_def file_shows_def)
  qed
  show ?thesis by (rule tree.equality) (simp_all add: fun_eq_iff d f)
qed

lemma represents_consistent: "represents s t \<Longrightarrow> consistent s \<and> tree_of s = t"
  using represents_tree_of by (simp add: consistent_def)

section \<open>Directories and files of a consistent partition\<close>

lemma slots_eq: "dir_wf (load_dir s (index_block (inodes s d))) us \<Longrightarrow> slots s d = us"
  by (auto simp: slots_def dir_wf_def takeWhile_append no_file_def)

lemma dir_showsI:
  assumes "S_ISDIR (i_mode (inodes s d))" "dir_wf (load_dir s (index_block (inodes s d))) us"
    and "distinct (map cname us)" "\<forall>f \<in> set us. cname f \<noteq> []" "\<And>name. m name = map_option unat (dir_map us name)"
  shows "dir_shows s d m"
  using assms slots_eq [OF assms(2)] by (auto simp: dir_shows_def dir_names_def)

lemma dir_shows_cong:
  assumes "dir_shows s d m" "index_block (inodes s' d) = index_block (inodes s d)" "S_ISDIR (i_mode (inodes s' d)) = S_ISDIR (i_mode (inodes s d))"
    and "bufs s' (index_block (inodes s d)) = bufs s (index_block (inodes s d))"
  shows "dir_shows s' d m"
proof -
  have "load_dir s' (index_block (inodes s d)) = load_dir s (index_block (inodes s d))"
    using assms(4) by (simp add: load_dir_def)
  then show ?thesis using assms(1-3) by (simp add: dir_shows_def dir_names_def slots_def fun_eq_iff)
qed

text \<open>An entry of a directory, with what comes before and after it.\<close>

lemma dir_entry:
  assumes sh: "dir_shows s d m" and m: "m name = Some i"
  obtains A f B where "slots s d = A @ f # B" "cname f = name" "f_ino f = word_of_nat i"
    "\<forall>x \<in> set (A @ B). cname x \<noteq> name"
proof -
  obtain w where w: "dir_map (slots s d) name = Some w" "i = unat w"
    using sh m by (auto simp: dir_shows_def dir_names_def)
  then have "(name, w) \<in> set (map (\<lambda>f. (cname f, f_ino f)) (slots s d))" unfolding dir_map_def by (rule_tac map_of_SomeD) simp
  then obtain f where f: "f \<in> set (slots s d)" "cname f = name" "f_ino f = w" by auto
  from split_list [OF f(1)] obtain A B where "slots s d = A @ f # B" by blast
  moreover from this have "\<forall>x \<in> set (A @ B). cname x \<noteq> name" using sh f(2) by (auto simp: dir_shows_def image_iff dest: bspec)
  moreover have "f_ino f = word_of_nat i" using f(3) w(2) by simp
  ultimately show thesis using f(2) that by blast
qed

text \<open>Every entry of a directory is a link of the tree, and no other entry leads to its inode.\<close>

lemma slot_link:
  assumes sh: "dir_shows s d m" and f: "f \<in> set (slots s d)"
  shows "m (cname f) = Some (unat (f_ino f))"
proof -
  have "distinct (map fst (map (\<lambda>f. (cname f, f_ino f)) (slots s d)))" using sh by (simp add: dir_shows_def comp_def)
  then have "dir_map (slots s d) (cname f) = Some (f_ino f)"
    unfolding dir_map_def using f by (intro map_of_is_SomeI) (simp_all add: rev_image_eqI)
  then show ?thesis using sh by (simp add: dir_shows_def dir_names_def)
qed

lemma entry_only:
  assumes "tree_ok t" "dirs t d = Some m" "dir_shows s d m" "slots s d = A @ f # B" "\<forall>x \<in> set (A @ B). cname x \<noteq> cname f"
  shows "\<forall>x \<in> set (A @ B). f_ino x \<noteq> f_ino f"
proof
  fix x assume x: "x \<in> set (A @ B)"
  then have "x \<in> set (slots s d)" "f \<in> set (slots s d)" using assms(4) by auto
  then have "link t d (cname x) (unat (f_ino x))" "link t d (cname f) (unat (f_ino f))"
    using slot_link [OF assms(3)] assms(2) by (auto simp: link_def)
  then show "f_ino x \<noteq> f_ino f" using tree_okD(4) [OF assms(1)] x assms(5) by metis
qed

lemma dir_map_drop:
  assumes "\<forall>x \<in> set (A @ B). cname x \<noteq> cname f"
  shows "dir_map (A @ B) name = (if name = cname f then None else dir_map (A @ f # B) name)"
proof (cases "name = cname f")
  case True
  then have "\<forall>x \<in> set (A @ B). cname x \<noteq> name" using assms by simp
  then have "dir_map (A @ B) name = None" by (simp only: dir_map_None)
  then show ?thesis using True by simp
next
  case False
  then show ?thesis using dir_map_entry [of A f B name] by simp
qed

lemma dir_map_add:
  assumes "\<forall>x \<in> set (A @ B). cname x \<noteq> cname f"
  shows "dir_map (A @ f # B) name = (if name = cname f then Some (f_ino f) else dir_map (A @ B) name)"
  using dir_map_entry [of A f B name] assms by (auto simp: image_iff)

section \<open>Blocks\<close>

lemma first_data_block_pos: "0 < first_data_block q"
  by (simp add: first_data_block_def)

lemma geometryD: "geometry q' = geometry q \<Longrightarrow>
  nr_blocks q' = nr_blocks q \<and> nr_inodes q' = nr_inodes q \<and> first_data_block q' = first_data_block q"
  by (simp add: geometry_def first_data_block_def)

lemma owned_allocated: "\<lbrakk>blocks_ok s N; i \<in> N; b \<in> owned s i\<rbrakk> \<Longrightarrow> allocated (sbi s) b"
  using first_data_block_pos [of "sbi s"] unfolding blocks_ok_def allocated_def
  by (meson disjoint_iff le_less_trans less_le_trans zero_le)

lemma blocks_okD:
  assumes "blocks_ok s N"
  shows "\<lbrakk>i \<in> N; j \<in> N; i \<noteq> j; b \<in> owned s i\<rbrakk> \<Longrightarrow> b \<notin> owned s j"
    and "\<lbrakk>i \<in> N; b \<in> owned s i\<rbrakk> \<Longrightarrow> b \<notin> free_blocks (sbi s)"
    and "b \<in> free_blocks (sbi s) \<or> (\<exists>i \<in> N. b \<in> owned s i) \<longleftrightarrow> first_data_block (sbi s) \<le> b \<and> b < nr_blocks (sbi s)"
proof -
  show "b \<notin> owned s j" if "i \<in> N" "j \<in> N" "i \<noteq> j" "b \<in> owned s i"
    using assms that unfolding blocks_ok_def by (meson disjoint_iff)
  show "b \<notin> free_blocks (sbi s)" if "i \<in> N" "b \<in> owned s i"
    using assms that unfolding blocks_ok_def by (meson disjoint_iff)
  show "b \<in> free_blocks (sbi s) \<or> (\<exists>i \<in> N. b \<in> owned s i) \<longleftrightarrow> first_data_block (sbi s) \<le> b \<and> b < nr_blocks (sbi s)"
    using assms unfolding blocks_ok_def by blast
qed

lemma blocks_ok_update:
  assumes ok: "blocks_ok s N" and g: "geometry (sbi s') = geometry (sbi s)" and A: "A \<subseteq> N"
    and same: "\<And>j. j \<in> N - A \<Longrightarrow> owned s' j = owned s j"
    and ex: "\<And>b. b \<in> free_blocks (sbi s') \<or> (\<exists>i \<in> A'. b \<in> owned s' i) \<longleftrightarrow> b \<in> free_blocks (sbi s) \<or> (\<exists>i \<in> A. b \<in> owned s i)"
    and dj: "\<And>i. i \<in> A' \<Longrightarrow> owned s' i \<inter> free_blocks (sbi s') = {}"
      "\<And>i j. \<lbrakk>i \<in> A'; j \<in> A'; i \<noteq> j\<rbrakk> \<Longrightarrow> owned s' i \<inter> owned s' j = {}"
  shows "blocks_ok s' ((N - A) \<union> A')"
proof -
  note okD = blocks_okD [OF ok]
  have apart: "b \<notin> free_blocks (sbi s') \<and> (\<forall>i \<in> A'. b \<notin> owned s' i)" if "j \<in> N - A" "b \<in> owned s' j" for j b
  proof -
    have "b \<in> owned s j" using that same by simp
    then have "b \<notin> free_blocks (sbi s) \<and> (\<forall>i \<in> A. b \<notin> owned s i)"
      using okD(1) [of j] okD(2) [of j] that(1) A by blast
    then show ?thesis using ex [of b] by blast
  qed
  have "owned s' i \<inter> owned s' j = {}" if "i \<in> N - A \<union> A'" "j \<in> N - A \<union> A'" "i \<noteq> j" for i j
  proof (cases "i \<in> A'"; cases "j \<in> A'")
    assume "i \<notin> A'" "j \<notin> A'"
    then show ?thesis using that same [of i] same [of j] okD(1) [of i j] by auto
  qed (use that dj(2) apart in blast)+
  moreover have "owned s' i \<inter> free_blocks (sbi s') = {}" if "i \<in> N - A \<union> A'" for i using that dj(1) apart by blast
  moreover have "b \<in> free_blocks (sbi s') \<or> (\<exists>i \<in> N - A \<union> A'. b \<in> owned s' i) \<longleftrightarrow>
      first_data_block (sbi s') \<le> b \<and> b < nr_blocks (sbi s')" for b
  proof -
    have "(\<exists>i \<in> N - A \<union> A'. b \<in> owned s' i) \<longleftrightarrow> (\<exists>i \<in> N - A. b \<in> owned s i) \<or> (\<exists>i \<in> A'. b \<in> owned s' i)" using same by blast
    moreover have "(\<exists>i \<in> N. b \<in> owned s i) \<longleftrightarrow> (\<exists>i \<in> N - A. b \<in> owned s i) \<or> (\<exists>i \<in> A. b \<in> owned s i)" using A by blast
    ultimately show ?thesis using okD(3) ex [of b] geometryD [OF g] by metis
  qed
  ultimately show ?thesis unfolding blocks_ok_def by blast
qed

section \<open>Keeping a partition consistent\<close>

lemma represents_owned:
  assumes r: "represents s t" and i: "i \<in> nodes t" and b: "b \<in> owned s i"
  shows "allocated (sbi s) b" "b \<notin> free_blocks (sbi s)"
  using owned_allocated [OF representsD(7) [OF r] i b] by (simp_all add: allocated_def)

lemma dir_owned: "dir_shows s d m \<Longrightarrow> owned s d = {index_block (inodes s d)}"
  by (simp add: owned_def dir_shows_def)

lemma file_owned: "file_shows s i c \<Longrightarrow> owned s i = file_blocks s i"
  by (simp add: owned_def file_shows_def)

text \<open>The step from \<open>s\<close> to \<open>s'\<close> leads to the tree \<open>t'\<close> and does not touch the metadata blocks.\<close>

definition same_metadata :: "fs \<Rightarrow> fs \<Rightarrow> bool" where
  "same_metadata s s' \<longleftrightarrow> geometry (sbi s') = geometry (sbi s) \<and> (\<forall>b < first_data_block (sbi s). bufs s' b = bufs s b)"

definition leads_to :: "fs \<Rightarrow> fs \<Rightarrow> tree \<Rightarrow> bool" where
  "leads_to s s' t' \<longleftrightarrow> represents s' t' \<and> same_metadata s s'"

lemma same_metadata_refl: "same_metadata s s"
  by (simp add: same_metadata_def)

lemma same_metadata_trans: "\<lbrakk>same_metadata s t; same_metadata t u\<rbrakk> \<Longrightarrow> same_metadata s u"
  using geometryD [of "sbi t" "sbi s"] by (auto simp: same_metadata_def)

text \<open>
  The inodes \<open>A\<close> become the inodes \<open>A'\<close> (one of the two is empty unless a file changes in place), the
  entries of the directories \<open>D\<close> change, and blocks move between these inodes and the free blocks.
\<close>

definition changed_at :: "fs \<Rightarrow> tree \<Rightarrow> nat set \<Rightarrow> nat set \<Rightarrow> fs \<Rightarrow> bool" where
  "changed_at s t A D s' \<longleftrightarrow> A \<subseteq> nodes t \<and> D \<subseteq> dom (dirs t) - A \<and>
     (\<forall>j \<in> nodes t - A - D. inodes s' j = inodes s j) \<and>
     (\<forall>d \<in> D. index_block (inodes s' d) = index_block (inodes s d) \<and> i_mode (inodes s' d) = i_mode (inodes s d)) \<and>
     (\<forall>b. b \<notin> free_blocks (sbi s) \<longrightarrow> (\<forall>i \<in> A. b \<notin> owned s i) \<longrightarrow> (\<forall>d \<in> D. b \<noteq> index_block (inodes s d)) \<longrightarrow>
        bufs s' b = bufs s b)"

lemma unchanged_node:
  assumes r: "represents s t" and ch: "changed_at s t A D s'"
    and j: "j \<in> nodes t - A - D" and b: "b \<in> owned s j"
  shows "inodes s' j = inodes s j" "bufs s' b = bufs s b"
proof -
  note ok = blocks_okD [OF representsD(7) [OF r]]
  have "b \<notin> free_blocks (sbi s)" using ok(2) j b by blast
  moreover have "b \<notin> owned s i" if "i \<in> A" for i using ok(1) [of j i] j b that ch by (auto simp: changed_at_def)
  moreover have "b \<noteq> index_block (inodes s d)" if "d \<in> D" for d
  proof -
    have "d \<in> nodes t" using that ch by (auto simp: changed_at_def nodes_def)
    then show ?thesis using ok(1) [of j d] j b that owned_index [of s d] by auto
  qed
  ultimately show "bufs s' b = bufs s b" using ch by (auto simp: changed_at_def)
  show "inodes s' j = inodes s j" using j ch by (auto simp: changed_at_def)
qed

lemma unchanged_shows:
  assumes r: "represents s t" and ch: "changed_at s t A D s'" and j: "j \<in> nodes t - A - D"
    and al: "\<And>b. b \<in> owned s j \<Longrightarrow> allocated (sbi s') b"
  shows "dir_shows s j m \<Longrightarrow> dir_shows s' j m" "file_shows s j c \<Longrightarrow> file_shows s' j c"
    and "owned s' j = owned s j"
proof -
  note un = unchanged_node [OF r ch j]
  have ij: "inodes s' j = inodes s j" using un(1) owned_index .
  show "dir_shows s' j m" if "dir_shows s j m"
    using dir_shows_cong [OF that] ij un(2) owned_index [of s j] by simp
  have fu: "file_content s' j = file_content s j" "file_blocks s' j = file_blocks s j" "file_wf s' j"
    if f: "file_shows s j c" for c
  proof -
    have "bufs s' b = bufs s b \<and> allocated (sbi s') b" if "b \<in> file_blocks s j" for b
      using that un(2) al file_owned [OF f] by simp
    from file_unchanged [OF _ ij this] f
    show "file_content s' j = file_content s j" "file_blocks s' j = file_blocks s j" "file_wf s' j" by (simp_all add: file_shows_def)
  qed
  then show "file_shows s' j c" if "file_shows s j c" using that ij by (simp add: file_shows_def)
  show "owned s' j = owned s j"
  proof (cases "dirs t j")
    case None
    then obtain c where "files t j = Some c" using j by (auto simp: in_nodes)
    then have "file_shows s j c" by (rule representsD(6) [OF r])
    then show ?thesis using fu(2) ij by (simp add: owned_def)
  next
    case (Some m)
    then have "S_ISDIR (i_mode (inodes s j))" using representsD(5) [OF r] by (auto simp: dir_shows_def)
    then show ?thesis using ij by (simp add: owned_def)
  qed
qed

lemma represents_update:
  assumes r: "represents s t" and ch: "changed_at s t A D s'"
    and wf: "fs_wf s'" "inode_map_wf (sbi s')" "geometry (sbi s') = geometry (sbi s)" and t': "tree_ok t'" "nodes t' = nodes t - A \<union> A'"
    and blk: "\<And>b. b \<in> free_blocks (sbi s') \<or> (\<exists>i \<in> A'. b \<in> owned s' i) \<longleftrightarrow> b \<in> free_blocks (sbi s) \<or> (\<exists>i \<in> A. b \<in> owned s i)"
      "\<And>i. i \<in> A' \<Longrightarrow> owned s' i \<inter> free_blocks (sbi s') = {}" "\<And>i j. \<lbrakk>i \<in> A'; j \<in> A'; i \<noteq> j\<rbrakk> \<Longrightarrow> owned s' i \<inter> owned s' j = {}"
    and fi: "free_inodes (sbi s') = free_inodes (sbi s) \<union> A - A'" "A' \<subseteq> free_inodes (sbi s) \<union> A"
    and tt: "\<And>j. j \<in> nodes t - A - D \<Longrightarrow> dirs t' j = dirs t j \<and> files t' j = files t j"
      "\<And>d m. \<lbrakk>d \<in> D \<union> A'; dirs t' d = Some m\<rbrakk> \<Longrightarrow> dir_shows s' d m"
      "\<And>i c. \<lbrakk>i \<in> D \<union> A'; files t' i = Some c\<rbrakk> \<Longrightarrow> file_shows s' i c"
  shows "leads_to s s' t'"
proof -
  note rD = representsD [OF r] and ok = blocks_okD [OF representsD(7) [OF r]] and g = geometryD [OF wf(3)]
  have sub: "A \<subseteq> nodes t" "D \<subseteq> dom (dirs t)" using ch by (auto simp: changed_at_def)
  have al: "allocated (sbi s') b" if j: "j \<in> nodes t - A" "b \<in> owned s j" for j b
  proof -
    have "\<not> (\<exists>i \<in> A. b \<in> owned s i)" using ok(1) [of j _ b] j sub(1) by blast
    then have "b \<notin> free_blocks (sbi s')" using blk(1) [of b] represents_owned(2) [OF r] j by blast
    then show ?thesis using represents_owned(1) [OF r, of j b] j g by (simp add: allocated_def)
  qed
  have un: "dir_shows s j m \<Longrightarrow> dir_shows s' j m" "file_shows s j c \<Longrightarrow> file_shows s' j c" "owned s' j = owned s j"
    if "j \<in> nodes t - A - D" for j m c
    using unchanged_shows [OF r ch that] al that by blast+
  have same: "owned s' j = owned s j" if "j \<in> nodes t - A" for j
  proof (cases "j \<in> D")
    case True
    then have "S_ISDIR (i_mode (inodes s j))" using sub(2) rD(5) by (auto simp: dir_shows_def)
    then show ?thesis using True ch by (simp add: owned_def changed_at_def)
  qed (use that un(3) in blast)
  have "blocks_ok s' (nodes t')" unfolding t'(2) by (rule blocks_ok_update [OF rD(7) wf(3) sub(1) same blk])
  moreover have "nodes t' = used_inodes (sbi s')"
  proof -
    have "A' \<subseteq> {0<..<nr_inodes (sbi s)}" "A \<inter> free_inodes (sbi s) = {}"
      using fi(2) ialloc.avail_limit [OF rD(2)] sub(1) rD(4) by (auto simp: used_inodes_def subset_iff)
    then show ?thesis unfolding t'(2) using rD(4) fi(1) g by (auto simp: used_inodes_def)
  qed
  moreover have "dir_shows s' d m" if "dirs t' d = Some m" for d m
  proof (cases "d \<in> D \<union> A'")
    case False
    moreover have "d \<in> nodes t'" using that by (simp add: in_nodes)
    ultimately have d: "d \<in> nodes t - A - D" unfolding t'(2) by blast
    then have "dirs t d = Some m" using tt(1) that by simp
    then show ?thesis by (rule un(1) [OF d rD(5)])
  qed (use tt(2) that in blast)
  moreover have "file_shows s' i c" if "files t' i = Some c" for i c
  proof (cases "i \<in> D \<union> A'")
    case False
    moreover have "i \<in> nodes t'" using that by (simp add: in_nodes)
    ultimately have i: "i \<in> nodes t - A - D" unfolding t'(2) by blast
    then have "files t i = Some c" using tt(1) that by simp
    then show ?thesis by (rule un(2) [OF i rD(6)])
  qed (use tt(3) that in blast)
  ultimately have "represents s' t'" using wf t'(1) unfolding represents_def by blast
  moreover have "bufs s' b = bufs s b" if "b < first_data_block (sbi s)" for b
  proof -
    have b: "b \<notin> free_blocks (sbi s)" "\<And>i. i \<in> nodes t \<Longrightarrow> b \<notin> owned s i" using ok(3) [of b] that by auto
    have "d \<in> nodes t" if "d \<in> D" for d using that sub(2) by (auto simp: nodes_def)
    then have "\<forall>i \<in> A. b \<notin> owned s i" "\<forall>d \<in> D. b \<noteq> index_block (inodes s d)"
      using b(2) sub(1) owned_index [of s] by auto
    then show ?thesis using ch b(1) unfolding changed_at_def by blast
  qed
  ultimately show ?thesis using wf(3) by (simp add: leads_to_def same_metadata_def)
qed

text \<open>
  A state with the same allocation, the same data blocks and the same inodes (of a directory only the type
  and the index block count) represents the same tree, whatever its metadata blocks hold.
\<close>

lemma represents_cong:
  assumes r: "represents s t" and wf: "fs_wf s'" "inode_map_wf (sbi s')"
    and sb: "used_inodes (sbi s') = used_inodes (sbi s)" "free_blocks (sbi s') = free_blocks (sbi s)"
      "first_data_block (sbi s') = first_data_block (sbi s)" "nr_blocks (sbi s') = nr_blocks (sbi s)"
    and data: "\<And>b. first_data_block (sbi s) \<le> b \<Longrightarrow> bufs s' b = bufs s b"
    and I: "\<And>i c. files t i = Some c \<Longrightarrow> inodes s' i = inodes s i"
      "\<And>d m. dirs t d = Some m \<Longrightarrow> index_block (inodes s' d) = index_block (inodes s d) \<and>
         S_ISDIR (i_mode (inodes s' d)) = S_ISDIR (i_mode (inodes s d))"
  shows "represents s' t"
proof -
  note rD = representsD [OF r]
  have ob: "bufs s' b = bufs s b \<and> allocated (sbi s') b" if "i \<in> nodes t" "b \<in> owned s i" for i b
    using that blocks_okD(3) [OF rD(7), of b] data represents_owned(1) [OF r] sb(2,4) by (auto simp: allocated_def)
  have sd: "dir_shows s' d m" "owned s' d = owned s d" if m: "dirs t d = Some m" for d m
  proof -
    have "d \<in> nodes t" using m by (simp add: in_nodes)
    then show "dir_shows s' d m" using dir_shows_cong [OF rD(5) [OF m]] I(2) [OF m] ob owned_index [of s d] by blast
    from dir_owned [OF this] dir_owned [OF rD(5) [OF m]] I(2) [OF m] show "owned s' d = owned s d" by simp
  qed
  have sf: "file_shows s' i c" "owned s' i = owned s i" if c: "files t i = Some c" for i c
  proof -
    have i: "i \<in> nodes t" and sh: "file_shows s i c" using c rD(6) by (simp_all add: in_nodes)
    have "bufs s' b = bufs s b \<and> allocated (sbi s') b" if "b \<in> file_blocks s i" for b using ob [OF i] that file_owned [OF sh] by simp
    from file_unchanged [OF _ I(1) [OF c] this] sh I(1) [OF c]
    show "file_shows s' i c" "owned s' i = owned s i" by (simp_all add: file_shows_def owned_def)
  qed
  have same: "owned s' i = owned s i" if "i \<in> nodes t" for i using that sd(2) sf(2) by (auto simp: in_nodes)
  then have "blocks_ok s' (nodes t)" using rD(7) sb(2-4) unfolding blocks_ok_def by simp
  then show ?thesis using rD(3,4) sd(1) sf(1) wf sb(1) unfolding represents_def by simp
qed

end
