(* ===== verification/Mkfs.thy ===== *)
theory Mkfs
  imports Super
begin

text \<open>
  mkfs-ouichefs.c: the tool that lays out a partition. The device is the list of the blocks written so
  far, in order; what \<open>malloc\<close>, \<open>open\<close>, \<open>fstat\<close> and \<open>write\<close> answer is a parameter. The messages it
  prints are not modelled.
\<close>

section \<open>The tool\<close>

record mkfs_env =
  open_ok :: bool
  fstat_size :: "int option"
  malloc_ok :: "nat \<Rightarrow> bool"
  write_ok :: "nat \<Rightarrow> bool"

definition EXIT_FAILURE :: int where "EXIT_FAILURE = 1"

text \<open>One \<open>write\<close> of a whole block; a short write fails. The number of the call is the block number.\<close>

definition write_block :: "mkfs_env \<Rightarrow> byte list \<Rightarrow> byte list list \<Rightarrow> bool \<times> byte list list" where
  "write_block env b dev = (if write_ok env (length dev) then (True, dev @ [b]) else (False, dev))"

text \<open>The loops that write the same block \<open>n\<close> times.\<close>

fun write_blocks :: "mkfs_env \<Rightarrow> byte list \<Rightarrow> nat \<Rightarrow> byte list list \<Rightarrow> int \<times> byte list list" where
  "write_blocks env b 0 dev = (0, dev)"
| "write_blocks env b (Suc n) dev =
     (case write_block env b dev of
        (True, dev) \<Rightarrow> write_blocks env b n dev
      | (False, dev) \<Rightarrow> (-1, dev))"

text \<open>The numbers of the superblock; the bitmaps are not part of the structure on the disk.\<close>

definition superblock_sizes :: "int \<Rightarrow> sb_info" where
  "superblock_sizes st_size =
     (let nr_blocks = u32 (st_size div int OUICHEFS_BLOCK_SIZE);
          md = nr_blocks mod OUICHEFS_INODES_PER_BLOCK;
          nr_inodes = (if md \<noteq> 0 then u32 (int (nr_blocks + md)) else nr_blocks);
          nr_istore_blocks = idiv_ceil nr_inodes OUICHEFS_INODES_PER_BLOCK;
          nr_ifree_blocks = idiv_ceil nr_inodes (OUICHEFS_BLOCK_SIZE * 8);
          nr_bfree_blocks = idiv_ceil nr_blocks (OUICHEFS_BLOCK_SIZE * 8);
          nr_data_blocks = u32 (int nr_blocks - 1 - int nr_istore_blocks - int nr_ifree_blocks - int nr_bfree_blocks)
      in \<lparr>nr_blocks = nr_blocks, nr_inodes = nr_inodes, nr_istore_blocks = nr_istore_blocks,
          nr_ifree_blocks = nr_ifree_blocks, nr_bfree_blocks = nr_bfree_blocks,
          nr_free_inodes = u32 (int nr_inodes - 1), nr_free_blocks = u32 (int nr_data_blocks - 1),
          ifree_bitmap = [], bfree_bitmap = []\<rparr>)"

definition superblock_bytes :: "sb_info \<Rightarrow> byte list" where
  "superblock_bytes q =
     store_sb q (put_fields [(0, le32_bytes OUICHEFS_MAGIC)] (replicate OUICHEFS_BLOCK_SIZE 0))"

definition write_superblock :: "mkfs_env \<Rightarrow> int \<Rightarrow> byte list list \<Rightarrow> sb_info option \<times> byte list list" where
  "write_superblock env st_size dev =
     (if \<not> malloc_ok env 0 then (None, dev)
      else
        (let q = superblock_sizes st_size in
         case write_block env (superblock_bytes q) dev of
           (True, dev) \<Rightarrow> (Some q, dev)
         | (False, dev) \<Rightarrow> (None, dev)))"

text \<open>The root directory: inode 1, a directory of mode 0775, in the first data block.\<close>

definition root_inode :: "sb_info \<Rightarrow> ouichefs_inode" where
  "root_inode q =
     \<lparr>d_mode = 0x4000 OR 0x1FD, d_uid = 0, d_gid = 0, d_size = word_of_nat OUICHEFS_BLOCK_SIZE,
      d_ctime = 0, d_nctime = 0, d_atime = 0, d_natime = 0, d_mtime = 0, d_nmtime = 0, d_blocks = 1, d_nlink = 2,
      d_index_block = word_of_nat (u32 (int (1 + nr_bfree_blocks q + nr_ifree_blocks q + nr_istore_blocks q)))\<rparr>"

definition write_inode_store :: "mkfs_env \<Rightarrow> sb_info \<Rightarrow> byte list list \<Rightarrow> int \<times> byte list list" where
  "write_inode_store env q dev =
     (if \<not> malloc_ok env 1 then (-1, dev)
      else
        (case write_block env (store_dinode 80 (root_inode q) (replicate OUICHEFS_BLOCK_SIZE 0)) dev of
           (False, dev) \<Rightarrow> (-1, dev)
         | (True, dev) \<Rightarrow> write_blocks env (replicate OUICHEFS_BLOCK_SIZE 0) (nr_istore_blocks q - 1) dev))"

text \<open>An array of \<open>uint64_t\<close> in memory.\<close>

definition bytes_of_u64s :: "64 word list \<Rightarrow> byte list" where
  "bytes_of_u64s ws = concat (map le64_bytes ws)"

definition write_ifree_blocks :: "mkfs_env \<Rightarrow> sb_info \<Rightarrow> byte list list \<Rightarrow> int \<times> byte list list" where
  "write_ifree_blocks env q dev =
     (if \<not> malloc_ok env 2 then (-1, dev)
      else
        (let ifree = replicate 512 (-1) in
         case write_block env (bytes_of_u64s (ifree[0 := 0xfffffffffffffffc])) dev of
           (False, dev) \<Rightarrow> (-1, dev)
         | (True, dev) \<Rightarrow> write_blocks env (bytes_of_u64s (ifree[0 := 0xffffffffffffffff])) (nr_ifree_blocks q - 1) dev))"

text \<open>
  The loop over the bits of one 64-bit line (the mask is bit \<open>k\<close>, and 0 after bit 63), and the loop
  over the lines, which leaves the block when more bits are used than it has.
\<close>

function bfree_line :: "nat \<Rightarrow> 64 word \<Rightarrow> nat \<Rightarrow> 64 word \<times> nat" where
  "bfree_line k line nr_used =
     (if k < 64 then
        (let line = line AND NOT (push_bit k 1); nr_used = nr_used - 1 in
         if nr_used = 0 then (line, nr_used) else bfree_line (Suc k) line nr_used)
      else (line, nr_used))"
  by pat_completeness auto
termination
  by (relation "measure (\<lambda>(k, line, nr_used). 64 - k)") auto

declare bfree_line.simps [simp del]

lemma bfree_line_less: "snd (bfree_line k line n) \<le> n" "k < 64 \<Longrightarrow> 0 < n \<Longrightarrow> snd (bfree_line k line n) < n"
proof -
  show le: "snd (bfree_line k line n) \<le> n" for k line n
    by (induction k line n rule: bfree_line.induct) (subst bfree_line.simps, simp add: Let_def, force)
  show "snd (bfree_line k line n) < n" if "k < 64" "0 < n"
    using that le [of "Suc k" "line AND NOT (push_bit k 1)" "n - 1"]
    by (subst bfree_line.simps) (auto simp: Let_def)
qed

function bfree_loop :: "64 word list \<Rightarrow> nat \<Rightarrow> nat \<Rightarrow> 64 word list option" where
  "bfree_loop bfree i nr_used =
     (if nr_used \<noteq> 0 then
        (case bfree_line 0 (-1) nr_used of (line, rest) \<Rightarrow>
           case arr_set bfree (int i) line of
             None \<Rightarrow> None
           | Some bfree \<Rightarrow> bfree_loop bfree (Suc i) rest)
      else Some bfree)"
  by pat_completeness auto
termination
  by (relation "measure (\<lambda>(bfree, i, nr_used). nr_used)") (auto, metis bfree_line_less(2) snd_conv zero_less_numeral)

declare bfree_loop.simps [simp del]

definition write_bfree_blocks :: "mkfs_env \<Rightarrow> sb_info \<Rightarrow> byte list list \<Rightarrow> (int \<times> byte list list) option" where
  "write_bfree_blocks env q dev =
     (let nr_used = u32 (int (nr_istore_blocks q + nr_ifree_blocks q + nr_bfree_blocks q + 2)) in
      if \<not> malloc_ok env 3 then Some (-1, dev)
      else
        (case bfree_loop (replicate 512 (-1)) 0 nr_used of
           None \<Rightarrow> None
         | Some bfree \<Rightarrow>
             Some (case write_block env (bytes_of_u64s bfree) dev of
                     (False, dev) \<Rightarrow> (-1, dev)
                   | (True, dev) \<Rightarrow> write_blocks env (replicate OUICHEFS_BLOCK_SIZE 0xff) (nr_bfree_blocks q - 1) dev)))"

definition write_root_index_block :: "mkfs_env \<Rightarrow> byte list list \<Rightarrow> int \<times> byte list list" where
  "write_root_index_block env dev =
     (if \<not> malloc_ok env 4 then (-1, dev)
      else case write_block env (replicate OUICHEFS_BLOCK_SIZE 0) dev of
             (False, dev) \<Rightarrow> (-1, dev)
           | (True, dev) \<Rightarrow> (0, dev))"

text \<open>\<open>write_data_blocks\<close> writes nothing and returns 0.\<close>

definition write_data_blocks :: "byte list list \<Rightarrow> int \<times> byte list list" where
  "write_data_blocks dev = (0, dev)"

definition mkfs_main :: "mkfs_env \<Rightarrow> nat \<Rightarrow> string \<Rightarrow> (int \<times> byte list list) option" where
  "mkfs_main env argc arg1 =
     (if argc \<noteq> 2 \<or> (arg1 \<noteq> [] \<and> hd arg1 = CHR ''-'') then Some (EXIT_FAILURE, [])
      else if \<not> open_ok env then Some (EXIT_FAILURE, [])
      else case fstat_size env of
             None \<Rightarrow> Some (EXIT_FAILURE, [])
           | Some st_size \<Rightarrow>
               if st_size < 100 * int OUICHEFS_BLOCK_SIZE then Some (EXIT_FAILURE, [])
               else case write_superblock env st_size [] of
                      (None, dev) \<Rightarrow> Some (EXIT_FAILURE, dev)
                    | (Some q, dev) \<Rightarrow>
                        (case write_inode_store env q dev of (ret, dev) \<Rightarrow>
                         if ret \<noteq> 0 then Some (EXIT_FAILURE, dev)
                         else case write_ifree_blocks env q dev of (ret, dev) \<Rightarrow>
                         if ret \<noteq> 0 then Some (EXIT_FAILURE, dev)
                         else
                           do { (ret, dev) \<leftarrow> write_bfree_blocks env q dev;
                                if ret \<noteq> 0 then Some (EXIT_FAILURE, dev)
                                else case write_root_index_block env dev of (ret, dev) \<Rightarrow>
                                if ret \<noteq> 0 then Some (EXIT_FAILURE, dev)
                                else case write_data_blocks dev of (ret, dev) \<Rightarrow>
                                Some (if ret \<noteq> 0 then EXIT_FAILURE else ret, dev) }))"

section \<open>Bitmaps written as 64-bit words\<close>

lemma bit_le64_bytes: "\<lbrakk>k < 8; j < 8\<rbrakk> \<Longrightarrow> bit (le64_bytes w ! k) j = bit w (8 * k + j)"
proof -
  assume "k < 8" "j < 8"
  then have "k \<in> {0, 1, 2, 3, 4, 5, 6, 7}" by auto
  then show ?thesis using \<open>j < 8\<close>
    by (elim insertE emptyE) (simp_all add: le64_bytes_def le32_bytes_def bit_simps add.commute)
qed

lemma length_bytes_of_u64s [simp]: "length (bytes_of_u64s ws) = 8 * length ws"
  by (induction ws) (simp_all add: bytes_of_u64s_def)

lemma concat_nth_blocks:
  "\<lbrakk>\<forall>b \<in> set bs. length b = c; n < c * length bs\<rbrakk> \<Longrightarrow> concat bs ! n = bs ! (n div c) ! (n mod c)"
proof (induction bs arbitrary: n)
  case (Cons b bs)
  have c: "0 < c" using Cons.prems(2) by (cases c) auto
  show ?case
  proof (cases "n < c")
    case True
    then show ?thesis using Cons.prems(1) by (simp add: nth_append)
  next
    case False
    then obtain m where m: "n = m + c" by (metis add.commute le_add_diff_inverse linorder_not_less)
    then have "concat (b # bs) ! n = concat bs ! m" using Cons.prems(1) by (simp add: nth_append)
    moreover have "n div c = Suc (m div c)" "n mod c = m mod c" using m c by (simp_all add: div_add_self2)
    ultimately show ?thesis using Cons.IH [of m] Cons.prems m by simp
  qed
qed simp

lemma bytes_of_u64s_nth:
  "n < 8 * length ws \<Longrightarrow> bytes_of_u64s ws ! n = le64_bytes (ws ! (n div 8)) ! (n mod 8)"
  unfolding bytes_of_u64s_def using concat_nth_blocks [of "map le64_bytes ws" 8 n]
  by (auto simp: less_mult_imp_div_less mult.commute)

lemma test_bit_u64s:
  assumes "n < 64 * length ws"
  shows "test_bit (bytes_of_u64s ws) n = bit (ws ! (n div 64)) (n mod 64)"
proof -
  have "n div 8 < 8 * length ws" "(n div 8) div 8 = n div 64" "8 * (n div 8 mod 8) + n mod 8 = n mod 64"
    using assms by (auto simp: div_mult2_eq [of n 8 8, simplified, symmetric] mod_mult2_eq [of n 8 8, simplified])
  then show ?thesis using bit_le64_bytes [of "n div 8 mod 8" "n mod 8" "ws ! (n div 64)"]
    by (simp add: test_bit_def bytes_of_u64s_nth)
qed

lemma bfree_line_spec:
  assumes "0 < n"
  shows "snd (bfree_line k line n) = n - (64 - k) \<and>
    (\<forall>j < 64. bit (fst (bfree_line k line n)) j = (bit line j \<and> \<not> (k \<le> j \<and> j < k + n)))"
  using assms
proof (induction "64 - k" arbitrary: k line n)
  case 0
  then show ?case by (auto simp: bfree_line.simps [of k])
next
  case (Suc d)
  define l where "l = line AND NOT (push_bit k 1)"
  have k: "k < 64" "d = 64 - Suc k" using Suc.hyps(2) by auto
  have l: "bit l j = (bit line j \<and> j \<noteq> k)" if "j < 64" for j
    using that by (auto simp: l_def bit_simps)
  show ?case
  proof (cases "n = 1")
    case True
    then have "bfree_line k line n = (l, 0)" using k by (simp add: bfree_line.simps [of k] l_def Let_def)
    then show ?thesis using True l k by auto
  next
    case False
    then have "bfree_line k line n = bfree_line (Suc k) l (n - 1)"
      using k Suc.prems by (simp add: bfree_line.simps [of k line] l_def Let_def)
    then show ?thesis using Suc.hyps(1) [of "Suc k" "n - 1" l] k False Suc.prems l by auto
  qed
qed

lemma bfree_loop_spec:
  assumes "\<forall>k. i \<le> k \<and> k < length ws \<longrightarrow> ws ! k = -1" "i \<le> length ws"
  shows "if n \<le> 64 * (length ws - i)
    then \<exists>ws'. bfree_loop ws i n = Some ws' \<and> length ws' = length ws \<and> (\<forall>k < i. ws' ! k = ws ! k) \<and>
      (\<forall>k < length ws. i \<le> k \<longrightarrow> (\<forall>j < 64. bit (ws' ! k) j = (64 * i + n \<le> 64 * k + j)))
    else bfree_loop ws i n = None"
  using assms
proof (induction n arbitrary: i ws rule: less_induct)
  case (less n)
  show ?case
  proof (cases "n = 0")
    case True
    then show ?thesis using less.prems by (auto simp: bfree_loop.simps [of ws i 0])
  next
    case False
    obtain line rest where lr: "bfree_line 0 (-1) n = (line, rest)" by (cases "bfree_line 0 (-1) n")
    then have l: "rest = n - 64" "\<forall>j < 64. bit line j = (n \<le> j)"
      using bfree_line_spec [of n 0 "-1"] False by auto
    show ?thesis
    proof (cases "i < length ws")
      case False
      then have "bfree_loop ws i n = None" using lr \<open>n \<noteq> 0\<close> by (simp add: bfree_loop.simps [of ws i n] arr_set_def)
      then show ?thesis using False \<open>n \<noteq> 0\<close> by auto
    next
      case True
      define ws1 where "ws1 = ws[i := line]"
      have step: "bfree_loop ws i n = bfree_loop ws1 (Suc i) rest"
        using lr \<open>n \<noteq> 0\<close> True by (simp add: bfree_loop.simps [of ws i n] arr_set_int ws1_def)
      have pre: "\<forall>k. Suc i \<le> k \<and> k < length ws1 \<longrightarrow> ws1 ! k = -1" "Suc i \<le> length ws1"
        using less.prems(1) True by (simp_all add: ws1_def)
      have IH: "if rest \<le> 64 * (length ws1 - Suc i)
        then \<exists>ws'. bfree_loop ws1 (Suc i) rest = Some ws' \<and> length ws' = length ws1 \<and> (\<forall>k < Suc i. ws' ! k = ws1 ! k) \<and>
          (\<forall>k < length ws1. Suc i \<le> k \<longrightarrow> (\<forall>j < 64. bit (ws' ! k) j = (64 * Suc i + rest \<le> 64 * k + j)))
        else bfree_loop ws1 (Suc i) rest = None"
        using l(1) \<open>n \<noteq> 0\<close> by (intro less.IH pre) auto
      have c: "rest \<le> 64 * (length ws1 - Suc i) \<longleftrightarrow> n \<le> 64 * (length ws - i)"
        using l(1) True by (auto simp: ws1_def)
      show ?thesis
      proof (cases "n \<le> 64 * (length ws - i)")
        case True
        then obtain ws' where w: "bfree_loop ws1 (Suc i) rest = Some ws'" "length ws' = length ws1" "\<forall>k < Suc i. ws' ! k = ws1 ! k"
          "\<forall>k < length ws1. Suc i \<le> k \<longrightarrow> (\<forall>j < 64. bit (ws' ! k) j = (64 * Suc i + rest \<le> 64 * k + j))"
          using IH c by auto
        have "bit (ws' ! k) j = (64 * i + n \<le> 64 * k + j)" if "k < length ws" "i \<le> k" "j < 64" for k j
        proof (cases "k = i")
          case True
          then show ?thesis using w(3) that l(2) by (simp add: ws1_def)
        next
          case False
          then have "bit (ws' ! k) j = (64 * Suc i + rest \<le> 64 * k + j)" using w(4) that by (simp add: ws1_def)
          then show ?thesis using l(1) False that by auto
        qed
        moreover have "\<forall>k < i. ws' ! k = ws ! k" using w(3) by (simp add: ws1_def)
        ultimately show ?thesis using step w(1,2) True by (auto simp: ws1_def)
      next
        case False
        then show ?thesis using step IH c by simp
      qed
    qed
  qed
qed

section \<open>The sizes\<close>

text \<open>The metadata blocks and the root directory's block: what mkfs writes.\<close>

definition used_blocks :: "sb_info \<Rightarrow> nat" where
  "used_blocks q = nr_istore_blocks q + nr_ifree_blocks q + nr_bfree_blocks q + 2"

lemma used_blocks_bitmaps [simp]: "used_blocks (q\<lparr>ifree_bitmap := a, bfree_bitmap := b\<rparr>) = used_blocks q"
  by (simp add: used_blocks_def)

lemma superblock_sizes_facts:
  assumes "100 * 4096 \<le> st_size" "st_size < (2 ^ 19 + 1) * 4096"
  defines "q \<equiv> superblock_sizes st_size" and "n \<equiv> nat (st_size div 4096)"
  shows "nr_blocks q = n" "100 \<le> n" "n \<le> 2 ^ 19" "nr_inodes q = n + n mod 51"
    "1 \<le> nr_istore_blocks q" "1 \<le> nr_ifree_blocks q" "1 \<le> nr_bfree_blocks q"
    "nr_inodes q \<le> nr_ifree_blocks q * 32768" "n \<le> nr_bfree_blocks q * 32768" "used_blocks q \<le> n" "used_blocks q \<le> 32768"
    "nr_free_inodes q = n + n mod 51 - 1" "nr_free_blocks q = n - used_blocks q" "ifree_bitmap q = []" "bfree_bitmap q = []"
    "nr_inodes q \<le> 51 * nr_istore_blocks q"
proof -
  have st: "100 \<le> st_size div 4096" "st_size div 4096 \<le> 2 ^ 19" using assms(1,2) by auto
  then show n: "100 \<le> n" "n \<le> 2 ^ 19" by (auto simp: n_def)
  have un: "u32 (st_size div 4096) = n" using st by (simp add: n_def u32_id)
  define m where "m = n + n mod 51"
  have m: "m \<le> n + 50" "n \<le> m" "m < 2 ^ 32" using n mod_less_divisor [of 51 n] by (auto simp: m_def)
  have mi: "(if n mod 51 \<noteq> 0 then u32 (int (n + n mod 51)) else n) = m"
  proof -
    have "u32 (int m) = m" using m(3) by (simp add: u32_id)
    then show ?thesis unfolding m_def [symmetric] by (simp, simp add: m_def)
  qed
  define a b c where "a = idiv_ceil m 51" and "b = idiv_ceil m 32768" and "c = idiv_ceil n 32768"
  have n32: "n < 2 ^ 32" using n(2) by simp
  have cov: "m \<le> a * 51" "m \<le> b * 32768" "n \<le> c * 32768"
    unfolding a_def b_def c_def using idiv_ceil_covers [OF m(3)] idiv_ceil_covers [OF n32] by simp_all
  have le: "a \<le> n div 51 + 2" "b \<le> n div 32768 + 2" "c \<le> n div 32768 + 1"
  proof -
    have d: "n < 51 + 51 * (n div 51)" "n < 32768 + 32768 * (n div 32768)"
      by (rule dividend_less_times_div, simp)+
    show "a \<le> n div 51 + 2" unfolding a_def by (rule idiv_ceil_least [OF m(3)]) (use m(1) d(1) in \<open>simp_all add: algebra_simps\<close>)
    show "b \<le> n div 32768 + 2" unfolding b_def by (rule idiv_ceil_least [OF m(3)]) (use m(1) d(2) in \<open>simp_all add: algebra_simps\<close>)
    show "c \<le> n div 32768 + 1" unfolding c_def by (rule idiv_ceil_least [OF n32]) (use d(2) in \<open>simp_all add: algebra_simps\<close>)
  qed
  have pos: "1 \<le> a" "1 \<le> b" "1 \<le> c" using cov n(1) m(2) by (auto simp: Suc_le_eq intro!: gr0I)
  have used: "a + b + c + 2 \<le> n" "a + b + c + 2 \<le> 32768" 
  proof -
    have d: "51 * (n div 51) \<le> n" "32768 * (n div 32768) \<le> n" by simp_all
    have "n \<le> 524288" using n(2) by simp
    then have "n div 51 \<le> 10280" "n div 32768 \<le> 16" using d by linarith+
    then show "a + b + c + 2 \<le> 32768" using le by linarith
    show "a + b + c + 2 \<le> n" using le d n(1) by linarith
  qed
  have q: "q = \<lparr>nr_blocks = n, nr_inodes = m, nr_istore_blocks = a, nr_ifree_blocks = b, nr_bfree_blocks = c,
      nr_free_inodes = m - 1, nr_free_blocks = n - (a + b + c + 2), ifree_bitmap = [], bfree_bitmap = []\<rparr>"
  proof -
    have "u32 (int n - 1 - int a - int b - int c) = n - (1 + a + b + c)" using used n32 by (simp add: u32_id nat_diff_distrib)
    moreover have "u32 (int (n - (1 + a + b + c)) - 1) = n - (a + b + c + 2)" using used n32 by (simp add: u32_id)
    moreover have "u32 (int m - 1) = m - 1" using m n by (simp add: u32_id)
    ultimately show ?thesis
      unfolding q_def superblock_sizes_def OUICHEFS_BLOCK_SIZE_def inodes_per_block of_nat_numeral un Let_def mi
      by (simp add: a_def b_def c_def)
  qed
  show "nr_blocks q = n" "nr_inodes q = n + n mod 51" "1 \<le> nr_istore_blocks q" "1 \<le> nr_ifree_blocks q" "1 \<le> nr_bfree_blocks q"
    "nr_inodes q \<le> nr_ifree_blocks q * 32768" "n \<le> nr_bfree_blocks q * 32768" "used_blocks q \<le> n" "used_blocks q \<le> 32768"
    "nr_free_inodes q = n + n mod 51 - 1" "nr_free_blocks q = n - used_blocks q" "ifree_bitmap q = []" "bfree_bitmap q = []"
    "nr_inodes q \<le> 51 * nr_istore_blocks q"
    using pos cov used by (simp_all add: q used_blocks_def m_def)
qed

section \<open>The image\<close>

definition mkfs_ok :: "mkfs_env \<Rightarrow> int \<Rightarrow> bool" where
  "mkfs_ok env st_size \<longleftrightarrow> open_ok env \<and> fstat_size env = Some st_size \<and> (\<forall>k. malloc_ok env k) \<and> (\<forall>k. write_ok env k)"

lemma write_blocks_ok: "\<forall>k. write_ok env k \<Longrightarrow> write_blocks env b n dev = (0, dev @ replicate n b)"
  by (induction n arbitrary: dev) (simp_all add: write_block_def replicate_append_same [symmetric])

definition image :: "sb_info \<Rightarrow> 64 word list \<Rightarrow> byte list list" where
  "image q bfree =
     [superblock_bytes q, store_dinode 80 (root_inode q) (replicate 4096 0)] @
     replicate (nr_istore_blocks q - 1) (replicate 4096 0) @
     [bytes_of_u64s ((replicate 512 (-1))[0 := 0xfffffffffffffffc])] @
     replicate (nr_ifree_blocks q - 1) (bytes_of_u64s ((replicate 512 (-1))[0 := 0xffffffffffffffff])) @
     [bytes_of_u64s bfree] @ replicate (nr_bfree_blocks q - 1) (replicate 4096 0xff) @ [replicate 4096 0]"

lemma mkfs_image:
  assumes "mkfs_ok env st_size" "100 * 4096 \<le> st_size" "hd arg \<noteq> CHR ''-''"
  defines "q \<equiv> superblock_sizes st_size"
  shows "mkfs_main env 2 arg =
    map_option (\<lambda>bfree. (0, image q bfree)) (bfree_loop (replicate 512 (-1)) 0 (u32 (int (used_blocks q))))"
  using assms(1-3)
  by (auto simp: mkfs_main_def mkfs_ok_def write_superblock_def write_inode_store_def write_ifree_blocks_def
      write_bfree_blocks_def write_root_index_block_def write_data_blocks_def write_block_def write_blocks_ok
      OUICHEFS_BLOCK_SIZE_def Let_def image_def q_def used_blocks_def split: option.splits)

section \<open>Mounting the image\<close>

lemma chunk_concat:
  assumes "\<forall>b \<in> set bs. length b = 4096" "k < length bs"
  shows "chunk (concat bs) k = bs ! k"
proof (rule nth_equalityI)
  have l: "length (concat bs) = 4096 * length bs" using length_concat_blocks [OF assms(1)] .
  show len: "length (chunk (concat bs) k) = length (bs ! k)"
    using assms l nth_mem [OF assms(2)] by (auto simp: chunk_def)
  fix i assume "i < length (chunk (concat bs) k)"
  then have i: "i < 4096" "k * 4096 + i < 4096 * length bs" using l by (auto simp: chunk_def)
  then have "(k * 4096 + i) div 4096 = k" "(k * 4096 + i) mod 4096 = i" by auto
  then show "chunk (concat bs) k ! i = bs ! k ! i"
    using concat_nth_blocks [OF assms(1) i(2)] i l by (simp add: chunk_def)
qed

lemma read_bitmap_blocks:
  assumes "\<forall>b. bread_ok env b" "\<forall>b \<in> set bs. length b = 4096" "\<forall>k < length bs. bufs t (first + k) = bs ! k"
  shows "read_bitmap env first 0 (length bs) t = Some (concat bs)"
  using read_bitmap_spec [OF assms(1), of "length bs" t first 0 "concat bs"] chunk_concat [OF assms(2)]
    length_concat_blocks [OF assms(2)] assms(3) by simp

lemma test_bit_blocks:
  assumes "\<forall>b \<in> set bs. length b = 4096" "m < 32768 * length bs"
  shows "test_bit (concat bs) m = test_bit (bs ! (m div 32768)) (m mod 32768)"
proof -
  have "m div 8 < 4096 * length bs" "m div 8 div 4096 = m div 32768" "m mod 32768 div 8 = m div 8 mod 4096"
      "m mod 32768 mod 8 = m mod 8"
    using assms(2) by (auto simp: div_mult2_eq [of m 8 4096, simplified, symmetric] mod_mult2_eq [of m 8 4096, simplified])
  then show ?thesis using concat_nth_blocks [OF assms(1), of "m div 8"] by (simp add: test_bit_def)
qed

text \<open>A bitmap whose first block has the bits from \<open>n\<close> on, and whose other blocks are full.\<close>

lemma ones_bitmap:
  assumes "\<forall>m < 32768. test_bit b m = (n \<le> m)" "length b = 4096"
    and "\<forall>c \<in> set bs. length c = 4096 \<and> (\<forall>m < 32768. test_bit c m)" "n \<le> 32768" "l \<le> 32768 * Suc (length bs)"
  shows "ones (concat (b # bs)) l = {n..<l}"
proof -
  have "test_bit (concat (b # bs)) m = (n \<le> m)" if "m < l" for m
  proof -
    have "test_bit (concat (b # bs)) m = test_bit ((b # bs) ! (m div 32768)) (m mod 32768)"
      using assms that by (intro test_bit_blocks) auto
    also have "\<dots> = (n \<le> m)"
    proof (cases "m < 32768")
      case True
      then show ?thesis using assms(1) by simp
    next
      case False
      define k where "k = m div 32768 - 1"
      have k: "m div 32768 = Suc k" using False by (simp add: k_def)
      have "m div 32768 < Suc (length bs)" using that assms(5) by (simp add: less_mult_imp_div_less mult.commute)
      then have "bs ! k \<in> set bs" using k by simp
      then have "test_bit (bs ! k) (m mod 32768)" using assms(3) by simp
      then show ?thesis using k False assms(4) by simp
    qed
    finally show ?thesis .
  qed
  then show ?thesis by (auto simp: ones_def)
qed

lemma word_all_ones: "(0xffffffffffffffff :: 64 word) = -1" "(0xff :: byte) = -1"
  by simp_all

lemma first_ifree_line: "j < 64 \<Longrightarrow> bit (0xfffffffffffffffc :: 64 word) j = (2 \<le> j)"
proof -
  assume "j < 64"
  have "(0xfffffffffffffffc :: 64 word) = NOT (mask 2)" by (simp add: mask_eq_exp_minus_1)
  then show ?thesis using \<open>j < 64\<close> by (simp only: bit_simps) auto
qed

lemma ifree_first: "m < 32768 \<Longrightarrow> test_bit (bytes_of_u64s ((replicate 512 (-1))[0 := 0xfffffffffffffffc])) m = (2 \<le> m)"
proof -
  assume m: "m < 32768"
  have "test_bit (bytes_of_u64s ((replicate 512 (-1))[0 := 0xfffffffffffffffc])) m =
      bit ((replicate 512 (-1))[0 := (0xfffffffffffffffc :: 64 word)] ! (m div 64)) (m mod 64)"
    using m by (intro test_bit_u64s) simp
  also have "\<dots> = (2 \<le> m)"
  proof (cases "m < 64")
    case True
    then show ?thesis using first_ifree_line [of m] by simp
  next
    case False
    then have "m div 64 \<noteq> 0" "m div 64 < 512" using m by auto
    then show ?thesis using False by (simp add: bit_minus_1_iff)
  qed
  finally show ?thesis .
qed

lemma full_blocks:
  "m < 32768 \<Longrightarrow> test_bit (bytes_of_u64s ((replicate 512 (-1))[0 := 0xffffffffffffffff])) m"
  "m < 32768 \<Longrightarrow> test_bit (replicate 4096 0xff) m"
proof -
  assume m: "m < 32768"
  have r: "(replicate 512 (-1))[0 := (0xffffffffffffffff :: 64 word)] = replicate 512 (-1)"
    by (simp only: word_all_ones) (simp add: list_update_same_conv)
  have "m div 64 < 512" "m div 8 < 4096" using m by auto
  then show "test_bit (bytes_of_u64s ((replicate 512 (-1))[0 := 0xffffffffffffffff])) m" "test_bit (replicate 4096 0xff) m"
    unfolding r using m test_bit_u64s [of m "replicate 512 (-1)"]
    by (simp_all add: bit_minus_1_iff test_bit_def word_all_ones)
qed

lemma superblock_bytes_facts:
  assumes "sb_fits q" "ifree_bitmap q = []" "bfree_bitmap q = []"
  shows "length (superblock_bytes q) = 4096" "get32 (superblock_bytes q) 0 = OUICHEFS_MAGIC" "load_sb (superblock_bytes q) = q"
proof -
  define z where "z = put_fields [(0, le32_bytes OUICHEFS_MAGIC)] (replicate 4096 0)"
  have z: "length z = 4096" by (simp add: z_def)
  have "get32 z 0 = OUICHEFS_MAGIC"
    using get_put_fields(1) [of 0 4 "[(0, le32_bytes OUICHEFS_MAGIC)]" "replicate 4096 0" 0 OUICHEFS_MAGIC] by (simp add: z_def)
  moreover have "superblock_bytes q = store_sb q z" by (simp add: superblock_bytes_def z_def OUICHEFS_BLOCK_SIZE_def)
  ultimately show "length (superblock_bytes q) = 4096" "get32 (superblock_bytes q) 0 = OUICHEFS_MAGIC" "load_sb (superblock_bytes q) = q"
    using store_sb_facts [OF z, of q] assms by simp_all
qed

lemma image_blocks:
  assumes "1 \<le> nr_istore_blocks q" "1 \<le> nr_ifree_blocks q" "1 \<le> nr_bfree_blocks q" "length bfree = 512"
    and t: "\<forall>b < used_blocks q. bufs t b = image q bfree ! b"
  obtains ifs bfs where "length ifs = nr_ifree_blocks q - 1" "length bfs = nr_bfree_blocks q - 1"
    "\<forall>c \<in> set ifs. length c = 4096 \<and> (\<forall>m < 32768. test_bit c m)" "\<forall>c \<in> set bfs. length c = 4096 \<and> (\<forall>m < 32768. test_bit c m)"
    "length (image q bfree) = used_blocks q" "bufs t 0 = superblock_bytes q"
    "bufs t 1 = store_dinode 80 (root_inode q) (replicate 4096 0)" "bufs t (used_blocks q - 1) = replicate 4096 0"
    "\<forall>k < nr_ifree_blocks q. bufs t (nr_istore_blocks q + 1 + k) =
       (bytes_of_u64s ((replicate 512 (-1))[0 := 0xfffffffffffffffc]) # ifs) ! k"
    "\<forall>k < nr_bfree_blocks q. bufs t (nr_istore_blocks q + nr_ifree_blocks q + 1 + k) = (bytes_of_u64s bfree # bfs) ! k"
proof -
  define Z :: "byte list" where "Z = replicate 4096 0"
  define iss ifs bfs where "iss = store_dinode 80 (root_inode q) Z # replicate (nr_istore_blocks q - 1) Z"
    and "ifs = replicate (nr_ifree_blocks q - 1) (bytes_of_u64s ((replicate 512 (-1))[0 := 0xffffffffffffffff]))"
    and "bfs = replicate (nr_bfree_blocks q - 1) (replicate 4096 (0xff :: byte))"
  define i0 where "i0 = bytes_of_u64s ((replicate 512 (-1))[0 := (0xfffffffffffffffc :: 64 word)])"
  define b0 where "b0 = bytes_of_u64s bfree"
  have im: "image q bfree = superblock_bytes q # iss @ (i0 # ifs) @ (b0 # bfs) @ [Z]"
    by (simp add: image_def iss_def ifs_def bfs_def i0_def b0_def Z_def)
  have len: "length iss = nr_istore_blocks q" "length (i0 # ifs) = nr_ifree_blocks q" "length (b0 # bfs) = nr_bfree_blocks q"
    using assms(1-3) by (simp_all add: iss_def ifs_def bfs_def)
  have b: "bufs t b = (superblock_bytes q # iss @ (i0 # ifs) @ (b0 # bfs) @ [Z]) ! b" if "b < used_blocks q" for b
    using t that im by simp
  show thesis
  proof (rule that [of ifs bfs])
    show "length ifs = nr_ifree_blocks q - 1" "length bfs = nr_bfree_blocks q - 1" by (simp_all add: ifs_def bfs_def)
    show "\<forall>c \<in> set ifs. length c = 4096 \<and> (\<forall>m < 32768. test_bit c m)" "\<forall>c \<in> set bfs. length c = 4096 \<and> (\<forall>m < 32768. test_bit c m)"
      using full_blocks by (auto simp: ifs_def bfs_def)
    show "length (image q bfree) = used_blocks q" unfolding im using len by (simp add: used_blocks_def)
    show "bufs t 0 = superblock_bytes q" using b [of 0] by (simp add: used_blocks_def)
    show "bufs t 1 = store_dinode 80 (root_inode q) (replicate 4096 0)" using b [of 1] by (simp add: used_blocks_def iss_def Z_def)
    show "bufs t (used_blocks q - 1) = replicate 4096 0"
      using b [of "used_blocks q - 1"] len by (simp add: used_blocks_def nth_append nth_Cons' Z_def del: append_Cons)
    show "\<forall>k < nr_ifree_blocks q. bufs t (nr_istore_blocks q + 1 + k) =
       (bytes_of_u64s ((replicate 512 (-1))[0 := 0xfffffffffffffffc]) # ifs) ! k"
      unfolding i0_def [symmetric] using b len by (auto simp: used_blocks_def nth_append simp del: append_Cons)
    show "\<forall>k < nr_bfree_blocks q. bufs t (nr_istore_blocks q + nr_ifree_blocks q + 1 + k) = (bytes_of_u64s bfree # bfs) ! k"
      unfolding b0_def [symmetric] using b len by (auto simp: used_blocks_def nth_append simp del: append_Cons)
  qed
qed

text \<open>What the mount of a fresh partition of \<open>n\<close> blocks shows, when mkfs wrote the first \<open>u\<close> of them.\<close>

definition fresh_partition :: "kenv \<Rightarrow> nat \<Rightarrow> nat \<Rightarrow> fs \<Rightarrow> bool" where
  "fresh_partition kenv n u t \<longleftrightarrow>
     nr_blocks (sbi t) = n \<and> free_blocks (sbi t) = {u..<n} \<and> nr_free_blocks (sbi t) = n - u \<and> n \<le> bitmap_bits (bfree_bitmap (sbi t)) \<and>
     nr_inodes (sbi t) = n + n mod 51 \<and> free_inodes (sbi t) = {2..<n + n mod 51} \<and> nr_free_inodes (sbi t) = n + n mod 51 - 1 \<and>
     n + n mod 51 \<le> bitmap_bits (ifree_bitmap (sbi t)) \<and> used_blocks (sbi t) = u \<and>
     index_block (inodes t 1) = u - 1 \<and> i_size (inodes t 1) = 4096 \<and> i_blocks (inodes t 1) = 1 \<and>
     i_mode (inodes t 1) = snd (snd (init_owner kenv None 0x41FD)) \<and> bufs t (u - 1) = replicate 4096 0 \<and> mounted t"

lemma root_inode_mounted:
  assumes "used_blocks q < 2 ^ 32"
  shows "index_block (of_disk (root_inode q)) = used_blocks q - 1" "i_size (of_disk (root_inode q)) = 4096"
    "i_blocks (of_disk (root_inode q)) = 1" "i_mode (of_disk (root_inode q)) = 0x41FD"
proof -
  define v where "v = used_blocks q - 1"
  have v: "1 + nr_bfree_blocks q + nr_ifree_blocks q + nr_istore_blocks q = v" "v < 2 ^ 32"
    using assms by (simp_all add: v_def used_blocks_def)
  have "index_block (of_disk (root_inode q)) = v"
    unfolding of_disk_def root_inode_def v(1) using v(2) by (simp add: u32_id unat_u32)
  then show "index_block (of_disk (root_inode q)) = used_blocks q - 1" by (simp only: v_def)
qed (simp_all add: of_disk_def root_inode_def OUICHEFS_BLOCK_SIZE_def)

text \<open>The superblock and the two bitmaps that a mount reads from the image.\<close>

lemma image_bitmaps:
  assumes st: "100 * 4096 \<le> st_size" "st_size < (2 ^ 19 + 1) * 4096" and k: "\<forall>b. bread_ok kenv b"
  defines "q \<equiv> superblock_sizes st_size" and "n \<equiv> nat (st_size div 4096)"
  assumes bf: "length bfree = 512" "\<forall>k < 512. \<forall>j < 64. bit (bfree ! k) j = (used_blocks q \<le> 64 * k + j)"
    and t: "\<forall>b < used_blocks q. bufs t b = image q bfree ! b"
  obtains ifs bfs where "bufs t 0 = superblock_bytes q" "bufs t 1 = store_dinode 80 (root_inode q) (replicate 4096 0)"
    "bufs t (used_blocks q - 1) = replicate 4096 0"
    "read_bitmap kenv (nr_istore_blocks q + 1) 0 (nr_ifree_blocks q) t = Some ifs"
    "read_bitmap kenv (nr_istore_blocks q + nr_ifree_blocks q + 1) 0 (nr_bfree_blocks q) t = Some bfs"
    "ones ifs (nr_inodes q) = {2..<nr_inodes q}" "ones bfs (nr_blocks q) = {used_blocks q..<nr_blocks q}"
    "bitmap_bits ifs = 32768 * nr_ifree_blocks q" "bitmap_bits bfs = 32768 * nr_bfree_blocks q"
proof -
  define u where "u = used_blocks q"
  note f = superblock_sizes_facts [OF st, folded q_def n_def]
  have bb: "test_bit (bytes_of_u64s bfree) m = (u \<le> m)" if "m < 32768" for m
    using that test_bit_u64s [of m bfree] bf by (auto simp: less_mult_imp_div_less u_def)
  obtain ifs bfs where im: "length ifs = nr_ifree_blocks q - 1" "length bfs = nr_bfree_blocks q - 1"
    "\<forall>c \<in> set ifs. length c = 4096 \<and> (\<forall>m < 32768. test_bit c m)" "\<forall>c \<in> set bfs. length c = 4096 \<and> (\<forall>m < 32768. test_bit c m)"
    "bufs t 0 = superblock_bytes q" "bufs t 1 = store_dinode 80 (root_inode q) (replicate 4096 0)"
    "bufs t (u - 1) = replicate 4096 0"
    "\<forall>k < nr_ifree_blocks q. bufs t (nr_istore_blocks q + 1 + k) =
       (bytes_of_u64s ((replicate 512 (-1))[0 := 0xfffffffffffffffc]) # ifs) ! k"
    "\<forall>k < nr_bfree_blocks q. bufs t (nr_istore_blocks q + nr_ifree_blocks q + 1 + k) = (bytes_of_u64s bfree # bfs) ! k"
    by (rule image_blocks [OF f(5-7) bf(1) t, folded u_def]) (rule that, assumption+)
  define ib bb where "ib = bytes_of_u64s ((replicate 512 (-1))[0 := 0xfffffffffffffffc]) # ifs" and "bb = bytes_of_u64s bfree # bfs"
  have li: "length ib = nr_ifree_blocks q" "length bb = nr_bfree_blocks q" "\<forall>c \<in> set ib. length c = 4096" "\<forall>c \<in> set bb. length c = 4096"
    using im(1-4) f(6,7) bf(1) by (auto simp: ib_def bb_def)
  have rd: "read_bitmap kenv (nr_istore_blocks q + 1) 0 (nr_ifree_blocks q) t = Some (concat ib)"
    "read_bitmap kenv (nr_istore_blocks q + nr_ifree_blocks q + 1) 0 (nr_bfree_blocks q) t = Some (concat bb)"
    using read_bitmap_blocks [OF k li(3) im(8) [folded ib_def, folded li(1)]]
      read_bitmap_blocks [OF k li(4) im(9) [folded bb_def, folded li(2)]] unfolding li(1,2) .
  have fi: "ones (concat ib) (nr_inodes q) = {2..<nr_inodes q}"
    unfolding ib_def using ifree_first im(1,3) f(6,8) by (intro ones_bitmap) auto
  have fb: "ones (concat bb) (nr_blocks q) = {u..<nr_blocks q}"
    unfolding bb_def using \<open>\<And>m. m < 32768 \<Longrightarrow> test_bit (bytes_of_u64s bfree) m = (u \<le> m)\<close> im(2,4) f(1,7,9,11) bf(1)
    by (intro ones_bitmap) (auto simp: u_def)
  have "bitmap_bits (concat ib) = 32768 * nr_ifree_blocks q" "bitmap_bits (concat bb) = 32768 * nr_bfree_blocks q"
    using length_concat_blocks [OF li(3)] length_concat_blocks [OF li(4)] li by (simp_all add: bitmap_bits_def)
  from that [OF im(5,6) im(7) [unfolded u_def] rd fi fb [unfolded u_def] this] show thesis .
qed

lemma superblock_fits:
  assumes "100 * 4096 \<le> st_size" "st_size < (2 ^ 19 + 1) * 4096"
  shows "sb_fits (superblock_sizes st_size)"
proof -
  define q n where "q = superblock_sizes st_size" and "n = nat (st_size div 4096)"
  note f = superblock_sizes_facts [OF assms, folded q_def n_def]
  have "nr_inodes q < 2 ^ 32" using f(3,4) mod_less_divisor [of 51 n] by simp
  moreover from this have "nr_free_inodes q < 2 ^ 32" using f(4,12) by linarith
  moreover have "n < 2 ^ 32" using f(3) by simp
  ultimately show ?thesis using f(10,11,13) unfolding sb_fits_def used_blocks_def q_def [symmetric] f(1) by (intro conjI; linarith)
qed

lemma mkfs_block_sizes:
  assumes "mkfs_ok env st_size" "hd arg \<noteq> CHR ''-''" "100 * 4096 \<le> st_size" "st_size < (2 ^ 19 + 1) * 4096"
    and "mkfs_main env 2 arg = Some (0, dev)"
  shows "\<forall>b \<in> set dev. length b = 4096"
proof -
  define q where "q = superblock_sizes st_size"
  define u where "u = used_blocks q"
  note f = superblock_sizes_facts [OF assms(3,4), folded q_def]
  have u: "u \<le> 32768" "u32 (int u) = u" using f(11) by (simp_all add: u_def u32_id)
  from bfree_loop_spec [of 0 "replicate 512 (-1)" u] u(1) obtain bfree where
    bf: "bfree_loop (replicate 512 (-1)) 0 u = Some bfree" "length bfree = 512" by auto
  have "dev = image q bfree" using mkfs_image [OF assms(1,3,2)] assms(5) bf(1) u(2) by (simp add: q_def u_def)
  then show ?thesis
    using bf(2) superblock_bytes_facts(1) [OF superblock_fits [OF assms(3,4), folded q_def] f(14,15)] by (auto simp: image_def)
qed

lemma mkfs_mounts:
  assumes mk: "mkfs_ok env st_size" "hd arg \<noteq> CHR ''-''" and st: "100 * 4096 \<le> st_size" "st_size < (2 ^ 19 + 1) * 4096"
    and k: "mount_ok kenv"
  defines "n \<equiv> nat (st_size div 4096)"
  shows "\<exists>dev. mkfs_main env 2 arg = Some (0, dev) \<and> length dev \<le> n \<and> 2 < length dev \<and>
    (\<forall>t. (\<forall>b < length dev. bufs t b = dev ! b) \<longrightarrow>
      (\<exists>t'. ouichefs_fill_super kenv t = (0, t') \<and> bufs t' = bufs t \<and> fresh_partition kenv n (length dev) t'))"
proof -
  define q where "q = superblock_sizes st_size"
  note f = superblock_sizes_facts [OF st, folded q_def n_def]
  define u where "u = used_blocks q"
  have u32: "u < 2 ^ 32" using f(11) by (simp add: u_def)
  then have "u32 (int u) = u" by (simp add: u32_id)
  moreover from bfree_loop_spec [of 0 "replicate 512 (-1)" u] obtain bfree where bf:
    "bfree_loop (replicate 512 (-1)) 0 u = Some bfree" "length bfree = 512"
    "\<forall>k < 512. \<forall>j < 64. bit (bfree ! k) j = (u \<le> 64 * k + j)" using f(11) by (auto simp: u_def)
  ultimately have main: "mkfs_main env 2 arg = Some (0, image q bfree)"
    using mkfs_image [OF mk(1) st(1) mk(2)] by (simp add: q_def u_def)
  note sb = superblock_bytes_facts [OF superblock_fits [OF st, folded q_def] f(14,15)]
  have u0: "length (image q bfree) = u" using f(5-7) by (simp add: image_def u_def used_blocks_def)
  have "\<exists>t'. ouichefs_fill_super kenv t = (0, t') \<and> bufs t' = bufs t \<and> fresh_partition kenv n u t'"
    if t: "\<forall>b < u. bufs t b = image q bfree ! b" for t
  proof -
    have br: "\<forall>b. bread_ok kenv b" using k by (simp add: mount_ok_def)
    obtain ifs bfs where im: "bufs t 0 = superblock_bytes q" "bufs t 1 = store_dinode 80 (root_inode q) (replicate 4096 0)"
      "bufs t (u - 1) = replicate 4096 0" "read_bitmap kenv (nr_istore_blocks q + 1) 0 (nr_ifree_blocks q) t = Some ifs"
      "read_bitmap kenv (nr_istore_blocks q + nr_ifree_blocks q + 1) 0 (nr_bfree_blocks q) t = Some bfs"
      "ones ifs (nr_inodes q) = {2..<nr_inodes q}" "ones bfs (nr_blocks q) = {u..<nr_blocks q}"
      "bitmap_bits ifs = 32768 * nr_ifree_blocks q" "bitmap_bits bfs = 32768 * nr_bfree_blocks q"
      by (rule image_bitmaps [OF st br bf(2) bf(3) [unfolded u_def q_def] t [unfolded u_def q_def], folded q_def, folded u_def]) (rule that, assumption+)
    have ld: "load_dinode (bufs t 1) 80 = root_inode q" unfolding im(2) by (rule load_store_dinode) simp
    have iget: "inode_block 1 = 1" "inode_shift 1 = 80" by (simp_all add: inode_block_def inode_shift_def inodes_per_block u32_def)
    have "1 < nr_inodes q" using f(2,4) by simp
    moreover have "sb_shape (q\<lparr>ifree_bitmap := ifs, bfree_bitmap := bfs\<rparr>)"
      using im(8,9) superblock_fits [OF st, folded q_def] by (simp add: sb_shape_def sb_fits_def bitmap_bits_def)
    ultimately show ?thesis
      using im sb k ld iget root_inode_mounted [OF u32 [unfolded u_def]] f(1,4,8,9,12,13,16)
      by (simp add: ouichefs_fill_super_def ouichefs_iget_def mount_ok_def fresh_partition_def mounted_def free_inodes_def free_blocks_def u_def
          split: prod.split)
  qed
  then show ?thesis using main u0 f(10) f(5-7)
    by (intro exI [of _ "image q bfree"]) (simp add: u_def used_blocks_def)
qed

lemma fresh_maps:
  assumes "fresh_partition kenv n u t" "2 \<le> n" "n \<le> 2 ^ 19" "0 < u"
  shows "block_map_wf (sbi t)" "inode_map_wf (sbi t)"
proof -
  have n: "n < 2 ^ 32" "n + n mod 51 < 2 ^ 32" using assms(3) mod_less_divisor [of 51 n] by auto
  have "m - 1 = card {2..<m} + 1" if "2 \<le> m" for m :: nat using that by simp
  from this [of "n + n mod 51"] have c: "n + n mod 51 - 1 = card {2..<n + n mod 51} + 1" using assms(2) by linarith
  define q where "q = sbi t"
  have q: "nr_blocks q = n" "free_blocks q = {u..<n}" "nr_free_blocks q = n - u" "n \<le> bitmap_bits (bfree_bitmap q)"
    "nr_inodes q = n + n mod 51" "free_inodes q = {2..<n + n mod 51}" "nr_free_inodes q = n + n mod 51 - 1"
    "n + n mod 51 \<le> bitmap_bits (ifree_bitmap q)" using assms(1) by (simp_all add: fresh_partition_def q_def)
  have "block_map_wf q" unfolding block_map_wf_def q(1-3) using q(4) n(1) assms(4) by auto
  moreover have "inode_map_wf q" unfolding inode_map_wf_def q(5-7) using q(8) n(2) c by auto
  ultimately show "block_map_wf (sbi t)" "inode_map_wf (sbi t)" by (simp_all add: q_def)
qed

section \<open>Correctness\<close>

text \<open>
  C26: mkfs succeeds on every image of at least 100 blocks that the block numbers of the file system
  can address, and what it wrote can be mounted: the mount finds both bitmaps consistent with
  their counters (the inode counter up to the off-by-one of lemma \<open>mkfs_inode_count\<close>), exactly the written blocks in use, all inodes but 0 and 1 free, and the
  root directory, which is empty, in the last written block.
\<close>

theorem mkfs_then_mount:
  assumes "mkfs_ok env st_size" "hd arg \<noteq> CHR ''-''" "100 * 4096 \<le> st_size" "st_size < (2 ^ 19 + 1) * 4096" "mount_ok kenv"
  shows "\<exists>dev. mkfs_main env 2 arg = Some (0, dev) \<and>
    (\<forall>t. (\<forall>b < length dev. bufs t b = dev ! b) \<longrightarrow>
      (\<exists>t'. ouichefs_fill_super kenv t = (0, t') \<and> int (nr_blocks (sbi t')) = st_size div 4096 \<and>
        free_blocks (sbi t') = {length dev..<nr_blocks (sbi t')} \<and> block_map_wf (sbi t') \<and>
        free_inodes (sbi t') = {2..<nr_inodes (sbi t')} \<and> inode_map_wf (sbi t') \<and>
        index_block (inodes t' 1) = length dev - 1 \<and> bufs t' (index_block (inodes t' 1)) = replicate 4096 0))"
proof -
  define n where "n = nat (st_size div 4096)"
  note f = superblock_sizes_facts [OF assms(3,4), folded n_def]
  have nb: "int n = st_size div 4096" using assms(3) by (simp add: n_def)
  from mkfs_mounts [OF assms, folded n_def] obtain dev where dev: "mkfs_main env 2 arg = Some (0, dev)" "2 < length dev"
    "\<forall>t. (\<forall>b < length dev. bufs t b = dev ! b) \<longrightarrow>
      (\<exists>t'. ouichefs_fill_super kenv t = (0, t') \<and> bufs t' = bufs t \<and> fresh_partition kenv n (length dev) t')" by blast
  have "int (nr_blocks (sbi t')) = st_size div 4096 \<and> free_blocks (sbi t') = {length dev..<nr_blocks (sbi t')} \<and> block_map_wf (sbi t') \<and>
        free_inodes (sbi t') = {2..<nr_inodes (sbi t')} \<and> inode_map_wf (sbi t') \<and>
        index_block (inodes t' 1) = length dev - 1 \<and> bufs t' (index_block (inodes t' 1)) = replicate 4096 0"
    if "fresh_partition kenv n (length dev) t'" for t'
  proof -
    have "block_map_wf (sbi t')" "inode_map_wf (sbi t')"
      by (rule fresh_maps [OF that]; use f(2,3) dev(2) in linarith)+
    then show ?thesis using that by (simp add: fresh_partition_def nb)
  qed
  then show ?thesis using dev by (intro exI [of _ dev]) metis
qed

definition demo_mkfs :: "int \<Rightarrow> mkfs_env" where
  "demo_mkfs st_size = \<lparr>open_ok = True, fstat_size = Some st_size, malloc_ok = (\<lambda>_. True), write_ok = (\<lambda>_. True)\<rparr>"

definition demo_disk :: "byte list list \<Rightarrow> fs" where
  "demo_disk dev = demo_fs\<lparr>bufs := (\<lambda>b. if b < length dev then dev ! b else replicate 4096 0)\<rparr>"

lemma demo_mkfs_ok: "mkfs_ok (demo_mkfs st_size) st_size" "mount_ok demo_env"
  by (simp_all add: mkfs_ok_def demo_mkfs_def mount_ok_def demo_env_def)

theorem mkfs_then_mount_witness:
  "\<exists>dev t'. mkfs_main (demo_mkfs 409600) 2 ''disk'' = Some (0, dev) \<and> ouichefs_fill_super demo_env (demo_disk dev) = (0, t') \<and>
     nr_blocks (sbi t') = 100 \<and> free_blocks (sbi t') = {length dev..<100} \<and> block_map_wf (sbi t')"
proof -
  have pre: "hd ''disk'' \<noteq> CHR ''-''" "100 * 4096 \<le> (409600 :: int)" "(409600 :: int) < (2 ^ 19 + 1) * 4096" by simp_all
  from mkfs_then_mount [OF demo_mkfs_ok(1) pre demo_mkfs_ok(2)] obtain dev where
    "mkfs_main (demo_mkfs 409600) 2 ''disk'' = Some (0, dev)"
    "\<forall>t. (\<forall>b < length dev. bufs t b = dev ! b) \<longrightarrow>
      (\<exists>t'. ouichefs_fill_super demo_env t = (0, t') \<and> int (nr_blocks (sbi t')) = 409600 div 4096 \<and>
        free_blocks (sbi t') = {length dev..<nr_blocks (sbi t')} \<and> block_map_wf (sbi t'))" by blast
  moreover from this(2) have "\<exists>t'. ouichefs_fill_super demo_env (demo_disk dev) = (0, t') \<and> int (nr_blocks (sbi t')) = 409600 div 4096 \<and>
        free_blocks (sbi t') = {length dev..<nr_blocks (sbi t')} \<and> block_map_wf (sbi t')"
    by (rule allE [of _ "demo_disk dev"]) (simp add: demo_disk_def)
  ultimately show ?thesis by fastforce
qed

text \<open>
  The counter of free inodes that mkfs writes is one more than the number of inodes its bitmap
  marks as free, and this is what \<open>statfs\<close> reports of a fresh partition.
\<close>

theorem mkfs_inode_count:
  assumes "mkfs_ok env st_size" "hd arg \<noteq> CHR ''-''" "100 * 4096 \<le> st_size" "st_size < (2 ^ 19 + 1) * 4096" "mount_ok kenv"
  shows "\<exists>dev. mkfs_main env 2 arg = Some (0, dev) \<and>
    (\<forall>t. (\<forall>b < length dev. bufs t b = dev ! b) \<longrightarrow>
      (\<exists>t'. ouichefs_fill_super kenv t = (0, t') \<and> f_ffree (snd (ouichefs_statfs t')) = card (free_inodes (sbi t')) + 1 \<and>
        f_bfree (snd (ouichefs_statfs t')) = card (free_blocks (sbi t'))))"
proof -
  define n where "n = nat (st_size div 4096)"
  have "2 \<le> n + n mod 51" using superblock_sizes_facts(2) [OF assms(3,4)] by (simp add: n_def)
  moreover have "m - 1 = card {2..<m} + 1" if "2 \<le> m" for m :: nat using that by simp
  ultimately have "n + n mod 51 - 1 = card {2..<n + n mod 51} + 1" by blast
  then have c: "f_ffree (snd (ouichefs_statfs u)) = card (free_inodes (sbi u)) + 1 \<and>
      f_bfree (snd (ouichefs_statfs u)) = card (free_blocks (sbi u))" if "fresh_partition kenv n l u" for u l
    using that unfolding ouichefs_statfs_def fresh_partition_def by simp
  from mkfs_mounts [OF assms, folded n_def] c show ?thesis by metis
qed

theorem mkfs_inode_count_witness:
  "\<exists>dev t'. mkfs_main (demo_mkfs 409600) 2 ''disk'' = Some (0, dev) \<and> ouichefs_fill_super demo_env (demo_disk dev) = (0, t') \<and>
     f_ffree (snd (ouichefs_statfs t')) = card (free_inodes (sbi t')) + 1"
proof -
  have pre: "hd ''disk'' \<noteq> CHR ''-''" "100 * 4096 \<le> (409600 :: int)" "(409600 :: int) < (2 ^ 19 + 1) * 4096" by simp_all
  from mkfs_inode_count [OF demo_mkfs_ok(1) pre demo_mkfs_ok(2)] obtain dev where
    "mkfs_main (demo_mkfs 409600) 2 ''disk'' = Some (0, dev)"
    "\<forall>t. (\<forall>b < length dev. bufs t b = dev ! b) \<longrightarrow> (\<exists>t'. ouichefs_fill_super demo_env t = (0, t') \<and>
        f_ffree (snd (ouichefs_statfs t')) = card (free_inodes (sbi t')) + 1)" by blast
  moreover from this(2) have "\<exists>t'. ouichefs_fill_super demo_env (demo_disk dev) = (0, t') \<and>
        f_ffree (snd (ouichefs_statfs t')) = card (free_inodes (sbi t')) + 1"
    by (rule allE [of _ "demo_disk dev"]) (simp add: demo_disk_def)
  ultimately show ?thesis by blast
qed

text \<open>
  C27: On an image whose metadata takes more than the 32768 blocks that one bitmap block describes (from
  about 6 GiB on), mkfs writes past the end of the block in memory.
\<close>

theorem mkfs_bitmap_overrun:
  assumes "mkfs_ok env st_size" "hd arg \<noteq> CHR ''-''" "100 * 4096 \<le> st_size"
    and "32768 < used_blocks (superblock_sizes st_size)" "used_blocks (superblock_sizes st_size) < 2 ^ 32"
  shows "mkfs_main env 2 arg = None"
proof -
  let ?u = "used_blocks (superblock_sizes st_size)"
  have "u32 (int ?u) = ?u" using assms(5) by (simp add: u32_id)
  moreover have "bfree_loop (replicate 512 (-1)) 0 ?u = None"
    using bfree_loop_spec [of 0 "replicate 512 (-1)" ?u] assms(4) by auto
  ultimately show ?thesis using mkfs_image [OF assms(1,3,2)] by simp
qed

theorem mkfs_bitmap_overrun_witness: "mkfs_main (demo_mkfs 8192000000) 2 ''disk'' = None"
proof -
  have a: "u32 (8192000000 div 4096) = 2000000" by (simp add: u32_def)
  have b: "idiv_ceil 2000035 51 = 39217" "idiv_ceil 2000035 32768 = 62" "idiv_ceil 2000000 32768 = 62"
    by (simp_all add: idiv_ceil_def)
  have c: "(2000000 :: nat) mod 51 = 35" "u32 (int (2000000 + 35)) = 2000035" by (simp_all add: u32_def)
  have "used_blocks (superblock_sizes 8192000000) = 39343"
    unfolding used_blocks_def superblock_sizes_def Let_def OUICHEFS_BLOCK_SIZE_def inodes_per_block of_nat_numeral a c
    by (simp add: b)
  then show ?thesis using mkfs_bitmap_overrun [OF demo_mkfs_ok(1), of "''disk''" 8192000000] by simp
qed

end
