(* ===== verification/System.thy ===== *)
theory System
  imports Consistent Mkfs
begin

text \<open>
  The whole file system: every call the VFS makes on a consistent partition leaves it consistent and
  does to its tree what the specification of the call says, from the partition that mkfs wrote on.
\<close>

section \<open>Calls on files\<close>

text \<open>The kernel the calls run on: user memory and disk work, and a new inode keeps the type it is asked for.\<close>

definition sys_env :: "kenv \<Rightarrow> bool" where
  "sys_env env \<longleftrightarrow> env_ok env \<and> (\<forall>i. iget_locked env i \<noteq> None) \<and>
     (\<forall>d mode. snd (snd (init_owner env d mode)) AND 0xF000 = mode AND 0xF000)"

lemma sys_envD: "sys_env env \<Longrightarrow> env_ok env" "sys_env env \<Longrightarrow> \<forall>b. bread_ok env b"
  by (simp_all add: sys_env_def env_ok_def)

text \<open>The result \<open>res\<close> of a call on a partition with tree \<open>t\<close> is one that the specification allows.\<close>

definition call_ok :: "fs \<Rightarrow> tree \<Rightarrow> syscall \<Rightarrow> (int \<times> fs) option \<Rightarrow> bool" where
  "call_ok s t op res \<longleftrightarrow> (\<exists>r s' t'. res = Some (r, s') \<and> tree_step t op r t' \<and> leads_to s s' t')"

lemma call_refused: "\<lbrakk>represents s t; res = Some (r, s); r \<in> refusals op\<rbrakk> \<Longrightarrow> call_ok s t op res"
  unfolding call_ok_def leads_to_def by (blast intro: Tree_refused same_metadata_refl)

lemma call_done: "\<lbrakk>res = Some (r, s'); tree_step t op r t'; leads_to s s' t'\<rbrakk> \<Longrightarrow> call_ok s t op res"
  unfolding call_ok_def by blast

lemma represents_files:
  assumes r: "represents s t"
  shows "files_wf s (dom (files t))" "contents (dom (files t)) s = (\<lambda>i. case files t i of None \<Rightarrow> [] | Some c \<Rightarrow> c)"
proof -
  note rD = representsD [OF r]
  have sh: "file_shows s i (the (files t i))" if "i \<in> dom (files t)" for i using that rD(6) by auto
  have "file_blocks s i \<inter> file_blocks s j = {}" if "i \<in> dom (files t)" "j \<in> dom (files t)" "i \<noteq> j" for i j
    using blocks_okD(1) [OF rD(7), of i j] that file_owned [OF sh] by (auto simp: nodes_def)
  then show "files_wf s (dom (files t))" using rD(1) sh by (auto simp: files_wf_def file_shows_def)
  show "contents (dom (files t)) s = (\<lambda>i. case files t i of None \<Rightarrow> [] | Some c \<Rightarrow> c)"
    using sh by (force simp: contents_def file_shows_def split: option.split)
qed

lemma file_frame_frame:
  assumes "file_frame s i s'"
  shows "geometry (sbi s') = geometry (sbi s)" "inode_map_wf (sbi s') = inode_map_wf (sbi s)" "free_inodes (sbi s') = free_inodes (sbi s)"
proof -
  define q where "q = sbi s'"
  have "blocks_change (sbi s) q" using assms by (simp add: file_frame_def q_def)
  then have "geometry q = geometry (sbi s) \<and> inode_map_wf q = inode_map_wf (sbi s) \<and> free_inodes q = free_inodes (sbi s)"
    by (cases "sbi s", cases q) (simp add: blocks_change_def geometry_def inode_map_wf_def free_inodes_def)
  then show "geometry (sbi s') = geometry (sbi s)" "inode_map_wf (sbi s') = inode_map_wf (sbi s)" "free_inodes (sbi s') = free_inodes (sbi s)"
    by (simp_all add: q_def)
qed

lemma file_represents:
  assumes r: "represents s t" and i: "files t i = Some c" and ff: "file_frame s i s'" and wf: "fs_wf s'" "file_wf s' i"
  shows "leads_to s s' (put_file i (file_content s' i) t)"
proof -
  note rD = representsD [OF r] and fr = file_frame_frame [OF ff]
  have sh: "file_shows s i c" using rD(6) i .
  then have sh': "file_shows s' i (file_content s' i)" using ff wf(2) by (simp add: file_shows_def file_frame_def)
  note o = file_owned [OF sh] file_owned [OF sh']
  have n: "i \<in> nodes t" using i by (simp add: in_nodes)
  have dn: "dirs t i = None" using tree_okD(2) [OF rD(3), of i] i by simp
  show ?thesis
  proof (rule represents_update [OF r, of "{i}" "{}" s' _ "{i}"])
    show "changed_at s t {i} {} s'" using ff n o by (auto simp: changed_at_def file_frame_def)
    show "tree_ok (put_file i (file_content s' i) t)" using tree_ok_put_file [OF rD(3)] i by blast
    show "nodes (put_file i (file_content s' i) t) = nodes t - {i} \<union> {i}" using n by (auto simp: put_file_def nodes_def)
    show "(b \<in> free_blocks (sbi s') \<or> (\<exists>i \<in> {i}. b \<in> owned s' i)) = (b \<in> free_blocks (sbi s) \<or> (\<exists>i \<in> {i}. b \<in> owned s i))" for b
      using ff o by (auto simp: file_frame_def)
    show "free_inodes (sbi s') = free_inodes (sbi s) \<union> {i} - {i}" using fr(3) n rD(4) by (auto simp: used_inodes_def)
    show "owned s' j \<inter> free_blocks (sbi s') = {}" if "j \<in> {i}" for j
      using that o(2) wf(2) by (auto simp: file_wf_def Let_def allocated_def)
  qed (use wf fr rD(2) sh' dn in \<open>auto simp: put_file_def\<close>)
qed

lemma write_represents:
  assumes env: "sys_env env" and r: "represents s t" and v: "vfs_call t (File_call (Write f buff pos))"
    and step: "fs_step env s (Write f buff pos) ret s'"
  shows "\<exists>t'. tree_step t (File_call (Write f buff pos)) ret t' \<and> leads_to s s' t'"
proof -
  let ?i = "f_inode f"
  have v': "valid_call (dom (files t)) (Write f buff pos)" using v by simp
  then obtain c where c: "files t ?i = Some c" by auto
  note fw = represents_files [OF r]
  obtain pos' where call: "ouichefs_light_write env f buff (length buff) pos s = Some (ret, pos', s')"
    using step by (rule fs_step_writeE)
  from write_outcome [OF fw(1) v' sys_envD(1) [OF env]] call
  have o: "outcome (dom (files t)) ?i (nat (write_pos f pos s)) buff s (Some (ret, pos', s'))" by (simp split: if_splits)
  then have w: "write_spec (file_content s ?i) (nat (write_pos f pos s)) buff ret (file_content s' ?i)" "files_wf s' (dom (files t))"
    "file_frame s ?i s'" by (auto simp: outcome_def)
  have cc: "file_content s ?i = c" using representsD(6) [OF r c] by (simp add: file_shows_def)
  have wp: "nat (write_pos f pos s) = (if f_flags f AND O_APPEND \<noteq> 0 then length c else nat pos)"
    using write_pos_contents [OF fw(1), of f pos] v' c fw(2) by simp
  have "fs_wf s'" "file_wf s' ?i" using w(2) c by (auto simp: files_wf_def)
  from file_represents [OF r c w(3) this] show ?thesis using Tree_write [OF c, of pos buff ret] w(1) cc wp by auto
qed

lemma put_same_file: "files t i = Some c \<Longrightarrow> put_file i c t = t"
  by (simp add: put_file_def fun_upd_idem)

lemma defrag_represents:
  assumes env: "sys_env env" and r: "represents s t" and v: "f_inode f \<in> dom (files t)"
  shows "\<exists>s'. ouichefs_defrag env f s = Some (0, s') \<and> leads_to s s' t"
proof -
  obtain c where c: "files t (f_inode f) = Some c" using v by auto
  note fw = represents_files [OF r]
  from defrag_done [OF fw(1) v refl env_okD [OF sys_envD(1) [OF env]]] obtain s' where s': "ouichefs_defrag env f s = Some (0, s')"
    "file_content s' (f_inode f) = file_content s (f_inode f)" "files_wf s' (dom (files t))" "file_frame s (f_inode f) s'" by blast
  have "file_content s (f_inode f) = c" using representsD(6) [OF r c] by (simp add: file_shows_def)
  then have "leads_to s s' t"
    using file_represents [OF r c s'(4)] s'(2,3) v put_same_file [OF c] by (auto simp: files_wf_def)
  then show ?thesis using s'(1) by blast
qed

section \<open>Creation\<close>

lemma new_name:
  assumes "length name \<le> 27" "0 \<notin> set name"
  shows "cname \<lparr>f_ino = w, f_name = strscpy (replicate 28 0) name\<rparr> = name"
  using strscpy_cname(2) [OF _ assms] by simp

lemma dir_names_None:
  "dir_shows s d m \<Longrightarrow> m name = None \<longleftrightarrow> (\<forall>x \<in> set (slots s d). cname x \<noteq> name)"
  by (simp add: dir_shows_def dir_names_def dir_map_None)

text \<open>A directory with one more entry.\<close>

lemma dir_shows_add:
  assumes sh: "dir_shows s d m" and m: "m (cname e) = None" "cname e \<noteq> []" "unat (f_ino e) = i"
    and s': "i_mode (inodes s' d) = i_mode (inodes s d)" "dir_wf (load_dir s' (index_block (inodes s' d))) (slots s d @ [e])"
  shows "dir_shows s' d (m(cname e \<mapsto> i))"
proof (rule dir_showsI [OF _ s'(2)])
  have no: "\<forall>x \<in> set (slots s d @ []). cname x \<noteq> cname e" using m(1) dir_names_None [OF sh] by simp
  show "(m(cname e \<mapsto> i)) name = map_option unat (dir_map (slots s d @ [e]) name)" for name
    using dir_map_add [OF no, of name] m(3) sh by (auto simp: dir_shows_def dir_names_def)
  show "distinct (map cname (slots s d @ [e]))" using sh no by (auto simp: dir_shows_def)
qed (use sh m(2) s'(1) in \<open>auto simp: dir_shows_def\<close>)

text \<open>A file or directory that has just been created.\<close>

lemma new_node_shows:
  assumes wf: "fs_wf s'" and al: "allocated (sbi s') (index_block (inodes s' i))" and z: "bufs s' (index_block (inodes s' i)) = replicate 4096 0"
    and I: "i_blocks (inodes s' i) = 1"
  shows "\<lbrakk>i_size (inodes s' i) = 0; \<not> S_ISDIR (i_mode (inodes s' i))\<rbrakk> \<Longrightarrow> file_shows s' i []"
    and "S_ISDIR (i_mode (inodes s' i)) \<Longrightarrow> dir_shows s' i Map.empty"
    and "owned s' i = {index_block (inodes s' i)}"
proof -
  define ib where "ib = index_block (inodes s' i)"
  have li: "load_index s' ib = replicate 1024 0"
    using z u32s_of_zeros [of 1024] by (simp add: load_index_def ib_def)
  have de: "data_entries s' i = []" using I by (simp add: data_entries_def)
  show "file_shows s' i []" if "i_size (inodes s' i) = 0" "\<not> S_ISDIR (i_mode (inodes s' i))"
    using that al I li de by (simp add: file_shows_def file_wf_def Let_def index_wf_def file_blocks_def file_content_def ib_def)
  show "owned s' i = {index_block (inodes s' i)}" using de by (simp add: owned_def file_blocks_def)
  show "dir_shows s' i Map.empty" if "S_ISDIR (i_mode (inodes s' i))"
  proof (rule dir_showsI [OF that])
    show "dir_wf (load_dir s' (index_block (inodes s' i))) []" using z dir_decode_zeros [of 128] by (simp add: dir_wf_def load_dir_def del: dir_decode.simps)
  qed (simp_all add: dir_map_def)
qed

lemma create_represents:
  assumes env: "sys_env env" and r: "represents s t" and d: "dirs t d = Some m" "m name = None"
    and name: "name_ok name" and mode: "S_ISDIR mode \<or> S_ISREG mode"
  shows "(\<exists>e \<in> {ENAMETOOLONG, EMLINK, ENOSPC}. ouichefs_create env d name mode s = Some (- e, s)) \<or>
    (\<exists>i s'. ouichefs_create env d name mode s = Some (0, s') \<and> i \<notin> nodes t \<and>
       leads_to s s' (add_name d name i (if S_ISDIR mode then put_dir i t else put_file i [] t)))"
proof (cases "28 < length name \<or> length (slots s d) = 128 \<or> free_inodes (sbi s) = {} \<or> nr_free_blocks (sbi s) = 0")
  case True
  have "dir_wf (load_dir s (index_block (inodes s d))) (slots s d)" using representsD(5) [OF r d(1)] by (simp add: dir_shows_def)
  from create_refused [OF representsD(1,2) [OF r] sys_envD(2) [OF env] mode this True] show ?thesis ..
next
  case False
  note rD = representsD [OF r]
  have sh: "dir_shows s d m" using rD(5) d(1) .
  then have dw: "dir_wf (load_dir s (index_block (inodes s d))) (slots s d)" by (simp add: dir_shows_def)
  have dn: "d \<in> nodes t" using d(1) by (simp add: in_nodes)
  have len: "length (slots s d) < 128" "length name \<le> 28" "length name \<le> 27" using False dw name by (auto simp: dir_wf_def name_ok_def)
  have dd: "index_block (inodes s d) \<notin> free_blocks (sbi s)" using represents_owned(2) [OF r dn owned_index] .
  have cc: "can_create env d mode s"
    using False rD(1,2,4) env mode dn dd by (auto simp: can_create_def sys_env_def env_ok_def used_inodes_def)
  from create_spec [OF cc dw len(1,2)] obtain i s' where c: "ouichefs_create env d name mode s = Some (0, s')"
    "i \<in> free_inodes (sbi s)" "free_inodes (sbi s') = free_inodes (sbi s) - {i}" "index_block (inodes s' i) \<in> free_blocks (sbi s)"
    "free_blocks (sbi s') = free_blocks (sbi s) - {index_block (inodes s' i)}" "bufs s' (index_block (inodes s' i)) = replicate 4096 0"
    "i_blocks (inodes s' i) = 1" "i_size (inodes s' i) = (if S_ISDIR mode then 4096 else 0)" "inode_map_wf (sbi s')" "fs_wf s'"
    "index_block (inodes s' d) = index_block (inodes s d)" "i_mode (inodes s' i) = snd (snd (init_owner env (Some d) mode))"
    and fr: "dir_frame s {d} {i} {index_block (inodes s d), index_block (inodes s' i)} s'"
    and dw': "dir_wf (load_dir s' (index_block (inodes s d))) (slots s d @ [\<lparr>f_ino = word_of_nat i, f_name = strscpy (replicate 28 0) name\<rparr>])"
    by blast
  let ?u = "if S_ISDIR mode then put_dir i t else put_file i [] t"
  let ?t' = "add_name d name i ?u"
  have i: "i \<notin> nodes t" "i \<noteq> d" using c(2) rD(4) dn by (auto simp: used_inodes_def)
  have i32: "unat (word_of_nat i :: u32_word) = i"
    using ialloc.avail_limit [OF rD(2)] c(2) rD(2) by (intro unat_u32) (auto simp: inode_map_wf_def)
  have md: "S_ISDIR (i_mode (inodes s' i)) = S_ISDIR mode" using c(12) env by (simp add: sys_env_def S_ISDIR_def)
  have g: "geometry (sbi s') = geometry (sbi s)" and dm: "i_mode (inodes s' d) = i_mode (inodes s d)" using fr by (simp_all add: dir_frame_def)
  have al: "allocated (sbi s') (index_block (inodes s' i))"
    using c(4,5) geometryD [OF g] balloc.avail_limit [of "sbi s"] rD(1) by (auto simp: allocated_def fs_wf_def)
  note new = new_node_shows [OF c(10) al c(6,7)]
  have nm: "0 \<notin> set name" "name \<noteq> []" using name by (simp_all add: name_ok_def)
  have shd: "dir_shows s' d (m(name \<mapsto> i))"
    using dir_shows_add [OF sh, of "\<lparr>f_ino = word_of_nat i, f_name = strscpy (replicate 28 0) name\<rparr>" i s'] new_name [OF len(3) nm(1)] d(2) nm(2) i32 dm dw' c(11)
    by simp
  have td: "dirs ?t' d = Some (m(name \<mapsto> i))" "files ?t' d = None" "dirs ?t' i = (if S_ISDIR mode then Some Map.empty else None)"
      "files ?t' i = (if S_ISDIR mode then None else Some [])" "\<And>j. j \<noteq> i \<Longrightarrow> j \<noteq> d \<Longrightarrow> dirs ?t' j = dirs t j \<and> files ?t' j = files t j"
    using d(1) i tree_okD(2) [OF rD(3), of d] by (auto simp: tree_ops in_nodes)
  have "leads_to s s' ?t'"
  proof (rule represents_update [OF r, of "{}" "{d}" s' _ "{i}"])
    show "changed_at s t {} {d} s'" using fr d(1) i(1) c(4) by (auto simp: changed_at_def dir_frame_def)
    show "tree_ok ?t'" by (rule tree_ok_new [OF rD(3) d i(1)]) auto
    show "nodes ?t' = nodes t - {} \<union> {i}" using td d(1) by (auto simp: in_nodes set_eq_iff) (metis option.distinct(1))+
    show "(b \<in> free_blocks (sbi s') \<or> (\<exists>i \<in> {i}. b \<in> owned s' i)) = (b \<in> free_blocks (sbi s) \<or> (\<exists>i \<in> {}. b \<in> owned s i))" for b
      using c(4,5) new(3) by auto
    show "dir_shows s' e k" if "e \<in> {d} \<union> {i}" "dirs ?t' e = Some k" for e k
      using that td shd new(2) md by (auto split: if_splits)
    show "file_shows s' e k" if "e \<in> {d} \<union> {i}" "files ?t' e = Some k" for e k
      using that td new(1) md c(8) by (auto split: if_splits)
    show "dirs ?t' j = dirs t j \<and> files ?t' j = files t j" if "j \<in> nodes t - {} - {d}" for j
      using that i(1) by (intro td(5)) auto
  qed (use c g new(3) in auto)
  then show ?thesis using c(1) i(1) by blast
qed

section \<open>Removal\<close>

text \<open>A directory with one entry less.\<close>

lemma dir_shows_drop:
  assumes sh: "dir_shows s d m" and us: "slots s d = A @ f # B" "\<forall>x \<in> set (A @ B). cname x \<noteq> cname f"
    and s': "i_mode (inodes s' d) = i_mode (inodes s d)" "dir_wf (load_dir s' (index_block (inodes s' d))) (A @ B)"
  shows "dir_shows s' d (m(cname f := None))"
proof (rule dir_showsI [OF _ s'(2)])
  show "(m(cname f := None)) name = map_option unat (dir_map (A @ B) name)" for name
    using dir_map_drop [OF us(2), of name] us(1) sh by (auto simp: dir_shows_def dir_names_def)
qed (use sh us(1) s'(1) in \<open>auto simp: dir_shows_def\<close>)

text \<open>The node that a name leads to.\<close>

lemma linked_node:
  assumes r: "represents s t" and l: "link t d name i"
  shows "i \<in> nodes t" "i \<in> used_inodes (sbi s)" "unat (word_of_nat i :: u32_word) = i" "d \<in> nodes t"
proof -
  show "i \<in> nodes t" "i \<in> used_inodes (sbi s)"
    using tree_okD(3) [OF representsD(3) [OF r] l] representsD(4) [OF r] by simp_all
  then show "unat (word_of_nat i :: u32_word) = i"
    using representsD(2) [OF r] by (intro unat_u32) (auto simp: used_inodes_def inode_map_wf_def)
  show "d \<in> nodes t" using l by (auto simp: link_def in_nodes)
qed

lemma unlink_represents:
  assumes env: "sys_env env" and r: "represents s t" and l: "link t d name i" "d \<noteq> i"
    and e: "dirs t i = None \<or> dirs t i = Some Map.empty"
  shows "\<exists>s'. ouichefs_unlink env d i s = Some (0, s') \<and> leads_to s s' (drop_name d name (del_node i t))"
proof -
  note rD = representsD [OF r] and n = linked_node [OF r l(1)]
  obtain m where m: "dirs t d = Some m" "m name = Some i" using l(1) by (auto simp: link_def)
  have sh: "dir_shows s d m" using rD(5) m(1) .
  from dir_entry [OF sh m(2)] obtain A f B where us: "slots s d = A @ f # B" "cname f = name" "f_ino f = word_of_nat i"
    "\<forall>x \<in> set (A @ B). cname x \<noteq> name" .
  have other: "\<forall>x \<in> set (A @ B). f_ino x \<noteq> word_of_nat i"
    using entry_only [OF rD(3) m(1) sh us(1)] us(2-4) by simp
  have dw: "dir_wf (load_dir s (index_block (inodes s d))) (A @ f # B)" using sh us(1) by (simp add: dir_shows_def)
  have fw: "file_wf s i" if "\<not> S_ISDIR (i_mode (inodes s i))"
    using that n(1) rD(5,6) by (auto simp: in_nodes dir_shows_def file_shows_def)
  have db: "index_block (inodes s d) \<notin> owned s i" using blocks_okD(1) [OF rD(7) n(4,1) l(2) owned_index] .
  have al: "allocated (sbi s) (index_block (inodes s i))" using represents_owned(1) [OF r n(1) owned_index] .
  have in0: "0 < i" "i < nr_inodes (sbi s)" "i \<notin> free_inodes (sbi s)" using n(2) by (auto simp: used_inodes_def)
  from unlink_done [OF rD(1,2) sys_envD(2) [OF env] al fw l(2) in0 refl db dw us(3) other] obtain s' where
    s': "ouichefs_unlink env d i s = Some (0, s')" "dir_wf (load_dir s' (index_block (inodes s d))) (A @ B)"
    "free_blocks (sbi s') = free_blocks (sbi s) \<union> owned s i" "free_inodes (sbi s') = insert i (free_inodes (sbi s))"
    "fs_wf s'" "inode_map_wf (sbi s')"
    and fr: "dir_frame s {d} {i} (insert (index_block (inodes s d)) (owned s i)) s'" by blast
  let ?t' = "drop_name d name (del_node i t)"
  have td: "dirs ?t' d = Some (m(name := None))" "files ?t' d = None" "dirs ?t' i = None" "files ?t' i = None"
      "\<And>j. j \<noteq> i \<Longrightarrow> j \<noteq> d \<Longrightarrow> dirs ?t' j = dirs t j \<and> files ?t' j = files t j"
    using m(1) l(2) tree_okD(2) [OF rD(3), of d] by (auto simp: tree_ops)
  have shd: "dir_shows s' d (m(name := None))"
    using dir_shows_drop [OF sh us(1), of s'] us(2,4) fr s'(2) by (simp add: dir_frame_def)
  have "leads_to s s' ?t'"
  proof (rule represents_update [OF r, of "{i}" "{d}" s' _ "{}"])
    show "changed_at s t {i} {d} s'" using fr m(1) n(1) l(2) by (auto simp: changed_at_def dir_frame_def)
    show "tree_ok ?t'" by (rule tree_ok_del [OF rD(3) l e])
    show "nodes ?t' = nodes t - {i} \<union> {}" using td m(1) l(2) by (auto simp: in_nodes set_eq_iff) (metis option.distinct(1))+
    show "dirs ?t' j = dirs t j \<and> files ?t' j = files t j" if "j \<in> nodes t - {i} - {d}" for j
      using that by (intro td(5)) auto
  qed (use s' fr td(1,2) shd in \<open>auto simp: dir_frame_def\<close>)
  then show ?thesis using s'(1) by blast
qed

lemma rmdir_represents:
  assumes env: "sys_env env" and r: "represents s t" and l: "link t d name i" "d \<noteq> i" and m: "dirs t i = Some m"
  shows "ouichefs_rmdir env d i s = Some (- ENOTEMPTY, s) \<or>
    m = Map.empty \<and> (\<exists>s'. ouichefs_rmdir env d i s = Some (0, s') \<and> leads_to s s' (drop_name d name (del_node i t)))"
proof -
  define L where "L = load_dir s (index_block (inodes s i))"
  have sh: "dir_shows s i m" using representsD(5) [OF r m] .
  then have dw: "dir_wf L (slots s i)" by (simp add: dir_shows_def L_def)
  then have "length L = 128" by (simp add: dir_wf_def)
  then have a: "arr L 0 = Some (L ! 0)" by (simp add: arr_def)
  show ?thesis
  proof (cases "i_nlink (inodes s i) > 2 \<or> f_ino (L ! 0) \<noteq> 0")
    case True
    then show ?thesis using a sys_envD(2) [OF env] by (auto simp: ouichefs_rmdir_def Let_def L_def [symmetric])
  next
    case False
    have "slots s i = []"
    proof (rule ccontr)
      assume "slots s i \<noteq> []"
      then have "L ! 0 = hd (slots s i)" "hd (slots s i) \<in> set (slots s i)" using dw by (auto simp: dir_wf_def nth_append hd_conv_nth)
      then show False using dw False by (auto simp: dir_wf_def)
    qed
    then have "m = Map.empty" using sh by (auto simp: dir_shows_def dir_names_def dir_map_def)
    moreover have "ouichefs_rmdir env d i s = ouichefs_unlink env d i s"
      using False a sys_envD(2) [OF env] by (auto simp: ouichefs_rmdir_def Let_def L_def [symmetric])
    ultimately show ?thesis using unlink_represents [OF env r l] m by simp
  qed
qed

section \<open>Renaming\<close>

lemma rename_represents_same:
  assumes env: "sys_env env" and r: "represents s t" and l: "link t d old i" and d: "dirs t d = Some m" "m new = None"
    and name: "new \<noteq> []" "length new \<le> 27" "0 \<notin> set new" and fl: "flags AND (RENAME_EXCHANGE OR RENAME_WHITEOUT) = 0"
  shows "\<exists>s'. ouichefs_rename env d i old d new flags s = Some (0, s') \<and> leads_to s s' (add_name d new i (drop_name d old t))"
proof -
  note rD = representsD [OF r] and n = linked_node [OF r l]
  have m: "m old = Some i" using l d(1) by (simp add: link_def)
  have sh: "dir_shows s d m" using rD(5) d(1) .
  from dir_entry [OF sh m] obtain A f B where us: "slots s d = A @ f # B" "cname f = old" "f_ino f = word_of_nat i"
    "\<forall>x \<in> set (A @ B). cname x \<noteq> old" .
  have dw: "dir_wf (load_dir s (index_block (inodes s d))) (A @ f # B)" using sh us(1) by (simp add: dir_shows_def)
  have wb: "wf_bufs s" using rD(1) by (simp add: fs_wf_def)
  have new: "\<forall>x \<in> set (A @ f # B). cname x \<noteq> new" using d(2) dir_names_None [OF sh] us(1) by simp
  have f: "f \<in> set (slots s d)" "length (f_name f) = 28" using us(1) dw by (simp_all add: dir_wf_def)
  have o: "old \<noteq> []" "length old \<le> 28"
    using sh f us(2) length_takeWhile_le [of "\<lambda>c. c \<noteq> 0" "f_name f"] by (auto simp: dir_shows_def cname_def)
  from rename_same_dir [OF wb _ fl refl dw name new o us(2,4), of env i] sys_envD(2) [OF env] obtain s' where
    s': "ouichefs_rename env d i old d new flags s = Some (0, s')" "wf_bufs s'" "sbi s' = sbi s"
    "dir_wf (load_dir s' (index_block (inodes s d))) (A @ \<lparr>f_ino = f_ino f, f_name = strscpy (f_name f) new\<rparr> # B)"
    and fr: "dir_frame s {d} {} {index_block (inodes s d)} s'" by blast
  define f' where "f' = \<lparr>f_ino = f_ino f, f_name = strscpy (f_name f) new\<rparr>"
  have f': "cname f' = new" "f_ino f' = word_of_nat i" using strscpy_cname(2) [OF f(2) name(2,3)] us(3) by (simp_all add: f'_def)
  have shd: "dir_shows s' d (m(old := None, new \<mapsto> i))"
  proof (rule dir_showsI)
    show "dir_wf (load_dir s' (index_block (inodes s' d))) (A @ f' # B)" using s'(4) fr by (simp add: dir_frame_def f'_def)
    have nn: "\<forall>x \<in> set (A @ B). cname x \<noteq> cname f'" "\<forall>x \<in> set (A @ B). cname x \<noteq> cname f" using new f'(1) us(2,4) by simp_all
    show "(m(old := None, new \<mapsto> i)) x = map_option unat (dir_map (A @ f' # B) x)" for x
      using dir_map_add [OF nn(1), of x] dir_map_drop [OF nn(2), of x] f' us(1,2) n(3) sh by (auto simp: dir_shows_def dir_names_def)
    have "distinct (map cname (A @ B))" using sh us(1) by (auto simp: dir_shows_def)
    then show "distinct (map cname (A @ f' # B))" using nn(1) by (auto simp: image_iff)
  qed (use sh us(1) fr f'(1) name(1) in \<open>auto simp: dir_shows_def dir_frame_def\<close>)
  let ?t' = "add_name d new i (drop_name d old t)"
  have td: "dirs ?t' = (dirs t)(d \<mapsto> m(old := None, new \<mapsto> i))" "files ?t' = files t" using d(1) by (simp_all add: tree_ops)
  have "leads_to s s' ?t'"
  proof (rule represents_update [OF r, of "{}" "{d}" s' _ "{}"])
    show "changed_at s t {} {d} s'" using fr d(1) by (auto simp: changed_at_def dir_frame_def)
    show "tree_ok ?t'" by (rule tree_ok_rename [OF rD(3) l d])
    show "nodes ?t' = nodes t - {} \<union> {}" unfolding nodes_def td using d(1) by auto
    show "fs_wf s'" using rD(1) s'(2,3) by (simp add: fs_wf_def)
    show "dir_shows s' e k" if "e \<in> {d} \<union> {}" "dirs ?t' e = Some k" for e k using that td(1) shd by auto
    show "file_shows s' e k" if "e \<in> {d} \<union> {}" "files ?t' e = Some k" for e k
      using that td(2) tree_okD(2) [OF rD(3), of d] d(1) by simp
  qed (use s'(3) rD(2) td in auto)
  then show ?thesis using s'(1) by blast
qed

lemma rename_represents_other:
  assumes env: "sys_env env" and r: "represents s t" and l: "link t od old i" and d: "dirs t nd = Some m" "m new = None" "od \<noteq> nd"
    and name: "new \<noteq> []" "length new \<le> 27" "0 \<notin> set new" and fl: "flags AND (RENAME_EXCHANGE OR RENAME_WHITEOUT) = 0"
    and room: "length (slots s nd) < 128"
  shows "if length (slots s od) = 128 then ouichefs_rename env od i old nd new flags s = None
    else \<exists>s'. ouichefs_rename env od i old nd new flags s = Some (0, s') \<and> leads_to s s' (add_name nd new i (drop_name od old t))"
proof -
  note rD = representsD [OF r] and n = linked_node [OF r l]
  obtain k where k: "dirs t od = Some k" "k old = Some i" using l by (auto simp: link_def)
  have sh: "dir_shows s od k" "dir_shows s nd m" using rD(5) k(1) d(1) by simp_all
  from dir_entry [OF sh(1) k(2)] obtain A f B where us: "slots s od = A @ f # B" "cname f = old" "f_ino f = word_of_nat i"
    "\<forall>x \<in> set (A @ B). cname x \<noteq> old" .
  have other: "\<forall>x \<in> set (A @ B). f_ino x \<noteq> word_of_nat i" using entry_only [OF rD(3) k(1) sh(1) us(1)] us(2-4) by simp
  have dw: "dir_wf (load_dir s (index_block (inodes s od))) (A @ f # B)" "dir_wf (load_dir s (index_block (inodes s nd))) (slots s nd)"
    using sh us(1) by (simp_all add: dir_shows_def)
  have wb: "wf_bufs s" using rD(1) by (simp add: fs_wf_def)
  have new: "\<forall>x \<in> set (slots s nd). cname x \<noteq> new" using d(2) dir_names_None [OF sh(2)] by simp
  have nn: "nd \<in> nodes t" using d(1) by (simp add: in_nodes)
  have ne: "index_block (inodes s od) \<noteq> index_block (inodes s nd)"
    using blocks_okD(1) [OF rD(7) n(4) nn d(3) owned_index] owned_index [of s nd] by auto
  note ro = rename_other_dir [OF wb sys_envD(2) [OF env] fl d(3) refl refl ne dw(1) us(3) other dw(2) room name new, of old]
  show ?thesis
  proof (cases "length (slots s od) = 128")
    case False
    then obtain s' where s': "ouichefs_rename env od i old nd new flags s = Some (0, s')" "wf_bufs s'" "sbi s' = sbi s"
      "dir_wf (load_dir s' (index_block (inodes s od))) (A @ B)"
      "dir_wf (load_dir s' (index_block (inodes s nd))) (slots s nd @ [\<lparr>f_ino = word_of_nat i, f_name = strscpy (replicate 28 0) new\<rparr>])"
      and fr: "dir_frame s {od, nd} {} {index_block (inodes s od), index_block (inodes s nd)} s'" using ro us(1) by auto
    have shd: "dir_shows s' od (k(old := None))" "dir_shows s' nd (m(new \<mapsto> i))"
      using dir_shows_drop [OF sh(1) us(1), of s'] us(2,4) fr s'(4)
        dir_shows_add [OF sh(2), of "\<lparr>f_ino = word_of_nat i, f_name = strscpy (replicate 28 0) new\<rparr>" i s'] new_name [OF name(2,3)] d(2) name(1) n(3) s'(5)
      by (simp_all add: dir_frame_def)
    let ?t' = "add_name nd new i (drop_name od old t)"
    have td: "dirs ?t' = (dirs t)(od \<mapsto> k(old := None), nd \<mapsto> m(new \<mapsto> i))" "files ?t' = files t" using d k(1) by (simp_all add: tree_ops)
    have "leads_to s s' ?t'"
    proof (rule represents_update [OF r, of "{}" "{od, nd}" s' _ "{}"])
      show "changed_at s t {} {od, nd} s'" using fr d(1) k(1) by (auto simp: changed_at_def dir_frame_def)
      show "tree_ok ?t'" by (rule tree_ok_rename [OF rD(3) l d(1,2)])
      show "nodes ?t' = nodes t - {} \<union> {}" unfolding nodes_def td using d(1) k(1) by auto
      show "fs_wf s'" using rD(1) s'(2,3) by (simp add: fs_wf_def)
      show "dir_shows s' e c" if "e \<in> {od, nd} \<union> {}" "dirs ?t' e = Some c" for e c using that td(1) shd d(3) by auto
      show "file_shows s' e c" if "e \<in> {od, nd} \<union> {}" "files ?t' e = Some c" for e c
        using that td(2) tree_okD(2) [OF rD(3), of od] tree_okD(2) [OF rD(3), of nd] d(1) k(1) by auto
    qed (use s'(3) rD(2) td in auto)
    then show ?thesis using s'(1) False by auto
  qed (use ro us(1) in auto)
qed

text \<open>The rename that reads past a full source directory.\<close>

definition rename_overrun :: "fs \<Rightarrow> nat \<Rightarrow> nat \<Rightarrow> byte list \<Rightarrow> u32_word \<Rightarrow> bool" where
  "rename_overrun s od nd new flags \<longleftrightarrow> od \<noteq> nd \<and> length (slots s od) = 128 \<and> length (slots s nd) < 128 \<and> length new \<le> 28 \<and>
     flags AND (RENAME_EXCHANGE OR RENAME_WHITEOUT) = 0 \<and> dir_names s nd new = None"

lemma rename_represents:
  assumes env: "sys_env env" and r: "represents s t" and v: "vfs_call t (Rename od i old nd new flags)"
  shows "if rename_overrun s od nd new flags then ouichefs_rename env od i old nd new flags s = None
    else call_ok s t (Rename od i old nd new flags) (ouichefs_rename env od i old nd new flags s)"
proof -
  obtain m where m: "dirs t nd = Some m" using v by auto
  have sh: "dir_shows s nd m" using representsD(5) [OF r m] .
  then have dw: "dir_wf (load_dir s (index_block (inodes s nd))) (slots s nd)" "m = dir_names s nd" by (simp_all add: dir_shows_def)
  have l: "link t od old i" and nm: "new \<noteq> []" "0 \<notin> set new" "length new \<noteq> 28" using v by (simp_all add: name_ok_def)
  show ?thesis
  proof (cases "flags AND (RENAME_EXCHANGE OR RENAME_WHITEOUT) \<noteq> 0 \<or> 28 < length new \<or> (\<exists>f \<in> set (slots s nd). cname f = new) \<or>
      od \<noteq> nd \<and> length (slots s nd) = 128")
    case True
    have "\<not> rename_overrun s od nd new flags"
      using True dir_names_None [OF sh, of new] dw(2) unfolding rename_overrun_def by auto
    then show ?thesis
      using rename_refused [OF sys_envD(2) [OF env] refl dw(1) nm(1) True, of i old] call_refused [OF r] by auto
  next
    case False
    then have fl: "flags AND (RENAME_EXCHANGE OR RENAME_WHITEOUT) = 0" "length new \<le> 27" "m new = None" "od \<noteq> nd \<longrightarrow> length (slots s nd) < 128"
      using nm(3) dir_names_None [OF sh, of new] dw(1) by (auto simp: dir_wf_def)
    have step: "tree_step t (Rename od i old nd new flags) 0 (add_name nd new i (drop_name od old t))"
      using fl(3) m by (intro Tree_rename) simp
    show ?thesis
    proof (cases "od = nd")
      case True
      then have "\<not> rename_overrun s od nd new flags" by (simp add: rename_overrun_def)
      then show ?thesis using rename_represents_same [OF env r _ m fl(3) nm(1) fl(2) nm(2) fl(1), of old i] l call_done [OF _ step] True by auto
    next
      case False
      have "rename_overrun s od nd new flags \<longleftrightarrow> length (slots s od) = 128"
        using False fl dw(2) by (simp add: rename_overrun_def)
      then show ?thesis
        using rename_represents_other [OF env r l m fl(3) False nm(1) fl(2) nm(2) fl(1)] fl(4) False call_done [OF _ step] by auto
    qed
  qed
qed

section \<open>Every call\<close>

text \<open>The two calls that leave the memory they may read: everything else returns.\<close>

fun overruns :: "fs \<Rightarrow> syscall \<Rightarrow> bool" where
  "overruns s (File_call (Write f buff pos)) \<longleftrightarrow>
     past_index s (f_inode f) (write_pos f pos s) \<and> write_pos f pos s + int (length buff) \<le> 4194304"
| "overruns s (Rename od i old nd new flags) \<longleftrightarrow> rename_overrun s od nd new flags"
| "overruns s _ \<longleftrightarrow> False"

inductive_simps sys_step_simps:
  "sys_step env s (Create d name mode) r s'" "sys_step env s (Mkdir d name mode) r s'" "sys_step env s (Unlink d i) r s'"
  "sys_step env s (Rmdir d i) r s'" "sys_step env s (Rename od i old nd new flags) r s'" "sys_step env s (File_call c) r s'"

inductive_simps fs_step_simps: "fs_step env s (Write f buff pos) r s'" "fs_step env s (Defragment f) r s'"

lemma mkdir_mode: "mode AND 0xF000 = 0 \<Longrightarrow> S_ISDIR (mode OR S_IFDIR)"
  by (simp add: S_ISDIR_def S_IFDIR_def bit.conj_disj_distrib2)

lemma reg_not_dir: "S_ISREG mode \<Longrightarrow> \<not> S_ISDIR mode"
  by (simp add: S_ISREG_def S_ISDIR_def)

lemma directory_calls:
  assumes env: "sys_env env" and r: "represents s t"
  shows "vfs_call t (Create d name mode) \<Longrightarrow> call_ok s t (Create d name mode) (ouichefs_create env d name mode s)"
    and "vfs_call t (Mkdir d name mode) \<Longrightarrow> call_ok s t (Mkdir d name mode) (ouichefs_mkdir env d name mode s)"
    and "vfs_call t (Unlink d i) \<Longrightarrow> call_ok s t (Unlink d i) (ouichefs_unlink env d i s)"
    and "vfs_call t (Rmdir d i) \<Longrightarrow> call_ok s t (Rmdir d i) (ouichefs_rmdir env d i s)"
proof -
  show "call_ok s t (Create d name mode) (ouichefs_create env d name mode s)" if v: "vfs_call t (Create d name mode)"
  proof -
    from v obtain m where m: "dirs t d = Some m" "m name = None" "name_ok name" "S_ISDIR mode \<or> S_ISREG mode" "\<not> S_ISDIR mode"
      using reg_not_dir by auto
    from create_represents [OF env r m(1-4)] show ?thesis
      using m(5) call_refused [OF r] call_done [OF _ Tree_create] by auto
  qed
  show "call_ok s t (Mkdir d name mode) (ouichefs_mkdir env d name mode s)" if v: "vfs_call t (Mkdir d name mode)"
  proof -
    from v obtain m where m: "dirs t d = Some m" "m name = None" "name_ok name" "S_ISDIR (mode OR S_IFDIR)"
      using mkdir_mode by auto
    from create_represents [OF env r m(1-3) disjI1 [OF m(4)]] show ?thesis
      using m(4) call_refused [OF r] call_done [OF _ Tree_mkdir] unfolding ouichefs_mkdir_def by auto
  qed
  show "call_ok s t (Unlink d i) (ouichefs_unlink env d i s)" if v: "vfs_call t (Unlink d i)"
  proof -
    from v obtain name where l: "link t d name i" "i \<in> dom (files t)" by auto
    have "dirs t i = None" using l(2) tree_okD(2) [OF representsD(3) [OF r], of i] by auto
    moreover from this have "d \<noteq> i" using l(1) by (auto simp: link_def)
    ultimately show ?thesis
      using unlink_represents [OF env r l(1)] call_done [OF _ Tree_unlink [OF l(1)]] by blast
  qed
  show "call_ok s t (Rmdir d i) (ouichefs_rmdir env d i s)" if v: "vfs_call t (Rmdir d i)"
  proof -
    from v obtain name m where l: "link t d name i" "dirs t i = Some m" "d \<noteq> i" by auto
    from rmdir_represents [OF env r l(1,3,2)] show ?thesis
      using l call_refused [OF r] call_done [OF _ Tree_rmdir [OF l(1)]] by auto
  qed
qed

definition steps_ok :: "kenv \<Rightarrow> fs \<Rightarrow> tree \<Rightarrow> syscall \<Rightarrow> bool" where
  "steps_ok env s t op \<longleftrightarrow> (\<exists>r s'. sys_step env s op r s') \<and>
     (\<forall>r s'. sys_step env s op r s' \<longrightarrow> (\<exists>t'. tree_step t op r t' \<and> leads_to s s' t'))"

lemma steps_okI: "\<lbrakk>call_ok s t op res; \<And>r s'. sys_step env s op r s' \<longleftrightarrow> res = Some (r, s')\<rbrakk> \<Longrightarrow> steps_ok env s t op"
  unfolding steps_ok_def call_ok_def by auto

lemma file_calls:
  assumes env: "sys_env env" and r: "represents s t" and v: "vfs_call t (File_call c)"
  shows "if overruns s (File_call c) then \<forall>ret s'. \<not> sys_step env s (File_call c) ret s' else steps_ok env s t (File_call c)"
proof (cases c)
  case (Write f buff pos)
  have "valid_call (dom (files t)) (Write f buff pos)" using v Write by simp
  note o = write_outcome [OF represents_files(1) [OF r] this sys_envD(1) [OF env]]
  show ?thesis
  proof (cases "overruns s (File_call c)")
    case True
    then show ?thesis using o Write by (simp add: sys_step_simps fs_step_simps)
  next
    case False
    then have "\<exists>ret s'. sys_step env s (File_call c) ret s'"
      using o Write by (auto simp: outcome_def sys_step_simps fs_step_simps)
    then show ?thesis
      using False write_represents [OF env r] v unfolding Write steps_ok_def sys_step_simps by auto
  qed
next
  case (Defragment f)
  then have "f_inode f \<in> dom (files t)" using v by simp
  from defrag_represents [OF env r this] obtain s' where "ouichefs_defrag env f s = Some (0, s')" "leads_to s s' t" by blast
  from call_done [OF this(1) Tree_defragment this(2), of f] show ?thesis
    unfolding Defragment by (auto simp: sys_step_simps fs_step_simps intro!: steps_okI)
qed

lemma sys_calls:
  assumes env: "sys_env env" and r: "represents s t" and v: "vfs_call t op"
  shows "if overruns s op then \<forall>ret s'. \<not> sys_step env s op ret s' else steps_ok env s t op"
proof (cases op)
  case (Rename od i old nd new flags)
  then show ?thesis using rename_represents [OF env r, of od i old nd new flags] v
    by (auto simp: sys_step_simps intro!: steps_okI split: if_splits)
next
  case (Create d name mode)
  then have "steps_ok env s t op" using steps_okI [OF directory_calls(1) [OF env r]] v by (simp add: sys_step_simps del: vfs_call.simps)
  then show ?thesis by (simp add: Create)
next
  case (Mkdir d name mode)
  then have "steps_ok env s t op" using steps_okI [OF directory_calls(2) [OF env r]] v by (simp add: sys_step_simps del: vfs_call.simps)
  then show ?thesis by (simp add: Mkdir)
next
  case (Unlink d i)
  then have "steps_ok env s t op" using steps_okI [OF directory_calls(3) [OF env r]] v by (simp add: sys_step_simps del: vfs_call.simps)
  then show ?thesis by (simp add: Unlink)
next
  case (Rmdir d i)
  then have "steps_ok env s t op" using steps_okI [OF directory_calls(4) [OF env r]] v by (simp add: sys_step_simps del: vfs_call.simps)
  then show ?thesis by (simp add: Rmdir)
next
  case (File_call c)
  then show ?thesis using file_calls [OF env r] v by blast
qed

lemma step_represents:
  "\<lbrakk>sys_env env; represents s t; vfs_call t op; sys_step env s op r s'\<rbrakk> \<Longrightarrow> \<exists>t'. tree_step t op r t' \<and> leads_to s s' t'"
  using sys_calls [of env s t op] by (auto simp: steps_ok_def split: if_splits)

lemma step_consistent:
  assumes "sys_env env" "consistent s" "vfs_call (tree_of s) op" "sys_step env s op r s'"
  shows "consistent s'" "tree_step (tree_of s) op r (tree_of s')" "same_metadata s s'"
proof -
  from step_represents [OF assms(1) _ assms(3,4)] assms(2) obtain t' where
    "tree_step (tree_of s) op r t'" "represents s' t'" "same_metadata s s'" by (auto simp: consistent_def leads_to_def)
  then show "consistent s'" "tree_step (tree_of s) op r (tree_of s')" "same_metadata s s'"
    using represents_consistent [of s' t'] by simp_all
qed

section \<open>Runs\<close>

interpretation system: simulation "sys_step env" tree_step tree_of "\<lambda>s. sys_env env \<and> consistent s" vfs_call for env
  by unfold_locales (auto intro: step_consistent)

text \<open>The sequences of calls that the VFS makes.\<close>

abbreviation sys_run :: "kenv \<Rightarrow> fs \<Rightarrow> (syscall \<times> int) list \<Rightarrow> fs \<Rightarrow> bool" where
  "sys_run env \<equiv> run (guarded tree_of vfs_call (sys_step env))"

lemma run_metadata: "\<lbrakk>sys_run env s tr s'; sys_env env; consistent s\<rbrakk> \<Longrightarrow> same_metadata s s'"
proof (induction rule: run.induct)
  case (Run_more s op r t tr u)
  then have "consistent t" "same_metadata s t" using step_consistent [of env s op r t] by (simp_all add: guarded_def)
  then show ?case using Run_more same_metadata_trans by blast
qed (rule same_metadata_refl)

lemma mounted_metadata:
  assumes m: "same_metadata s s'" and s: "mounted s" "consistent s'"
  shows "mounted s'"
proof -
  define q where "q = sbi s'"
  have wf: "inode_map_wf q" "block_map_wf q"
    using s(2) by (simp_all add: consistent_def represents_def fs_wf_def q_def)
  have g: "geometry q = geometry (sbi s)" "bufs s' 0 = bufs s 0"
    using m by (simp_all add: same_metadata_def q_def first_data_block_def)
  have "free_inodes q \<subseteq> {1..<nr_inodes q}" "free_blocks q \<subseteq> {..<nr_blocks q}"
    using wf(1) by (auto simp: inode_map_wf_def free_inodes_def free_blocks_def ones_def Suc_le_eq intro: gr0I)
  then have "card (free_inodes q) \<le> card {1..<nr_inodes q}" "card (free_blocks q) \<le> card {..<nr_blocks q}"
    by (intro card_mono; simp)+
  then have "nr_free_inodes q < 2 ^ 32" "nr_free_blocks q < 2 ^ 32"
    using wf by (auto simp: inode_map_wf_def block_map_wf_def)
  then show ?thesis using s(1) g
    by (simp add: mounted_def sb_shape_def sb_fits_def geometry_def q_def [symmetric])
qed

section \<open>The fresh partition\<close>

definition empty_tree :: tree where
  "empty_tree = \<lparr>dirs = [root_ino \<mapsto> Map.empty], files = Map.empty\<rparr>"

lemma fresh_represents:
  assumes fp: "fresh_partition env n u s" and n: "2 \<le> n" "n \<le> 2 ^ 19" "2 < u" "u \<le> n" and wb: "wf_bufs s" and env: "sys_env env"
  shows "represents s empty_tree"
proof -
  have maps: "block_map_wf (sbi s)" "inode_map_wf (sbi s)" by (rule fresh_maps [OF fp]; use n in linarith)+
  have fd: "first_data_block (sbi s) = u - 1" using fp by (auto simp: fresh_partition_def used_blocks_def first_data_block_def)
  have f: "nr_blocks (sbi s) = n" "free_blocks (sbi s) = {u..<n}" "nr_inodes (sbi s) = n + n mod 51" "free_inodes (sbi s) = {2..<n + n mod 51}"
    "index_block (inodes s 1) = u - 1" "i_blocks (inodes s 1) = 1" "i_mode (inodes s 1) = snd (snd (init_owner env None 0x41FD))"
    "bufs s (u - 1) = replicate 4096 0" using fp by (simp_all add: fresh_partition_def)
  have d: "S_ISDIR (i_mode (inodes s 1))" using f(7) env by (simp add: sys_env_def S_ISDIR_def)
  have wf: "fs_wf s" using wb maps(1) f(1) n(2) by (simp add: fs_wf_def)
  have al: "allocated (sbi s) (index_block (inodes s 1))" using f(1,2,5) n(3,4) by (auto simp: allocated_def)
  note new = new_node_shows [OF wf al _ f(6)]
  have sh: "dir_shows s 1 Map.empty" "owned s 1 = {u - 1}" using new(2,3) d f(5,8) by simp_all
  have nodes: "nodes empty_tree = {1}" by (simp add: empty_tree_def nodes_def root_ino_def)
  have "used_inodes (sbi s) = {1}"
  proof -
    have "{0<..<m} - {2..<m} = {1}" if "2 \<le> m" for m :: nat using that by auto
    then show ?thesis unfolding used_inodes_def f(3,4) using n(1) by simp
  qed
  moreover have "tree_ok empty_tree" by (auto simp: tree_ok_def link_def empty_tree_def nodes_def)
  moreover have "blocks_ok s {1}"
  proof -
    have "b \<in> {u..<n} \<or> b = u - 1 \<longleftrightarrow> u - 1 \<le> b \<and> b < n" for b using n(3,4) unfolding atLeastLessThan_iff by linarith
    moreover have "u - 1 \<notin> {u..<n}" using n(3) unfolding atLeastLessThan_iff by linarith
    ultimately show ?thesis unfolding blocks_ok_def f(1,2) fd by (simp add: sh(2) [unfolded One_nat_def])
  qed
  ultimately show ?thesis
    using wf maps(2) sh(1) unfolding represents_def nodes by (auto simp: empty_tree_def root_ino_def)
qed

lemma mkfs_empty_tree:
  assumes "mkfs_ok env st_size" "hd arg \<noteq> CHR ''-''" "100 * 4096 \<le> st_size" "st_size < (2 ^ 19 + 1) * 4096" "mount_ok kenv" "sys_env kenv"
  shows "\<exists>dev. mkfs_main env 2 arg = Some (0, dev) \<and>
    (\<forall>t. wf_bufs t \<and> (\<forall>b < length dev. bufs t b = dev ! b) \<longrightarrow>
      (\<exists>s. ouichefs_fill_super kenv t = (0, s) \<and> consistent s \<and> mounted s \<and> tree_of s = empty_tree))"
proof -
  define n where "n = nat (st_size div 4096)"
  note f = superblock_sizes_facts(2,3) [OF assms(3,4), folded n_def]
  from mkfs_mounts [OF assms(1-5), folded n_def] obtain dev where dev: "mkfs_main env 2 arg = Some (0, dev)" "length dev \<le> n" "2 < length dev"
    "\<forall>t. (\<forall>b < length dev. bufs t b = dev ! b) \<longrightarrow>
      (\<exists>t'. ouichefs_fill_super kenv t = (0, t') \<and> bufs t' = bufs t \<and> fresh_partition kenv n (length dev) t')" by blast
  have "consistent s \<and> mounted s \<and> tree_of s = empty_tree" if "fresh_partition kenv n (length dev) s" "bufs s = bufs t" "wf_bufs t" for s t :: fs
  proof -
    have "wf_bufs s" using that(2,3) by (simp add: wf_bufs_def)
    from fresh_represents [OF that(1) _ f(2) dev(3,2) this assms(6)] f(1) show ?thesis
      using represents_consistent that(1) by (simp add: fresh_partition_def)
  qed
  then show ?thesis using dev(1,4) by (intro exI [of _ dev]) metis
qed

section \<open>Correctness\<close>





section \<open>A consistent partition\<close>

definition demo_tree :: tree where
  "demo_tree = \<lparr>dirs = [1 \<mapsto> [[97] \<mapsto> 2, [98] \<mapsto> 3]], files = [2 \<mapsto> [104, 101, 108, 108, 111], 3 \<mapsto> [1, 2, 3, 4, 5]]\<rparr>"

lemma demo_dir_unchanged:
  assumes "i = 2 \<or> i = 3"
  shows "file_shows demo_dir i (file_content demo_fs i)" "owned demo_dir i = file_blocks demo_fs i"
proof -
  have w: "file_wf demo_fs i" "inodes demo_dir i = inodes demo_fs i" "file_blocks demo_fs i \<subseteq> {5, 6, 7, 8, 9}"
    using assms demo_wf by (auto simp: demo_dir_def)
  have "bufs demo_dir b = bufs demo_fs b \<and> allocated (sbi demo_dir) b" if "b \<in> file_blocks demo_fs i" for b
  proof -
    have "b \<noteq> 4" using that w(3) by auto
    then show ?thesis using that w(1) by (simp add: file_wf_def Let_def)
  qed
  note un = file_unchanged [OF w(1,2) this]
  have "\<not> S_ISDIR (i_mode (inodes demo_dir i))" using assms w(2) by (auto simp: demo_inode_def S_ISDIR_def)
  then show "file_shows demo_dir i (file_content demo_fs i)" "owned demo_dir i = file_blocks demo_fs i"
    using un by (simp_all add: file_shows_def owned_def)
qed

lemma demo_dir_root: "dir_shows demo_dir 1 [[97] \<mapsto> 2, [98] \<mapsto> 3]" "owned demo_dir 1 = {4}"
proof -
  have c: "cname (demo_slot 2 [97]) = [97]" "cname (demo_slot 3 [98]) = [98]"
    unfolding demo_slot_def by (intro strscpy_cname(2); simp)+
  have d: "S_ISDIR (i_mode (inodes demo_dir 1))" by (simp add: demo_dir_def S_ISDIR_def)
  have w: "dir_wf (load_dir demo_dir (index_block (inodes demo_dir 1))) [demo_slot 2 [97], demo_slot 3 [98]]"
    using demo_dir_files(2) by simp
  show "dir_shows demo_dir 1 [[97] \<mapsto> 2, [98] \<mapsto> 3]"
    by (rule dir_showsI [OF d w]) (use c in \<open>simp_all add: dir_map_def unat_u32\<close>)
  then show "owned demo_dir 1 = {4}" using dir_owned by fastforce
qed

lemma demo_represents: "represents demo_dir demo_tree"
proof -
  have u: "used_inodes demo_sb = {1, 2, 3}"
  proof -
    have "{0<..<56} - {4..<56} = {1, 2, 3 :: nat}" by auto
    then show ?thesis by (simp add: used_inodes_def demo_free_inodes)
  qed
  have n: "nodes demo_tree = {1, 2, 3}" by (auto simp: nodes_def demo_tree_def)
  have o: "owned demo_dir 1 = {4}" "owned demo_dir 2 = {5, 6}" "owned demo_dir 3 = {7, 8, 9}"
    using demo_dir_root(2) demo_dir_unchanged(2) demo_wf(4,5) by simp_all
  have fd: "first_data_block demo_sb = 4" by (simp add: first_data_block_def demo_sb_def)
  have "blocks_ok demo_dir {1, 2, 3}"
    unfolding blocks_ok_def using o [unfolded One_nat_def] fd demo_free by (auto, presburger)
  moreover have l: "link demo_tree d name i \<longleftrightarrow> d = 1 \<and> (name = [97] \<and> i = 2 \<or> name = [98] \<and> i = 3)" for d name i
    by (auto simp: demo_tree_def link_def)
  have "tree_ok demo_tree"
    by (rule tree_okI) (auto simp: l n root_ino_def, auto simp: demo_tree_def)
  ultimately show ?thesis
    using demo_dir_wf(1,2) u n demo_dir_root(1) demo_dir_unchanged(1) [of 2] demo_dir_unchanged(1) [of 3]
    unfolding represents_def by (auto simp: demo_tree_def)
qed

lemma demo_sys: "sys_env demo_env" "consistent demo_dir" "tree_of demo_dir = demo_tree"
  using demo_calls_ok represents_consistent [OF demo_represents] by (simp_all add: sys_env_def demo_env_def)

lemma one_call:
  assumes "sys_env env" "consistent s" "vfs_call (tree_of s) op" "\<not> overruns s op"
  obtains r s' where "sys_run env s [(op, r)] s'"
proof -
  have "steps_ok env s (tree_of s) op" using sys_calls [OF assms(1) _ assms(3)] assms(2,4) by (simp add: consistent_def)
  then show thesis using that run_one [of "guarded tree_of vfs_call (sys_step env)"] assms(3)
    unfolding steps_ok_def guarded_def by blast
qed





end
