(* ===== verification/Persist.thy ===== *)
theory Persist
  imports System
begin

text \<open>
  What remains of a partition when it is unmounted: the kernel writes the inodes, calls
  \<open>ouichefs_sync_fs\<close> and writes the remaining dirty buffers. A mount of the medium then shows the same
  tree of directories and files.
\<close>

section \<open>Unmounting and mounting\<close>

text \<open>The kernel calls \<open>ouichefs_write_inode\<close> for each inode of a list.\<close>

fun write_inodes :: "kenv \<Rightarrow> nat list \<Rightarrow> fs \<Rightarrow> fs" where
  "write_inodes env [] s = s"
| "write_inodes env (i # is) s = write_inodes env is (snd (ouichefs_write_inode env i s))"

text \<open>After the sync of the file system, the kernel writes all buffers of the device.\<close>

definition unmount :: "kenv \<Rightarrow> nat list \<Rightarrow> fs \<Rightarrow> (int \<times> fs) option" where
  "unmount env is s =
     do { (ret, s) \<leftarrow> ouichefs_sync_fs env True (write_inodes env is s);
          Some (ret, s\<lparr>media := bufs s, dirty := (\<lambda>_. False)\<rparr>) }"

text \<open>The lookups after a mount read inodes.\<close>

fun read_inodes :: "kenv \<Rightarrow> nat list \<Rightarrow> fs \<Rightarrow> fs" where
  "read_inodes env [] s = s"
| "read_inodes env (i # is) s = read_inodes env is (snd (ouichefs_iget env i s))"

text \<open>The inode that the inode store in the buffers holds.\<close>

definition stored_inode :: "fs \<Rightarrow> nat \<Rightarrow> inode" where
  "stored_inode s i = of_disk (load_dinode (bufs s (inode_block i)) (inode_shift i))"

lemma inode_block_range:
  assumes "mounted s" "i < nr_inodes (sbi s)"
  shows "0 < inode_block i" "inode_block i < nr_istore_blocks (sbi s) + 1" "nr_inodes (sbi s) < 2 ^ 32"
proof -
  show n: "nr_inodes (sbi s) < 2 ^ 32" using assms(1) by (simp add: mounted_def sb_shape_def sb_fits_def)
  have "i div 51 < nr_istore_blocks (sbi s)" using assms by (simp add: mounted_def less_mult_imp_div_less mult.commute)
  moreover have "inode_block i = i div 51 + 1" using assms(2) n by (intro inode_slot(2)) linarith
  ultimately show "0 < inode_block i" "inode_block i < nr_istore_blocks (sbi s) + 1" by simp_all
qed

lemma write_inodes_spec:
  assumes "wf_bufs s" "mounted s" "\<forall>b. bread_ok env b" "\<forall>i \<in> set is. i < nr_inodes (sbi s) \<and> inode_fits (inodes s i)"
  defines "s' \<equiv> write_inodes env is s"
  shows "wf_bufs s' \<and> sbi s' = sbi s \<and> inodes s' = inodes s \<and>
    (\<forall>b. b = 0 \<or> nr_istore_blocks (sbi s) < b \<longrightarrow> bufs s' b = bufs s b) \<and>
    (\<forall>j < nr_inodes (sbi s). stored_inode s' j = (if j \<in> set is then inodes s j else stored_inode s j))"
  using assms(1,2,4) unfolding s'_def
proof (induction "is" arbitrary: s)
  case (Cons i "is")
  have i: "i < nr_inodes (sbi s)" "inode_fits (inodes s i)" using Cons.prems(3) by simp_all
  note rg = inode_block_range [OF Cons.prems(2) i(1)]
  from write_inode_spec [OF Cons.prems(1) i(1) rg(3) assms(3)] obtain s1 where s1:
    "ouichefs_write_inode env i s = (0, s1)" "wf_bufs s1" "sbi s1 = sbi s" "inodes s1 = inodes s"
    "\<forall>b. b \<noteq> inode_block i \<longrightarrow> bufs s1 b = bufs s b"
    "\<forall>j < nr_inodes (sbi s). load_dinode (bufs s1 (inode_block j)) (inode_shift j) =
       (if j = i then to_disk (inodes s i) else load_dinode (bufs s (inode_block j)) (inode_shift j))" by blast
  have st: "stored_inode s1 j = (if j = i then inodes s i else stored_inode s j)" if "j < nr_inodes (sbi s)" for j
    using s1(6) that of_to_disk [OF i(2)] by (simp add: stored_inode_def)
  have "mounted s1" using Cons.prems(2) s1(3,5) rg(1) by (simp add: mounted_def)
  from Cons.IH [OF s1(2) this] Cons.prems(3) s1(3,4)
  have IH: "wf_bufs (write_inodes env is s1)" "sbi (write_inodes env is s1) = sbi s" "inodes (write_inodes env is s1) = inodes s"
    "\<forall>b. b = 0 \<or> nr_istore_blocks (sbi s) < b \<longrightarrow> bufs (write_inodes env is s1) b = bufs s1 b"
    "\<forall>j < nr_inodes (sbi s). stored_inode (write_inodes env is s1) j = (if j \<in> set is then inodes s j else stored_inode s1 j)"
    by simp_all
  have "bufs (write_inodes env is s1) b = bufs s b" if "b = 0 \<or> nr_istore_blocks (sbi s) < b" for b
  proof -
    have "b \<noteq> inode_block i" using that rg(1,2) by auto
    then show ?thesis using IH(4) s1(5) that by metis
  qed
  then show ?case using IH s1(1) st by auto
qed simp

lemma read_inodes_spec:
  assumes "\<forall>b. bread_ok env b" "\<forall>i \<in> set is. i < nr_inodes (sbi s) \<and> iget_locked env i = Some True"
  shows "bufs (read_inodes env is s) = bufs s \<and> sbi (read_inodes env is s) = sbi s \<and>
    inodes (read_inodes env is s) j = (if j \<in> set is then stored_inode s j else inodes s j)"
  using assms(2)
proof (induction "is" arbitrary: s)
  case (Cons i "is")
  have "ouichefs_iget env i s = (Inr i, set_inode i (stored_inode s i) s)"
    using assms(1) Cons.prems by (simp add: ouichefs_iget_def stored_inode_def)
  moreover define s1 where "s1 = set_inode i (stored_inode s i) s"
  ultimately have r: "read_inodes env (i # is) s = read_inodes env is s1" by simp
  have s1: "bufs s1 = bufs s" "sbi s1 = sbi s" "stored_inode s1 = stored_inode s" by (simp_all add: s1_def stored_inode_def fun_eq_iff)
  have "inodes s1 j = (if j = i then stored_inode s j else inodes s j)" by (simp add: s1_def)
  with Cons.IH [of s1] Cons.prems s1 show ?case unfolding r by auto
qed simp

section \<open>The medium after an unmount\<close>

text \<open>Inodes that are written, or that the store holds already, and that fit its fields.\<close>

definition all_written :: "nat list \<Rightarrow> fs \<Rightarrow> bool" where
  "all_written is s \<longleftrightarrow> set is \<subseteq> nodes (tree_of s) \<and>
     (\<forall>i \<in> nodes (tree_of s). inode_fits (inodes s i) \<and> (i \<in> set is \<or> stored_inode s i = inodes s i))"

text \<open>The buffers \<open>bs\<close> hold everything of the partition \<open>s\<close>.\<close>

definition holds_all :: "fs \<Rightarrow> (nat \<Rightarrow> byte list) \<Rightarrow> bool" where
  "holds_all s bs \<longleftrightarrow> (let q = sbi s in
     (\<forall>b. length (bs b) = 4096) \<and> bs 0 = store_sb q (bufs s 0) \<and>
     (\<forall>k < nr_ifree_blocks q. bs (nr_istore_blocks q + 1 + k) = chunk (ifree_bitmap q) k) \<and>
     (\<forall>k < nr_bfree_blocks q. bs (nr_istore_blocks q + nr_ifree_blocks q + 1 + k) = chunk (bfree_bitmap q) k) \<and>
     (\<forall>b. first_data_block q \<le> b \<longrightarrow> bs b = bufs s b) \<and>
     (\<forall>i \<in> nodes (tree_of s). of_disk (load_dinode (bs (inode_block i)) (inode_shift i)) = inodes s i))"

lemma consistent_nodes: "consistent s \<Longrightarrow> i \<in> nodes (tree_of s) \<Longrightarrow> 0 < i \<and> i < nr_inodes (sbi s)"
  using representsD(4) [of s "tree_of s"] by (auto simp: consistent_def used_inodes_def)

lemma unmount_done:
  assumes c: "consistent s" "mounted s" and env: "\<forall>b. bread_ok env b" and w: "all_written is s"
  shows "\<exists>s1. unmount env is s = Some (0, s1) \<and> holds_all s (media s1)"
proof -
  define s0 q where "s0 = write_inodes env is s" and "q = sbi s"
  have wb: "wf_bufs s" using c(1) by (simp add: consistent_def represents_def fs_wf_def)
  have "\<forall>i \<in> set is. i < nr_inodes (sbi s) \<and> inode_fits (inodes s i)"
    using w consistent_nodes [OF c(1)] by (auto simp: all_written_def)
  from write_inodes_spec [OF wb c(2) env this, folded s0_def] have s0: "wf_bufs s0" "sbi s0 = q"
    "\<forall>b. b = 0 \<or> nr_istore_blocks q < b \<longrightarrow> bufs s0 b = bufs s b"
    "\<forall>j < nr_inodes q. stored_inode s0 j = (if j \<in> set is then inodes s j else stored_inode s j)" by (simp_all add: q_def)
  have st0: "stored_inode s0 i = inodes s i" if "i \<in> nodes (tree_of s)" for i
    using s0(4) w that consistent_nodes [OF c(1) that] by (auto simp: all_written_def q_def)
  have "sb_shape (sbi s0)" using c(2) s0(2) by (simp add: mounted_def q_def)
  from sync_fs_spec [OF s0(1) this env] obtain s2 where s2: "ouichefs_sync_fs env True s0 = Some (0, s2)" "wf_bufs s2"
    "bufs s2 0 = store_sb q (bufs s0 0)"
    "\<forall>k < nr_ifree_blocks q. bufs s2 (nr_istore_blocks q + 1 + k) = chunk (ifree_bitmap q) k"
    "\<forall>k < nr_bfree_blocks q. bufs s2 (nr_istore_blocks q + nr_ifree_blocks q + 1 + k) = chunk (bfree_bitmap q) k"
    "\<forall>b. 0 < b \<longrightarrow> b < nr_istore_blocks q + 1 \<or> nr_istore_blocks q + nr_ifree_blocks q + 1 + nr_bfree_blocks q \<le> b \<longrightarrow> bufs s2 b = bufs s0 b"
    unfolding s0(2) by blast
  define s1 where "s1 = s2\<lparr>media := bufs s2, dirty := (\<lambda>_. False)\<rparr>"
  have "unmount env is s = Some (0, s1)" using s2(1) by (simp add: unmount_def s0_def [symmetric] s1_def)
  moreover have "wf_bufs s1" using s2(2) by (simp add: wf_bufs_def s1_def)
  moreover have "bufs s1 b = bufs s b" if "first_data_block q \<le> b" for b
    using that s0(3) s2(6) by (simp add: s1_def first_data_block_def)
  moreover have "stored_inode s1 i = inodes s i" if "i \<in> nodes (tree_of s)" for i
  proof -
    have "i < nr_inodes (sbi s)" using consistent_nodes [OF c(1) that] by simp
    from inode_block_range [OF c(2) this] have "bufs s1 (inode_block i) = bufs s0 (inode_block i)" using s2(6) by (simp add: s1_def q_def)
    then show ?thesis using st0 [OF that] by (simp add: stored_inode_def)
  qed
  ultimately show ?thesis
    using s2(3-5) s0(3) wf_bufs_length [OF s2(2)] by (intro exI [of _ s1]) (simp add: s1_def holds_all_def q_def Let_def stored_inode_def)
qed

lemma mount_shows:
  assumes c: "consistent s" "mounted s" and env: "mount_ok env" "sys_env env" "\<forall>i. iget_locked env i = Some True"
    and t: "holds_all s (bufs t)"
  defines "T \<equiv> tree_of s"
  shows "\<exists>t'. ouichefs_fill_super env t = (0, t') \<and> (\<forall>js. set js = nodes T - {root_ino} \<longrightarrow> represents (read_inodes env js t') T \<and> mounted (read_inodes env js t'))"
proof -
  define q where "q = sbi s"
  have r: "represents s T" using c(1) by (simp add: consistent_def T_def)
  have br: "\<forall>b. bread_ok env b" using env(1) by (simp add: mount_ok_def)
  have root: "root_ino \<in> nodes T" using tree_okD(1) [OF representsD(3) [OF r]] by (simp add: nodes_def)
  have h: "wf_bufs t" "bufs t 0 = store_sb q (bufs s 0)" "\<forall>b. first_data_block q \<le> b \<longrightarrow> bufs t b = bufs s b"
    "\<forall>k < nr_ifree_blocks q. bufs t (nr_istore_blocks q + 1 + k) = chunk (ifree_bitmap q) k"
    "\<forall>k < nr_bfree_blocks q. bufs t (nr_istore_blocks q + nr_ifree_blocks q + 1 + k) = chunk (bfree_bitmap q) k"
    "\<And>i. i \<in> nodes T \<Longrightarrow> stored_inode t i = inodes s i"
    using t by (simp_all add: holds_all_def Let_def q_def wf_bufs_def OUICHEFS_BLOCK_SIZE_def stored_inode_def T_def)
  have sb: "sb_shape q" "1 < nr_inodes q" "length (bufs s 0) = 4096" "get32 (bufs s 0) 0 = OUICHEFS_MAGIC"
    using c(2) consistent_nodes [OF c(1) root [unfolded T_def]] wf_bufs_length [of s 0] representsD(1) [OF r]
    by (simp_all add: mounted_def q_def root_ino_def fs_wf_def)
  from mount_synced [OF env(1) sb h(2,4,5)] obtain uid gid t' where t': "ouichefs_fill_super env t = (0, t')" "sbi t' = q" "bufs t' = bufs t"
    "inodes t' 1 = (stored_inode t 1)\<lparr>i_uid := uid, i_gid := gid, i_mode := snd (snd (init_owner env None (i_mode (stored_inode t 1))))\<rparr>"
    unfolding stored_inode_def by auto
  have "represents (read_inodes env js t') T \<and> mounted (read_inodes env js t')" if js: "set js = nodes T - {root_ino}" for js
  proof -
    define u where "u = read_inodes env js t'"
    have "\<forall>i \<in> set js. i < nr_inodes (sbi t') \<and> iget_locked env i = Some True"
      using js consistent_nodes [OF c(1)] env(3) t'(2) by (auto simp: q_def T_def)
    note ri = read_inodes_spec [OF br this, folded u_def]
    have ut: "stored_inode t' = stored_inode t" using t'(3) by (simp add: stored_inode_def fun_eq_iff)
    have i1: "inodes u i = inodes s i" if "i \<in> nodes T" "i \<noteq> root_ino" for i using ri [of i] js that h(6) ut by simp
    have i2: "index_block (inodes u root_ino) = index_block (inodes s root_ino)"
      "S_ISDIR (i_mode (inodes u root_ino)) = S_ISDIR (i_mode (inodes s root_ino))"
      using ri [of root_ino] js t'(4) h(6) [OF root] env(2) by (simp_all add: root_ino_def sys_env_def S_ISDIR_def)
    have nf: "files T root_ino = None" using tree_okD(1) [OF representsD(3) [OF r]] tree_okD(2) [OF representsD(3) [OF r], of root_ino] by auto
    have "mounted u" using c(2) ri [of 0] t'(2,3) h(2) store_sb_facts(2) [OF sb(3), of q] by (simp add: mounted_def q_def)
    moreover have "represents u T"
    proof (rule represents_cong [OF r])
      have sb: "sbi u = sbi s" using ri t'(2) by (simp add: q_def)
      have "wf_bufs u" using ri t'(3) h(1) by (simp add: wf_bufs_def)
      then show "fs_wf u" "inode_map_wf (sbi u)" using representsD(1,2) [OF r] sb by (simp_all add: fs_wf_def)
      show "used_inodes (sbi u) = used_inodes (sbi s)" "free_blocks (sbi u) = free_blocks (sbi s)"
        "first_data_block (sbi u) = first_data_block (sbi s)" "nr_blocks (sbi u) = nr_blocks (sbi s)" using sb by simp_all
      show "bufs u b = bufs s b" if "first_data_block (sbi s) \<le> b" for b using ri t'(3) h(3) that by (simp add: q_def)
      show "inodes u i = inodes s i" if "files T i = Some c" for i c using that nf by (intro i1) (auto simp: in_nodes)
      show "index_block (inodes u d) = index_block (inodes s d) \<and> S_ISDIR (i_mode (inodes u d)) = S_ISDIR (i_mode (inodes s d))"
        if "dirs T d = Some m" for d m using that i1 [of d] i2 by (cases "d = root_ino") (simp_all add: in_nodes)
    qed
    ultimately show ?thesis by (simp add: u_def)
  qed
  then show ?thesis using t'(1) by blast
qed


section \<open>The demo partition with its metadata\<close>

text \<open>The demo partition with a superblock, whole bitmap blocks, and as many inodes as its store holds.\<close>

definition demo_whole_sb :: sb_info where
  "demo_whole_sb = demo_sb\<lparr>nr_inodes := 51, nr_free_inodes := 47,
     ifree_bitmap := ifree_bitmap demo_sb @ replicate 4089 0, bfree_bitmap := bfree_bitmap demo_sb @ replicate 4094 0\<rparr>"

definition demo_whole :: fs where
  "demo_whole = set_buf 0 (put_fields [(0, le32_bytes OUICHEFS_MAGIC)] (replicate 4096 0)) (demo_dir\<lparr>sbi := demo_whole_sb\<rparr>)"

lemma ones_append: "n \<le> bitmap_bits bm \<Longrightarrow> ones (bm @ rest) n = ones bm n"
  by (auto simp: ones_def test_bit_def bitmap_bits_def nth_append less_mult_imp_div_less mult.commute)

lemma demo_whole_free: "free_inodes demo_whole_sb = {4..<51}" "free_blocks demo_whole_sb = free_blocks demo_sb"
proof -
  have "free_inodes demo_whole_sb = ones (ifree_bitmap demo_sb) 51"
    using ones_append [of 51 "ifree_bitmap demo_sb"] by (simp add: free_inodes_def demo_whole_sb_def) (simp add: demo_sb_def bitmap_bits_def)
  also have "\<dots> = free_inodes demo_sb \<inter> {..<51}" by (auto simp: free_inodes_def ones_def)
  finally show "free_inodes demo_whole_sb = {4..<51}" using demo_free_inodes by auto
  show "free_blocks demo_whole_sb = free_blocks demo_sb"
    using ones_append [of 16 "bfree_bitmap demo_sb"] by (simp add: free_blocks_def demo_whole_sb_def) (simp add: demo_sb_def bitmap_bits_def)
qed

lemma demo_whole_sb_wf: "sb_shape demo_whole_sb" "block_map_wf demo_whole_sb" "inode_map_wf demo_whole_sb"
proof -
  show "sb_shape demo_whole_sb" by (simp add: demo_whole_sb_def sb_shape_def sb_fits_def demo_sb_def)
  show "block_map_wf demo_whole_sb" using demo_free demo_whole_free(2)
    by (simp add: block_map_wf_def) (simp add: demo_whole_sb_def demo_sb_def bitmap_bits_def)
  show "inode_map_wf demo_whole_sb" using demo_whole_free(1)
    by (simp add: inode_map_wf_def) (simp add: demo_whole_sb_def demo_sb_def bitmap_bits_def)
qed

lemma demo_whole_represents: "represents demo_whole demo_tree" "mounted demo_whole"
proof -
  have sb: "sbi demo_whole = demo_whole_sb" by (simp add: demo_whole_def)
  have "length (put_fields [(0, le32_bytes OUICHEFS_MAGIC)] (replicate 4096 0)) = 4096" by simp
  then have wf: "wf_bufs demo_whole" using demo_dir_wf(1) by (simp add: demo_whole_def wf_bufs_set_buf fs_wf_def del: put_fields.simps)
  have "get32 (bufs demo_whole 0) 0 = OUICHEFS_MAGIC"
    using get_put_fields(1) [of 0 4 "[(0, le32_bytes OUICHEFS_MAGIC)]" "replicate 4096 0" 0 OUICHEFS_MAGIC]
    by (simp add: demo_whole_def)
  then show "mounted demo_whole" using demo_whole_sb_wf(1) by (simp add: mounted_def sb) (simp add: demo_whole_sb_def demo_sb_def)
  show "represents demo_whole demo_tree"
  proof (rule represents_cong [OF demo_represents])
    show "fs_wf demo_whole" using wf demo_whole_sb_wf(2) by (simp add: fs_wf_def sb) (simp add: demo_whole_sb_def)
    show "inode_map_wf (sbi demo_whole)" using demo_whole_sb_wf(3) sb by simp
    have "nr_inodes demo_whole_sb = 51" by (simp add: demo_whole_sb_def)
    then show "used_inodes (sbi demo_whole) = used_inodes (sbi demo_dir)"
      by (auto simp: used_inodes_def sb demo_whole_free(1) demo_free_inodes)
    show "free_blocks (sbi demo_whole) = free_blocks (sbi demo_dir)" using sb demo_whole_free(2) by simp
    show "first_data_block (sbi demo_whole) = first_data_block (sbi demo_dir)" "nr_blocks (sbi demo_whole) = nr_blocks (sbi demo_dir)"
      by (simp_all add: sb demo_whole_sb_def first_data_block_def)
    show "bufs demo_whole b = bufs demo_dir b" if "first_data_block (sbi demo_dir) \<le> b" for b
      using that by (simp add: demo_whole_def first_data_block_def)
  qed (simp_all add: demo_whole_def)
qed


end
