(* ===== verification/Ioctl.thy ===== *)
theory Ioctl
  imports Sessions
begin

text \<open>
  ioctl.c and ioctl.h: the commands on an open file. \<open>argp\<close> is the user memory behind the argument.
  What the functions print is a list of messages, one constructor per format string (the prefix
  that \<open>pr_fmt\<close> adds is left out); \<open>isprint\<close> of the kernel is a parameter.
\<close>

section \<open>The commands\<close>

record file_info =
  wasted :: int
  nb_blocks :: int
  hide_display :: int

text \<open>The structure in memory: three 32-bit integers.\<close>

definition load_file_info :: "byte list \<Rightarrow> file_info" where
  "load_file_info bs =
     (let ws = u32s_of_bytes bs in \<lparr>wasted = sint (ws ! 0), nb_blocks = sint (ws ! 1), hide_display = sint (ws ! 2)\<rparr>)"

definition store_file_info :: "file_info \<Rightarrow> byte list" where
  "store_file_info fi =
     bytes_of_u32s [word_of_int (wasted fi), word_of_int (nb_blocks fi), word_of_int (hide_display fi)]"

text \<open>The command numbers: direction, size of the argument, type and number in bits 30, 16, 8 and 0.\<close>

definition ioc :: "u32_word \<Rightarrow> u32_word \<Rightarrow> u32_word \<Rightarrow> u32_word \<Rightarrow> u32_word" where
  "ioc dir type nr sz = push_bit 30 dir OR push_bit 8 type OR nr OR push_bit 16 sz"

definition ioc_type :: "u32_word \<Rightarrow> u32_word" where
  "ioc_type cmd = drop_bit 8 cmd AND 0xff"

definition OUICHEFS_IOCTL_MAGIC :: u32_word where "OUICHEFS_IOCTL_MAGIC = 0x4e"

definition OUICHEFS_IOC_FILE_INFO :: u32_word where
  "OUICHEFS_IOC_FILE_INFO = ioc 3 OUICHEFS_IOCTL_MAGIC 1 12"

definition OUICHEFS_IOC_DEFRAG :: u32_word where
  "OUICHEFS_IOC_DEFRAG = ioc 0 OUICHEFS_IOCTL_MAGIC 2 0"

definition OUICHEFS_IOC_FILE_BLOCK_PRINT :: u32_word where
  "OUICHEFS_IOC_FILE_BLOCK_PRINT = ioc 0 OUICHEFS_IOCTL_MAGIC 3 0"

section \<open>Messages\<close>

datatype msg =
    Msg_file int nat           \<comment> \<open>size and number of data blocks\<close>
  | Msg_newline
  | Msg_entry nat int          \<comment> \<open>\<open>%u:%u\<close>: block number and size\<close>
  | Msg_comma
  | Msg_totals int int         \<comment> \<open>wasted bytes and partial blocks\<close>
  | Msg_block int nat int      \<comment> \<open>\<open>%d: block with id %u and size %u:\<close>\<close>
  | Msg_indent
  | Msg_wrap                   \<comment> \<open>a new, indented line inside the bytes of a block\<close>
  | Msg_char byte              \<comment> \<open>\<open>%c\<close>\<close>
  | Msg_nul | Msg_nl | Msg_unprintable
  | Msg_error string

section \<open>The operations\<close>

function file_info_loop ::
    "bool \<Rightarrow> nat \<Rightarrow> entry list \<Rightarrow> nat \<Rightarrow> nat \<Rightarrow> nat \<Rightarrow> msg list \<Rightarrow> (nat \<times> nat \<times> msg list) option" where
  "file_info_loop display blocks idx i total_wasted nb_partial_block log =
     (if i < u64 (int blocks - 1) then
        do { block \<leftarrow> arr idx (int i);
             let block_size = get_block_size block;
             let waste = u32 (int OUICHEFS_BLOCK_SIZE - block_size);
             let log = (if display then log @ [Msg_entry (get_block_number block) block_size] else log);
             let log = (if display \<and> i < u64 (int blocks - 2) then log @ [Msg_comma] else log);
             let log = (if display \<and> i mod 10 = 9 then log @ [Msg_newline] else log);
             file_info_loop display blocks idx (Suc i) (u32 (int (total_wasted + waste)))
               (if waste \<noteq> 0 then u32 (int nb_partial_block + 1) else nb_partial_block) log }
      else Some (total_wasted, nb_partial_block, log))"
  by pat_completeness auto
termination
  by (relation "measure (\<lambda>(display, blocks, idx, i, _). length idx - i)") (auto dest!: arr_SomeD)

declare file_info_loop.simps [simp del]

definition ouichefs_ioctl_file_info ::
    "kenv \<Rightarrow> file \<Rightarrow> byte list \<Rightarrow> fs \<Rightarrow> (int \<times> byte list \<times> msg list) option" where
  "ouichefs_ioctl_file_info env f argp s =
     (case copy_from_user env argp 0 12 of (r, bytes) \<Rightarrow>
      if r \<noteq> 0 then Some (- EFAULT, argp, [Msg_error ''copy_from_user() failed''])
      else
        (let user_file_info = load_file_info bytes;
             display = (hide_display user_file_info = 0);
             inode = inodes s (f_inode f);
             log = (if display then [Msg_file (i_size inode) (u64 (int (i_blocks inode) - 1))] else [])
         in
         if \<not> bread_ok env (index_block inode)
         then Some (- EFAULT, argp, log @ [Msg_error ''could not read index block''])
         else
           do { let log = (if display \<and> i_blocks inode > 10 then log @ [Msg_newline] else log);
                (total_wasted, nb_partial_block, log) \<leftarrow>
                  file_info_loop display (i_blocks inode) (load_index s (index_block inode)) 0 0 0 log;
                let log = (if display then log @ [Msg_totals (s32 (int total_wasted)) (s32 (int nb_partial_block))] else log);
                let user_file_info = user_file_info\<lparr>wasted := s32 (int total_wasted), nb_blocks := s32 (int (i_blocks inode) - 1)\<rparr>;
                Some (case copy_to_user env argp 0 (store_file_info user_file_info) of (r, argp) \<Rightarrow>
                      if r \<noteq> 0 then (- EFAULT, argp, log @ [Msg_error ''copy_to_user() failed''])
                      else (0, argp, log)) }))"

text \<open>\<open>pr_buf\<close> of the \<open>len\<close> bytes from \<open>i\<close> on, with \<open>new_line\<close> characters on the line so far.\<close>

fun pr_buf_loop :: "(byte \<Rightarrow> bool) \<Rightarrow> byte list \<Rightarrow> nat \<Rightarrow> nat \<Rightarrow> nat \<Rightarrow> msg list option" where
  "pr_buf_loop isprint buf i 0 new_line = Some []"
| "pr_buf_loop isprint buf i (Suc len) new_line =
     do { c \<leftarrow> arr buf (int i);
          let (wrap, new_line) = (if new_line > 100 then ([Msg_wrap], 0) else ([], new_line));
          let (m, w) = (if isprint c then (Msg_char c, 1)
                        else if c = 0 then (Msg_nul, 2)
                        else if c = 10 then (Msg_nl, 2)
                        else (Msg_unprintable, 1));
          log \<leftarrow> pr_buf_loop isprint buf (Suc i) len (new_line + w);
          Some (wrap @ m # log) }"

definition pr_buf :: "(byte \<Rightarrow> bool) \<Rightarrow> byte list \<Rightarrow> nat \<Rightarrow> msg list option" where
  "pr_buf isprint buf len = pr_buf_loop isprint buf 0 len 0"

function block_print_loop ::
    "kenv \<Rightarrow> (byte \<Rightarrow> bool) \<Rightarrow> nat \<Rightarrow> entry list \<Rightarrow> fs \<Rightarrow> nat \<Rightarrow> msg list \<Rightarrow> msg list option" where
  "block_print_loop env isprint blocks idx s i log =
     (if i < u64 (int blocks - 1) then
        do { bno \<leftarrow> arr idx (int i);
             let block_size = get_block_size bno;
             let log = log @ [Msg_block (int i) (get_block_number bno) block_size];
             if \<not> bread_ok env (get_block_number bno) then Some log
             else
               do { chars \<leftarrow> pr_buf isprint (bufs s (get_block_number bno)) (nat block_size);
                    let log = log @ [Msg_indent] @ chars @ [Msg_newline];
                    block_print_loop env isprint blocks idx s (Suc i) log } }
      else Some log)"
  by pat_completeness auto
termination
  by (relation "measure (\<lambda>(env, isprint, blocks, idx, s, i, log). length idx - i)") (auto dest!: arr_SomeD)

declare block_print_loop.simps [simp del]

definition ouichefs_ioctl_file_block_print ::
    "kenv \<Rightarrow> (byte \<Rightarrow> bool) \<Rightarrow> file \<Rightarrow> fs \<Rightarrow> (int \<times> msg list) option" where
  "ouichefs_ioctl_file_block_print env isprint f s =
     (let inode = inodes s (f_inode f);
          log = [Msg_file (i_size inode) (u64 (int (i_blocks inode) - 1))]
      in
      if \<not> bread_ok env (index_block inode) then Some (- EFAULT, log @ [Msg_error ''could not read index block''])
      else
        do { log \<leftarrow> block_print_loop env isprint (i_blocks inode) (load_index s (index_block inode)) s 0 log;
             Some (0, log) })"

definition ouichefs_ioctl_defrag :: "kenv \<Rightarrow> file \<Rightarrow> fs \<Rightarrow> (int \<times> fs) option" where
  "ouichefs_ioctl_defrag env f s = ouichefs_defrag env f s"

definition ouichefs_ioctl ::
    "kenv \<Rightarrow> (byte \<Rightarrow> bool) \<Rightarrow> file \<Rightarrow> u32_word \<Rightarrow> byte list \<Rightarrow> fs \<Rightarrow> (int \<times> byte list \<times> msg list \<times> fs) option" where
  "ouichefs_ioctl env isprint f cmd argp s =
     (if ioc_type cmd \<noteq> OUICHEFS_IOCTL_MAGIC then Some (- EINVAL, argp, [], s)
      else if cmd = OUICHEFS_IOC_FILE_INFO then
        do { (ret, argp, log) \<leftarrow> ouichefs_ioctl_file_info env f argp s; Some (ret, argp, log, s) }
      else if cmd = OUICHEFS_IOC_DEFRAG then
        do { (ret, s) \<leftarrow> ouichefs_ioctl_defrag env f s; Some (ret, argp, [], s) }
      else if cmd = OUICHEFS_IOC_FILE_BLOCK_PRINT then
        do { (ret, log) \<leftarrow> ouichefs_ioctl_file_block_print env isprint f s; Some (ret, argp, log, s) }
      else Some (- EINVAL, argp, [], s))"

section \<open>What is shown\<close>

text \<open>The entries a log lists, and the bytes it shows (\<open>None\<close> for a byte shown as a question mark).\<close>

fun shown_entries :: "msg list \<Rightarrow> (nat \<times> int) list" where
  "shown_entries [] = []"
| "shown_entries (m # log) = (case m of Msg_entry b sz \<Rightarrow> [(b, sz)] | _ \<Rightarrow> []) @ shown_entries log"

definition shown_byte :: "msg \<Rightarrow> byte option list" where
  "shown_byte m = (case m of Msg_char c \<Rightarrow> [Some c] | Msg_nul \<Rightarrow> [Some 0] | Msg_nl \<Rightarrow> [Some 10]
                   | Msg_unprintable \<Rightarrow> [None] | _ \<Rightarrow> [])"

definition shown_bytes :: "msg list \<Rightarrow> byte option list" where
  "shown_bytes log = concat (map shown_byte log)"

definition visible :: "(byte \<Rightarrow> bool) \<Rightarrow> byte \<Rightarrow> byte option" where
  "visible isprint c = (if isprint c \<or> c = 0 \<or> c = 10 then Some c else None)"

lemma shown_entries_append [simp]: "shown_entries (a @ b) = shown_entries a @ shown_entries b"
  by (induction a) simp_all

lemma shown_bytes_simps [simp]:
  "shown_bytes [] = []" "shown_bytes (m # log) = shown_byte m @ shown_bytes log"
  "shown_bytes (a @ b) = shown_bytes a @ shown_bytes b"
  by (simp_all add: shown_bytes_def)

lemma shown_byte_other [simp]:
  "shown_byte (Msg_file a b) = []" "shown_byte (Msg_block i b sz) = []" "shown_byte Msg_indent = []"
  "shown_byte Msg_newline = []" "shown_byte Msg_wrap = []"
  by (simp_all add: shown_byte_def)

section \<open>The file information\<close>

lemma file_info_loop_spec:
  assumes "n \<le> length idx" "n \<le> 1024" "i \<le> n" "t + 4096 * (n - i) < 2 ^ 31" "p + (n - i) < 2 ^ 31"
  shows "\<exists>log'. file_info_loop d (Suc n) idx i t p log =
      Some (nat (int t + 4096 * int (n - i) - total_size (drop i (take n idx))),
            p + length (filter (\<lambda>e. get_block_size e \<noteq> 4096) (drop i (take n idx))), log @ log') \<and>
    shown_entries log' = (if d then map (\<lambda>e. (get_block_number e, get_block_size e)) (drop i (take n idx)) else []) \<and>
    (\<not> d \<longrightarrow> log' = [])"
  using assms
proof (induction "n - i" arbitrary: i t p log)
  case 0
  then show ?case by (auto simp: file_info_loop.simps [of d _ idx i] u64_id)
next
  case (Suc k)
  then have i: "i < n" and k: "k = n - Suc i" by auto
  define e w where "e = idx ! i" and "w = nat (4096 - get_block_size e)"
  have w: "int w = 4096 - get_block_size e" "w \<le> 4096" "u32 (int OUICHEFS_BLOCK_SIZE - get_block_size e) = w"
    using get_block_size_le [of e] get_block_size_nonneg [of e]
    by (auto simp: w_def OUICHEFS_BLOCK_SIZE_def u32_id simp del: get_block_size_nonneg)
  define pre where "pre = (if d then [Msg_entry (get_block_number e) (get_block_size e)] else [])
      @ (if d \<and> i < u64 (int (Suc n) - 2) then [Msg_comma] else []) @ (if d \<and> i mod 10 = 9 then [Msg_newline] else [])"
  define p' where "p' = (if w \<noteq> 0 then p + 1 else p)"
  have dr: "drop i (take n idx) = e # drop (Suc i) (take n idx)"
    using i Suc.prems(1) Cons_nth_drop_Suc [of i "take n idx"] by (simp add: e_def)
  have "u32 (int (t + w)) = t + w" "u32 (int p + 1) = p + 1"
    using Suc.prems(4,5) w(2) i by (simp_all add: u32_id nat_add_distrib)
  then have step: "file_info_loop d (Suc n) idx i t p log = file_info_loop d (Suc n) idx (Suc i) (t + w) p' (log @ pre)"
    using i Suc.prems(1,2) w(3)
    by (simp add: file_info_loop.simps [of d _ idx i] u64_id arr_int e_def [symmetric] p'_def pre_def)
  have "t + w + 4096 * (n - Suc i) < 2 ^ 31" "p' + (n - Suc i) < 2 ^ 31"
    using Suc.prems(4,5) w(2) i by (auto simp: p'_def)
  from Suc.hyps(1) [OF k Suc.prems(1,2) _ this, of "log @ pre"] i obtain log' where l:
    "file_info_loop d (Suc n) idx (Suc i) (t + w) p' (log @ pre) =
      Some (nat (int (t + w) + 4096 * int (n - Suc i) - total_size (drop (Suc i) (take n idx))),
            p' + length (filter (\<lambda>e. get_block_size e \<noteq> 4096) (drop (Suc i) (take n idx))), (log @ pre) @ log')"
    "shown_entries log' = (if d then map (\<lambda>e. (get_block_number e, get_block_size e)) (drop (Suc i) (take n idx)) else [])"
    "\<not> d \<longrightarrow> log' = []" by auto
  have "int (t + w) + 4096 * int (n - Suc i) - total_size (drop (Suc i) (take n idx)) =
      int t + 4096 * int (n - i) - total_size (drop i (take n idx))"
    using w(1) i dr by (simp add: of_nat_diff algebra_simps)
  moreover have "p' + length (filter (\<lambda>e. get_block_size e \<noteq> 4096) (drop (Suc i) (take n idx))) =
      p + length (filter (\<lambda>e. get_block_size e \<noteq> 4096) (drop i (take n idx)))"
    using w(1) dr by (auto simp: p'_def)
  moreover have "shown_entries (pre @ log') =
      (if d then map (\<lambda>e. (get_block_number e, get_block_size e)) (drop i (take n idx)) else [])" "\<not> d \<longrightarrow> pre @ log' = []"
    using l(2,3) dr by (simp_all add: pre_def)
  ultimately show ?case using step l(1) by (intro exI [of _ "pre @ log'"]) simp
qed

lemma load_store_file_info:
  "\<lbrakk>- (2 ^ 31) \<le> a; a < 2 ^ 31; - (2 ^ 31) \<le> b; b < 2 ^ 31; - (2 ^ 31) \<le> c; c < 2 ^ 31\<rbrakk> \<Longrightarrow>
   load_file_info (store_file_info \<lparr>wasted = a, nb_blocks = b, hide_display = c\<rparr>) =
     \<lparr>wasted = a, nb_blocks = b, hide_display = c\<rparr>"
  by (simp add: load_file_info_def store_file_info_def u32s_of_bytes_inverse Let_def signed_of_int signed_take_bit_int_eq_self
      del: bytes_of_u32s.simps)

lemma length_store_file_info [simp]: "length (store_file_info fi) = 12"
  by (simp add: store_file_info_def length_bytes_of_u32s del: bytes_of_u32s.simps)

lemma hide_display_range: "- (2 ^ 31) \<le> hide_display (load_file_info bs) \<and> hide_display (load_file_info bs) < 2 ^ 31"
  using sint_range_size [of "u32s_of_bytes bs ! 2"] by (simp add: load_file_info_def Let_def word_size)

lemma file_info_done:
  assumes wf: "fs_wf s" "file_wf s ino" and f: "f_inode f = ino" and ok: "disk_ok env s"
    and u: "length argp = 12"
  defines "es \<equiv> data_entries s ino" and "fi \<equiv> load_file_info argp"
  shows "\<exists>argp' log. ouichefs_ioctl_file_info env f argp s = Some (0, argp', log) \<and> length argp' = 12 \<and>
    load_file_info argp' = fi\<lparr>wasted := 4096 * int (length es) - i_size (inodes s ino), nb_blocks := int (length es)\<rparr> \<and>
    (if hide_display fi = 0 then shown_entries log = map (\<lambda>e. (get_block_number e, get_block_size e)) es else log = [])"
proof -
  define I n idx d where "I = inodes s ino" and "n = length es" and "idx = load_index s (index_block I)"
    and "d \<longleftrightarrow> hide_display fi = 0"
  note ix = file_wf_index [OF wf, folded I_def idx_def]
  have n: "i_blocks I = Suc n" "n \<le> 1024" "length idx = 1024" "take n idx = es" "i_size I = total_size es"
    using ix(8) ix(1,2,3,4,6) unfolding n_def es_def I_def by metis+
  have br: "bread_ok env (index_block I)"
    using disk_ok_index [OF wf(2) ok] by (simp add: I_def)
  have cf: "copy_from_user env argp 0 12 = (0, argp)" using u ok by (simp add: copy_from_user_def disk_ok_def)
  define w where "w = 4096 * int n - i_size I"
  have w: "0 \<le> w" "w \<le> 4194304" using total_size_bound [of es] total_size_nonneg [of es] n(2,5) by (auto simp: w_def n_def simp del: total_size_nonneg)
  define log0 where "log0 = (if d then [Msg_file (i_size I) n] @ (if i_blocks I > 10 then [Msg_newline] else []) else [])"
  define p where "p = length (filter (\<lambda>e. get_block_size e \<noteq> 4096) es)"
  have "\<exists>log'. file_info_loop d (Suc n) idx 0 0 0 log0 = Some (nat w, p, log0 @ log') \<and>
      shown_entries log' = (if d then map (\<lambda>e. (get_block_number e, get_block_size e)) es else []) \<and> (\<not> d \<longrightarrow> log' = [])"
    using file_info_loop_spec [of n idx 0 0 0 d log0] n by (simp add: w_def p_def cong: if_cong)
  then obtain log' where lp:
    "file_info_loop d (Suc n) idx 0 0 0 log0 = Some (nat w, p, log0 @ log')"
    "shown_entries log' = (if d then map (\<lambda>e. (get_block_number e, get_block_size e)) es else [])" "\<not> d \<longrightarrow> log' = []"
    by blast
  define fi' where "fi' = fi\<lparr>wasted := w, nb_blocks := int n\<rparr>"
  define log where "log = log0 @ log' @ (if d then [Msg_totals w (s32 (int p))] else [])"
  have u64n: "u64 (int n) = n" using n(2) by (simp add: u64_id)
  have s: "s32 w = w" "s32 (int n) = int n" using w n(2) by (simp_all add: s32_id)
  have ct: "copy_to_user env argp 0 (store_file_info fi') = (0, store_file_info fi')"
    using u ok by (simp add: copy_to_user_def overlay_def disk_ok_def)
  have "ouichefs_ioctl_file_info env f argp s = Some (0, store_file_info fi', log)"
    unfolding ouichefs_ioctl_file_info_def cf f
    using br lp(1) ct w(1) by (simp add: I_def [symmetric] idx_def [symmetric] fi_def [symmetric] n(1) u64n s Let_def fi'_def
        d_def [symmetric] log0_def log_def split: if_splits)
  moreover have "load_file_info (store_file_info fi') = fi'"
    using load_store_file_info [of w "int n" "hide_display fi"] hide_display_range [of argp] w n(2)
    by (simp add: fi'_def fi_def load_file_info_def Let_def)
  moreover have "shown_entries log0 = []" by (simp add: log0_def)
  then have "if d then shown_entries log = map (\<lambda>e. (get_block_number e, get_block_size e)) es else log = []"
    using lp(2,3) by (simp add: log_def) (simp add: log0_def)
  ultimately show ?thesis by (intro exI [of _ "store_file_info fi'"] exI [of _ log]) (simp add: fi'_def d_def w_def n_def I_def)
qed

section \<open>The printed blocks\<close>

lemma pr_buf_loop_spec:
  "i + len \<le> length buf \<Longrightarrow> \<exists>log. pr_buf_loop isprint buf i len nl = Some log \<and>
     shown_bytes log = map (visible isprint) (take len (drop i buf))"
proof (induction len arbitrary: i nl)
  case (Suc len)
  define c where "c = buf ! i"
  have b: "arr buf (int i) = Some c" "take (Suc len) (drop i buf) = c # take len (drop (Suc i) buf)"
    using Suc.prems by (simp_all add: arr_int c_def Cons_nth_drop_Suc [symmetric])
  have IH: "\<exists>log. pr_buf_loop isprint buf (Suc i) len n = Some log \<and>
      shown_bytes log = map (visible isprint) (take len (drop (Suc i) buf))" for n
    using Suc.IH [of "Suc i" n] Suc.prems by simp
  show ?case
    using IH [of "Suc (if 100 < nl then 0 else nl)"] IH [of "Suc (Suc (if 100 < nl then 0 else nl))"]
    by (auto simp: b visible_def shown_byte_def numeral_2_eq_2 split: prod.splits)
qed simp

text \<open>The loop prints the blocks up to the first one that cannot be read.\<close>

lemma block_print_loop_spec:
  assumes "n \<le> length idx" "n \<le> 1024" "i \<le> n" "wf_bufs s"
  shows "\<exists>log'. block_print_loop env isprint (Suc n) idx s i log = Some (log @ log') \<and>
    shown_bytes log' = map (visible isprint)
      (fragments (bufs s) (takeWhile (\<lambda>e. bread_ok env (get_block_number e)) (drop i (take n idx))))"
  using assms
proof (induction "n - i" arbitrary: i log)
  case 0
  then show ?case by (auto simp: block_print_loop.simps [of env isprint _ idx s i] u64_id)
next
  case (Suc k)
  then have i: "i < n" and k: "k = n - Suc i" by auto
  define e where "e = idx ! i"
  have dr: "drop i (take n idx) = e # drop (Suc i) (take n idx)"
    using i Suc.prems(1) Cons_nth_drop_Suc [of i "take n idx"] by (simp add: e_def)
  have a: "arr idx (int i) = Some e" "i < u64 (int (Suc n) - 1)"
    using i Suc.prems(1,2) by (simp_all add: arr_int e_def u64_id)
  show ?case
  proof (cases "bread_ok env (get_block_number e)")
    case False
    then show ?thesis using a dr by (simp add: block_print_loop.simps [of env isprint _ idx s i] Let_def)
  next
    case True
    have "nat (get_block_size e) \<le> length (bufs s (get_block_number e))"
      using wf_bufs_length [OF Suc.prems(4)] get_block_size_le [of e] by simp
    then obtain chars where ch: "pr_buf isprint (bufs s (get_block_number e)) (nat (get_block_size e)) = Some chars"
      "shown_bytes chars = map (visible isprint) (fragment (bufs s) e)"
      using pr_buf_loop_spec [of 0 "nat (get_block_size e)"] by (fastforce simp: pr_buf_def fragment_def)
    define pre where "pre = Msg_block (int i) (get_block_number e) (get_block_size e) # Msg_indent # chars @ [Msg_newline]"
    from Suc.hyps(1) [OF k Suc.prems(1,2) _ Suc.prems(4), of "log @ pre"] i obtain log' where l:
      "block_print_loop env isprint (Suc n) idx s (Suc i) (log @ pre) = Some ((log @ pre) @ log')"
      "shown_bytes log' = map (visible isprint)
         (fragments (bufs s) (takeWhile (\<lambda>e. bread_ok env (get_block_number e)) (drop (Suc i) (take n idx))))" by auto
    have "block_print_loop env isprint (Suc n) idx s i log = block_print_loop env isprint (Suc n) idx s (Suc i) (log @ pre)"
      using a True ch(1) by (simp add: block_print_loop.simps [of env isprint _ idx s i] Let_def pre_def)
    then show ?thesis using l ch(2) dr True by (intro exI [of _ "pre @ log'"]) (simp add: pre_def)
  qed
qed

lemma block_print_done:
  assumes wf: "fs_wf s" "file_wf s ino" and f: "f_inode f = ino" and ok: "bread_ok env (index_block (inodes s ino))"
  defines "es \<equiv> takeWhile (\<lambda>e. bread_ok env (get_block_number e)) (data_entries s ino)"
  shows "\<exists>log. ouichefs_ioctl_file_block_print env isprint f s = Some (0, log) \<and>
    shown_bytes log = map (visible isprint) (fragments (bufs s) es)"
proof -
  define n where "n = i_blocks (inodes s ino) - 1"
  note ix = file_wf_index [OF wf, folded n_def]
  have "wf_bufs s" using wf(1) by (simp add: fs_wf_def)
  from block_print_loop_spec [of n "load_index s (index_block (inodes s ino))" 0 s env isprint "[Msg_file (i_size (inodes s ino)) n]"] ix this
  obtain log' where "block_print_loop env isprint (Suc n) (load_index s (index_block (inodes s ino))) s 0 [Msg_file (i_size (inodes s ino)) n] =
      Some (Msg_file (i_size (inodes s ino)) n # log')"
    "shown_bytes log' = map (visible isprint) (fragments (bufs s) es)"
    by (auto simp: es_def)
  moreover have "u64 (int n) = n" using ix(1) by (simp add: u64_id)
  ultimately show ?thesis using ok f ix(8) by (simp add: ouichefs_ioctl_file_block_print_def Let_def)
qed

section \<open>Properties\<close>

lemma ioctl_commands:
  "ioc_type OUICHEFS_IOC_FILE_INFO = OUICHEFS_IOCTL_MAGIC" "ioc_type OUICHEFS_IOC_DEFRAG = OUICHEFS_IOCTL_MAGIC"
  "ioc_type OUICHEFS_IOC_FILE_BLOCK_PRINT = OUICHEFS_IOCTL_MAGIC"
  "OUICHEFS_IOC_DEFRAG \<noteq> OUICHEFS_IOC_FILE_INFO" "OUICHEFS_IOC_FILE_BLOCK_PRINT \<noteq> OUICHEFS_IOC_FILE_INFO"
  "OUICHEFS_IOC_FILE_BLOCK_PRINT \<noteq> OUICHEFS_IOC_DEFRAG"
  by (simp_all add: ioc_def ioc_type_def OUICHEFS_IOC_FILE_INFO_def OUICHEFS_IOC_DEFRAG_def
      OUICHEFS_IOC_FILE_BLOCK_PRINT_def OUICHEFS_IOCTL_MAGIC_def)

lemma ioctl_file_info:
  assumes "fs_wf s" "file_wf s ino" "f_inode f = ino" "disk_ok env s" "length argp = 12"
  shows "\<exists>argp' log. ouichefs_ioctl env isprint f OUICHEFS_IOC_FILE_INFO argp s = Some (0, argp', log, s) \<and> length argp' = 12 \<and>
    load_file_info argp' = (load_file_info argp)\<lparr>wasted := 4096 * int (length (data_entries s ino)) - i_size (inodes s ino),
      nb_blocks := int (length (data_entries s ino))\<rparr> \<and>
    (if hide_display (load_file_info argp) = 0
     then shown_entries log = map (\<lambda>e. (get_block_number e, get_block_size e)) (data_entries s ino) else log = [])"
proof -
  from file_info_done [OF assms] obtain argp' log where i: "ouichefs_ioctl_file_info env f argp s = Some (0, argp', log)" and
    r: "length argp' = 12" "load_file_info argp' = (load_file_info argp)\<lparr>wasted := 4096 * int (length (data_entries s ino)) - i_size (inodes s ino),
      nb_blocks := int (length (data_entries s ino))\<rparr>" "if hide_display (load_file_info argp) = 0
     then shown_entries log = map (\<lambda>e. (get_block_number e, get_block_size e)) (data_entries s ino) else log = []"
    by blast
  have "ouichefs_ioctl env isprint f OUICHEFS_IOC_FILE_INFO argp s = Some (0, argp', log, s)"
    by (simp add: ouichefs_ioctl_def ioctl_commands i)
  with r show ?thesis by blast
qed

lemma ceil_padding: "n \<le> 4194304 \<Longrightarrow> 4096 * int (idiv_ceil n 4096) - int n = (- int n) mod 4096"
proof -
  assume n: "n \<le> 4194304"
  have e: "int n = 4096 * int (n div 4096) + int (n mod 4096)" by (metis mult_div_mod_eq of_nat_add of_nat_mult of_nat_numeral)
  have "n div 4096 + 1 < 2 ^ 32" using n by simp
  then have "idiv_ceil n 4096 = n div 4096 + (if n mod 4096 = 0 then 0 else 1)" by (simp add: idiv_ceil_def Let_def)
  moreover have "(- int n) mod 4096 = (if n mod 4096 = 0 then 0 else 4096 - int (n mod 4096))"
    by (simp add: zmod_zminus1_eq_if zmod_int [symmetric, of n 4096, simplified])
  ultimately show ?thesis using e by auto
qed

lemma ioctl_defrag:
  "ouichefs_ioctl env isprint f OUICHEFS_IOC_DEFRAG argp s =
     (case ouichefs_defrag env f s of None \<Rightarrow> None | Some (ret, s) \<Rightarrow> Some (ret, argp, [], s))"
  by (simp add: ouichefs_ioctl_def ioctl_commands ouichefs_ioctl_defrag_def split: option.splits)

text \<open>
  C28: The file information of a well-formed file: the command stores the padding of its blocks (block
  size times number of data blocks, minus the file size) and the number of data blocks in the
  user's structure, keeps the third field and the file system, and lists number and size of
  every data block, in order, exactly when the user did not hide the display.
\<close>

theorem file_info_reports:
  assumes "fs_wf s" "file_wf s ino" "f_inode f = ino" "disk_ok env s" "length argp = 12"
  shows "\<exists>argp' log. ouichefs_ioctl env isprint f OUICHEFS_IOC_FILE_INFO argp s = Some (0, argp', log, s) \<and>
    load_file_info argp' = (load_file_info argp)\<lparr>wasted := 4096 * int (length (data_entries s ino)) - i_size (inodes s ino),
      nb_blocks := int (length (data_entries s ino))\<rparr> \<and>
    (if hide_display (load_file_info argp) = 0
     then shown_entries log = map (\<lambda>e. (get_block_number e, get_block_size e)) (data_entries s ino) else log = [])"
  using ioctl_file_info [OF assms] by blast

lemma zero_file_info: "load_file_info (replicate 12 0) = \<lparr>wasted = 0, nb_blocks = 0, hide_display = 0\<rparr>"
  using u32s_of_zeros [of 3] by (simp add: load_file_info_def Let_def)

theorem file_info_reports_witness:
  "\<exists>argp' log. ouichefs_ioctl demo_env (\<lambda>c. True) (demo_file 3) OUICHEFS_IOC_FILE_INFO (replicate 12 0) demo_fs = Some (0, argp', log, demo_fs) \<and>
     load_file_info argp' = \<lparr>wasted = 8187, nb_blocks = 2, hide_display = 0\<rparr> \<and> shown_entries log = [(8, 3), (9, 2)]"
  using file_info_reports [OF demo_wf(1,3) demo_defrag(3,1), of "replicate 12 0"] by (simp add: zero_file_info)



text \<open>
  C30: The command that prints the blocks of a well-formed file shows exactly the bytes of its fragments, in
  the order of the file, up to the first block that cannot be read (a byte that is neither
  printable nor zero nor a newline is shown as a question mark), and returns 0 even when it
  stopped at such a block.
\<close>

theorem block_print_shows:
  assumes "fs_wf s" "file_wf s ino" "f_inode f = ino" "bread_ok env (index_block (inodes s ino))"
  shows "\<exists>log. ouichefs_ioctl env isprint f OUICHEFS_IOC_FILE_BLOCK_PRINT argp s = Some (0, argp, log, s) \<and>
    shown_bytes log = map (visible isprint)
      (fragments (bufs s) (takeWhile (\<lambda>e. bread_ok env (get_block_number e)) (data_entries s ino))) \<and>
    (disk_ok env s \<longrightarrow> shown_bytes log = map (visible isprint) (file_content s ino))"
proof -
  from block_print_done [OF assms] obtain log where l: "ouichefs_ioctl_file_block_print env isprint f s = Some (0, log)"
    "shown_bytes log = map (visible isprint)
      (fragments (bufs s) (takeWhile (\<lambda>e. bread_ok env (get_block_number e)) (data_entries s ino)))" by blast
  moreover have "disk_ok env s \<Longrightarrow> takeWhile (\<lambda>e. bread_ok env (get_block_number e)) (data_entries s ino) = data_entries s ino"
    using disk_ok_data [OF assms(2)] by (simp add: takeWhile_eq_all_conv)
  ultimately show ?thesis
    by (intro exI [of _ log]) (simp add: ouichefs_ioctl_def ioctl_commands file_content_def del: takeWhile_eq_all_conv)
qed

theorem block_print_shows_witness:
  "\<exists>log. ouichefs_ioctl (demo_env\<lparr>bread_ok := (\<lambda>b. b \<noteq> 9)\<rparr>) (\<lambda>c. c = 3) (demo_file 3) OUICHEFS_IOC_FILE_BLOCK_PRINT [] demo_fs =
     Some (0, [], log, demo_fs) \<and> shown_bytes log = [None, None, Some 3]"
proof -
  have "fragment (bufs demo_fs) (demo_entry 8 3) = [1, 2, 3]"
    by (simp add: fragment_def demo_bufs demo_bytes_def overlay_def)
  then show ?thesis
    using block_print_shows [OF demo_wf(1,3) demo_defrag(3), of "demo_env\<lparr>bread_ok := (\<lambda>b. b \<noteq> 9)\<rparr>" "\<lambda>c. c = 3" "[]"]
    by (auto simp: visible_def)
qed

text \<open>
  Only the defragmentation command changes the file system. Every other command that returns
  leaves it as it was and returns 0, -EFAULT or, exactly when it is none of the three known commands,
  -EINVAL, in which case it prints nothing and leaves the user's memory alone.
\<close>

theorem ioctl_safe:
  assumes "ouichefs_ioctl env isprint f cmd argp s = Some (ret, argp', log, s')" "cmd \<noteq> OUICHEFS_IOC_DEFRAG"
  shows "s' = s \<and> ret \<in> {0, - EFAULT, - EINVAL} \<and>
    (ret = - EINVAL \<longleftrightarrow> cmd \<noteq> OUICHEFS_IOC_FILE_INFO \<and> cmd \<noteq> OUICHEFS_IOC_FILE_BLOCK_PRINT) \<and>
    (ret = - EINVAL \<longrightarrow> argp' = argp \<and> log = [])"
proof -
  have fi: "ret \<in> {0, - EFAULT}" if "ouichefs_ioctl_file_info env f argp s = Some (ret, argp', log)" for ret argp' log
    using that by (auto simp: ouichefs_ioctl_file_info_def Let_def split: prod.splits if_splits bind_splits)
  have bp: "ret \<in> {0, - EFAULT}" if "ouichefs_ioctl_file_block_print env isprint f s = Some (ret, log)" for ret log
    using that by (auto simp: ouichefs_ioctl_file_block_print_def Let_def split: if_splits bind_splits)
  consider "cmd = OUICHEFS_IOC_FILE_INFO" | "cmd = OUICHEFS_IOC_FILE_BLOCK_PRINT"
    | "cmd \<noteq> OUICHEFS_IOC_FILE_INFO" "cmd \<noteq> OUICHEFS_IOC_FILE_BLOCK_PRINT" by blast
  then show ?thesis
  proof cases
    case 1
    with assms have "ouichefs_ioctl_file_info env f argp s = Some (ret, argp', log)" "s' = s"
      by (auto simp: ouichefs_ioctl_def ioctl_commands split: bind_splits)
    then show ?thesis using fi 1 by (fastforce simp: errno_defs)
  next
    case 2
    with assms have "ouichefs_ioctl_file_block_print env isprint f s = Some (ret, log)" "s' = s"
      by (auto simp: ouichefs_ioctl_def ioctl_commands split: bind_splits)
    then show ?thesis using bp 2 by (fastforce simp: errno_defs)
  next
    case 3
    with assms have "Some (ret, argp', log, s') = Some (- EINVAL, argp, [], s)"
      by (simp add: ouichefs_ioctl_def split: if_splits)
    then show ?thesis using 3 by simp
  qed
qed

theorem ioctl_safe_witness:
  "ouichefs_ioctl demo_env (\<lambda>c. True) (demo_file 3) 0x4e04 [] demo_fs = Some (- EINVAL, [], [], demo_fs) \<and>
     (0x4e04 :: u32_word) \<noteq> OUICHEFS_IOC_FILE_INFO"
proof -
  have n: "(0x4e04 :: u32_word) \<noteq> OUICHEFS_IOC_FILE_INFO" "(0x4e04 :: u32_word) \<noteq> OUICHEFS_IOC_DEFRAG"
    "(0x4e04 :: u32_word) \<noteq> OUICHEFS_IOC_FILE_BLOCK_PRINT"
    by (simp_all add: ioc_def OUICHEFS_IOC_FILE_INFO_def OUICHEFS_IOC_DEFRAG_def OUICHEFS_IOC_FILE_BLOCK_PRINT_def OUICHEFS_IOCTL_MAGIC_def)
  obtain ret where r: "ouichefs_ioctl demo_env (\<lambda>c. True) (demo_file 3) 0x4e04 [] demo_fs = Some (ret, [], [], demo_fs)"
    using n [symmetric] by (simp add: ouichefs_ioctl_def cong: if_cong)
  from ioctl_safe [OF r n(2)] r n show ?thesis by simp
qed

end
