(* ===== verification/Kmodule.thy ===== *)
theory Kmodule
  imports Super Read Write
begin

text \<open>
  fs.c, debug.h and the inode cache of super.c: loading and unloading the module, and the two sysfs
  files that select which read and write function \<open>ouichefs_file_ops\<close> points to. What the kernel
  functions answer is the parameter \<open>mod_env\<close>; messages are left out.
\<close>

section \<open>State\<close>

datatype read_op = Op_read | Op_light_read | Op_read_cached
datatype write_op = Op_write | Op_light_write

text \<open>The functions behind the pointers; reading pages of the page cache is a parameter of the cached read.\<close>

fun read_impl :: "(int \<Rightarrow> byte list option) \<Rightarrow> read_op \<Rightarrow>
    kenv \<Rightarrow> file \<Rightarrow> byte list \<Rightarrow> nat \<Rightarrow> int \<Rightarrow> fs \<Rightarrow> (int \<times> int \<times> byte list) option" where
  "read_impl page Op_read env = ouichefs_read env"
| "read_impl page Op_light_read env = ouichefs_light_read env"
| "read_impl page Op_read_cached env = ouichefs_read_cached env page"

fun write_impl :: "write_op \<Rightarrow> kenv \<Rightarrow> file \<Rightarrow> byte list \<Rightarrow> nat \<Rightarrow> int \<Rightarrow> fs \<Rightarrow> (int \<times> int \<times> fs) option" where
  "write_impl Op_write = ouichefs_write"
| "write_impl Op_light_write = ouichefs_light_write"

datatype cache = No_cache | Live_cache | Destroyed_cache

record kmodule =
  ops_read :: "read_op option"      \<comment> \<open>\<open>ouichefs_file_ops.read\<close>, \<open>None\<close> for NULL\<close>
  ops_write :: "write_op option"
  read_fn :: char
  write_fn :: char
  inode_cache :: cache              \<comment> \<open>the object behind \<open>ouichefs_inode_cache\<close>\<close>
  registered :: bool                \<comment> \<open>the file system type is known to the kernel\<close>
  kobj_sysfs :: bool                \<comment> \<open>the directory in sysfs exists\<close>
  sysfs_files :: "string list"

record mod_env =
  cache_ok :: bool                  \<comment> \<open>\<open>kmem_cache_create\<close> returns a cache\<close>
  register_ret :: int               \<comment> \<open>result of \<open>register_filesystem\<close>\<close>
  kobject_ok :: bool                \<comment> \<open>\<open>kobject_create_and_add\<close> returns an object\<close>
  sysfs_ret :: "string \<Rightarrow> int"      \<comment> \<open>result of \<open>sysfs_create_file\<close>\<close>
  unregister_ret :: int

text \<open>The module's static data, before \<open>ouichefs_init\<close> runs.\<close>

definition module_data :: kmodule where
  "module_data = \<lparr>ops_read = Some Op_read, ops_write = Some Op_write, read_fn = CHR ''0'', write_fn = CHR ''0'',
     inode_cache = No_cache, registered = False, kobj_sysfs = False, sysfs_files = []\<rparr>"

section \<open>The sysfs files\<close>

text \<open>\<open>buf[0]\<close>: the buffer of a sysfs file is terminated by a zero byte.\<close>

definition first_char :: "string \<Rightarrow> char" where
  "first_char buf = (case buf of [] \<Rightarrow> CHR 0x00 | c # _ \<Rightarrow> c)"

definition read_fn_store :: "string \<Rightarrow> kmodule \<Rightarrow> nat \<times> kmodule" where
  "read_fn_store buf m =
     (let c = first_char buf; count = length buf in
      if c = CHR ''0'' then (count, m\<lparr>ops_read := None, read_fn := c\<rparr>)
      else if c = CHR ''1'' then (count, m\<lparr>ops_read := Some Op_read, read_fn := c\<rparr>)
      else if c = CHR ''2'' then (count, m\<lparr>ops_read := Some Op_light_read, read_fn := c\<rparr>)
      else if c = CHR ''3'' then (count, m\<lparr>ops_read := Some Op_read_cached, read_fn := c\<rparr>)
      else (count, m))"

definition read_fn_show :: "kmodule \<Rightarrow> nat \<times> string" where
  "read_fn_show m = (2, [read_fn m, CHR 0x0A])"

definition write_fn_store :: "string \<Rightarrow> kmodule \<Rightarrow> nat \<times> kmodule" where
  "write_fn_store buf m =
     (let c = first_char buf; count = length buf in
      if c = CHR ''0'' then (count, m\<lparr>ops_write := None, write_fn := c\<rparr>)
      else if c = CHR ''1'' then (count, m\<lparr>ops_write := Some Op_write, write_fn := c\<rparr>)
      else if c = CHR ''2'' then (count, m\<lparr>ops_write := Some Op_light_write, write_fn := c\<rparr>)
      else (count, m))"

definition write_fn_show :: "kmodule \<Rightarrow> nat \<times> string" where
  "write_fn_show m = (2, [write_fn m, CHR 0x0A])"

section \<open>The inode cache\<close>

definition ouichefs_init_inode_cache :: "mod_env \<Rightarrow> kmodule \<Rightarrow> int \<times> kmodule" where
  "ouichefs_init_inode_cache env m =
     (if cache_ok env then (0, m\<lparr>inode_cache := Live_cache\<rparr>) else (- ENOMEM, m\<lparr>inode_cache := No_cache\<rparr>))"

text \<open>
  \<open>kmem_cache_destroy\<close> ignores NULL. The pointer is not reset, so that a later use of the cache touches
  freed memory: \<open>None\<close>.
\<close>

definition ouichefs_destroy_inode_cache :: "kmodule \<Rightarrow> kmodule option" where
  "ouichefs_destroy_inode_cache m =
     (case inode_cache m of
        No_cache \<Rightarrow> Some m
      | Live_cache \<Rightarrow> Some (m\<lparr>inode_cache := Destroyed_cache\<rparr>)
      | Destroyed_cache \<Rightarrow> None)"

text \<open>Whether an inode could be allocated; \<open>alloc_ok\<close> is the kernel's answer for a cache that exists.\<close>

definition ouichefs_alloc_inode :: "bool \<Rightarrow> kmodule \<Rightarrow> bool option" where
  "ouichefs_alloc_inode alloc_ok m = (if inode_cache m = Live_cache then Some alloc_ok else None)"

text \<open>Giving an inode back to the cache.\<close>

definition ouichefs_destroy_inode :: "kmodule \<Rightarrow> kmodule option" where
  "ouichefs_destroy_inode m = (if inode_cache m = Live_cache then Some m else None)"

section \<open>Loading, unloading, mounting\<close>

definition free_kobj :: "kmodule \<Rightarrow> kmodule" where
  "free_kobj m = m\<lparr>kobj_sysfs := False, sysfs_files := []\<rparr>"

definition ouichefs_init :: "mod_env \<Rightarrow> kmodule \<Rightarrow> (int \<times> kmodule) option" where
  "ouichefs_init env m =
     (case ouichefs_init_inode_cache env m of (ret, m) \<Rightarrow>
      if ret \<noteq> 0 then Some (ret, m)
      else
        (let ret = register_ret env in
         if ret \<noteq> 0 then do { m \<leftarrow> ouichefs_destroy_inode_cache m; Some (ret, m) }
         else
           (let m = m\<lparr>registered := True\<rparr> in
            if \<not> kobject_ok env then do { m \<leftarrow> ouichefs_destroy_inode_cache m; Some (ret, m) }
            else
              (let m = m\<lparr>kobj_sysfs := True\<rparr>; ret = sysfs_ret env ''read_fn'' in
               if ret \<noteq> 0 then do { m \<leftarrow> ouichefs_destroy_inode_cache (free_kobj m); Some (ret, m) }
               else
                 (let m = m\<lparr>sysfs_files := sysfs_files m @ [''read_fn'']\<rparr>; ret = sysfs_ret env ''write_fn'' in
                  if ret \<noteq> 0 then do { m \<leftarrow> ouichefs_destroy_inode_cache (free_kobj m); Some (ret, m) }
                  else Some (0, m\<lparr>sysfs_files := sysfs_files m @ [''write_fn'']\<rparr>))))))"

definition ouichefs_exit :: "mod_env \<Rightarrow> kmodule \<Rightarrow> kmodule option" where
  "ouichefs_exit env m =
     (let m = free_kobj m;
          m = (if unregister_ret env = 0 then m\<lparr>registered := False\<rparr> else m)
      in ouichefs_destroy_inode_cache m)"

text \<open>\<open>mount_bdev\<close> and \<open>kill_block_super\<close> of the kernel are parameters.\<close>

definition ouichefs_mount :: "((kenv \<Rightarrow> fs \<Rightarrow> int \<times> fs) \<Rightarrow> string \<Rightarrow> int + 'd) \<Rightarrow> string \<Rightarrow> int + 'd" where
  "ouichefs_mount mount_bdev dev_name = mount_bdev ouichefs_fill_super dev_name"

definition ouichefs_kill_sb :: "('sb \<Rightarrow> 'sb) \<Rightarrow> 'sb \<Rightarrow> 'sb" where
  "ouichefs_kill_sb kill_block_super sb = kill_block_super sb"

section \<open>Selecting a function\<close>

text \<open>The last valid code that a sequence of events writes to a file.\<close>

fun last_valid :: "('e \<Rightarrow> string option) \<Rightarrow> (char \<Rightarrow> 'f option) \<Rightarrow> 'e list \<Rightarrow> char option" where
  "last_valid input decode [] = None"
| "last_valid input decode (e # es) =
     (case last_valid input decode es of
        Some c \<Rightarrow> Some c
      | None \<Rightarrow> (case input e of
                  Some buf \<Rightarrow> if decode (first_char buf) = None then None else Some (first_char buf)
                | None \<Rightarrow> None))"

text \<open>
  The contract of a sysfs file that selects a function: \<open>code\<close> is what the file shows, \<open>fn\<close> the function
  in use, \<open>decode\<close> the meaning of the codes. \<open>input e\<close> is the text that event \<open>e\<close> writes to this file.
  A valid code sets both, anything else leaves both alone.
\<close>

locale selector =
  fixes handle :: "'e \<Rightarrow> 's \<Rightarrow> 's"
    and input :: "'e \<Rightarrow> string option"
    and code :: "'s \<Rightarrow> char"
    and fn :: "'s \<Rightarrow> 'f"
    and decode :: "char \<Rightarrow> 'f option"
  assumes valid: "\<lbrakk>input e = Some buf; decode (first_char buf) = Some g\<rbrakk> \<Longrightarrow>
      code (handle e s) = first_char buf \<and> fn (handle e s) = g"
    and invalid: "(\<And>buf. input e = Some buf \<Longrightarrow> decode (first_char buf) = None) \<Longrightarrow>
      code (handle e s) = code s \<and> fn (handle e s) = fn s"
begin

lemma step_cases:
  obtains (chosen) buf g where "input e = Some buf" "decode (first_char buf) = Some g"
      "last_valid input decode [e] = Some (first_char buf)" "code (handle e s) = first_char buf" "fn (handle e s) = g"
    | (ignored) "last_valid input decode [e] = None" "code (handle e s) = code s" "fn (handle e s) = fn s"
proof (cases "\<exists>buf g. input e = Some buf \<and> decode (first_char buf) = Some g")
  case True
  then show thesis using chosen valid by fastforce
next
  case False
  then have "last_valid input decode [e] = None" "\<And>buf. input e = Some buf \<Longrightarrow> decode (first_char buf) = None"
    by (auto split: option.splits)
  then show thesis using ignored invalid by blast
qed

text \<open>After any run the file shows the last valid code written, and the function in use is its meaning.\<close>

lemma run_selects:
  "(case last_valid input decode es of
      Some c \<Rightarrow> code (fold handle es s) = c \<and> decode c = Some (fn (fold handle es s))
    | None \<Rightarrow> code (fold handle es s) = code s \<and> fn (fold handle es s) = fn s)"
proof (induction es arbitrary: s)
  case (Cons e es)
  have lv: "last_valid input decode (e # es) = (case last_valid input decode es of Some c \<Rightarrow> Some c | None \<Rightarrow> last_valid input decode [e])"
    by (simp split: option.splits)
  show ?case
  proof (cases e s rule: step_cases)
    case (chosen buf g)
    then show ?thesis using Cons.IH [of "handle e s"] by (subst lv) (auto split: option.splits)
  next
    case ignored
    then show ?thesis using Cons.IH [of "handle e s"] by (subst lv) (auto split: option.splits)
  qed
qed simp

end

datatype event = Store_read string | Store_write string

fun handle :: "event \<Rightarrow> kmodule \<Rightarrow> kmodule" where
  "handle (Store_read buf) m = snd (read_fn_store buf m)"
| "handle (Store_write buf) m = snd (write_fn_store buf m)"

fun read_input :: "event \<Rightarrow> string option" where
  "read_input (Store_read buf) = Some buf"
| "read_input (Store_write buf) = None"

fun write_input :: "event \<Rightarrow> string option" where
  "write_input (Store_read buf) = None"
| "write_input (Store_write buf) = Some buf"

definition read_decode :: "char \<Rightarrow> read_op option option" where
  "read_decode c = map_of [(CHR ''0'', None), (CHR ''1'', Some Op_read), (CHR ''2'', Some Op_light_read),
     (CHR ''3'', Some Op_read_cached)] c"

definition write_decode :: "char \<Rightarrow> write_op option option" where
  "write_decode c = map_of [(CHR ''0'', None), (CHR ''1'', Some Op_write), (CHR ''2'', Some Op_light_write)] c"

interpretation read_sel: selector handle read_input read_fn ops_read read_decode
proof
  fix e buf g m
  assume "read_input e = Some buf" "read_decode (first_char buf) = Some g"
  then show "read_fn (handle e m) = first_char buf \<and> ops_read (handle e m) = g"
    by (cases e) (auto simp: read_fn_store_def read_decode_def Let_def split: if_splits)
next
  fix e m
  assume "\<And>buf. read_input e = Some buf \<Longrightarrow> read_decode (first_char buf) = None"
  then show "read_fn (handle e m) = read_fn m \<and> ops_read (handle e m) = ops_read m"
    by (cases e) (auto simp: read_fn_store_def write_fn_store_def read_decode_def Let_def split: if_splits)
qed

interpretation write_sel: selector handle write_input write_fn ops_write write_decode
proof
  fix e buf g m
  assume "write_input e = Some buf" "write_decode (first_char buf) = Some g"
  then show "write_fn (handle e m) = first_char buf \<and> ops_write (handle e m) = g"
    by (cases e) (auto simp: write_fn_store_def write_decode_def Let_def split: if_splits)
next
  fix e m
  assume "\<And>buf. write_input e = Some buf \<Longrightarrow> write_decode (first_char buf) = None"
  then show "write_fn (handle e m) = write_fn m \<and> ops_write (handle e m) = ops_write m"
    by (cases e) (auto simp: read_fn_store_def write_fn_store_def write_decode_def Let_def split: if_splits)
qed

section \<open>Properties\<close>

text \<open>
  C31: After any sequence of writes to the two sysfs files, each file shows the last valid code written to
  it and \<open>ouichefs_file_ops\<close> uses the function of that code. Until a valid code is written, the
  files show code 0, the kernel's default functions, while the functions in use are
  \<open>ouichefs_read\<close> and \<open>ouichefs_write\<close>.
\<close>

theorem sysfs_selects:
  "let m = fold handle es module_data in
   (case last_valid read_input read_decode es of
      Some c \<Rightarrow> read_fn_show m = (2, [c, CHR 0x0A]) \<and> read_decode c = Some (ops_read m)
    | None \<Rightarrow> read_fn_show m = (2, [CHR ''0'', CHR 0x0A]) \<and> ops_read m = Some Op_read) \<and>
   (case last_valid write_input write_decode es of
      Some c \<Rightarrow> write_fn_show m = (2, [c, CHR 0x0A]) \<and> write_decode c = Some (ops_write m)
    | None \<Rightarrow> write_fn_show m = (2, [CHR ''0'', CHR 0x0A]) \<and> ops_write m = Some Op_write)"
  using read_sel.run_selects [of es module_data] write_sel.run_selects [of es module_data]
  by (simp add: Let_def read_fn_show_def write_fn_show_def module_data_def split: option.splits)

text \<open>When every step of the initialisation succeeds, and when one after the registration fails.\<close>

definition load_ok :: "mod_env \<Rightarrow> bool" where
  "load_ok env \<longleftrightarrow> cache_ok env \<and> register_ret env = 0 \<and> kobject_ok env \<and>
     sysfs_ret env ''read_fn'' = 0 \<and> sysfs_ret env ''write_fn'' = 0"

definition fails_late :: "mod_env \<Rightarrow> bool" where
  "fails_late env \<longleftrightarrow> cache_ok env \<and> register_ret env = 0 \<and> \<not> load_ok env"

text \<open>
  C32: Loading the module always returns. When all steps succeed it returns 0 with the file system
  registered, a live inode cache and both sysfs files, and unloading it undoes all of this. When
  the cache cannot be created or the file system not be registered, an error is returned and
  nothing is left behind. When a later step fails, the file system stays registered although its
  inode cache is destroyed, so that allocating an inode uses freed memory; when it was the
  creation of the sysfs directory, the load is even reported as a success, and unloading then destroys
  the cache a second time.
\<close>

theorem init_outcomes:
  "\<exists>ret m. ouichefs_init env module_data = Some (ret, m) \<and>
     (load_ok env \<longrightarrow> ret = 0 \<and> m = module_data\<lparr>inode_cache := Live_cache, registered := True, kobj_sysfs := True,
        sysfs_files := [''read_fn'', ''write_fn'']\<rparr> \<and>
        (unregister_ret env = 0 \<longrightarrow> ouichefs_exit env m = Some (module_data\<lparr>inode_cache := Destroyed_cache\<rparr>))) \<and>
     (\<not> load_ok env \<and> \<not> fails_late env \<longrightarrow> ret \<noteq> 0 \<and> \<not> registered m \<and> inode_cache m \<noteq> Live_cache \<and> \<not> kobj_sysfs m) \<and>
     (fails_late env \<longrightarrow> registered m \<and> ouichefs_alloc_inode alloc_ok m = None \<and>
        (ret = 0 \<longleftrightarrow> \<not> kobject_ok env) \<and> ouichefs_exit env m = None)"
proof -
  note defs = ouichefs_init_def ouichefs_init_inode_cache_def ouichefs_destroy_inode_cache_def module_data_def free_kobj_def
    ouichefs_exit_def ouichefs_alloc_inode_def load_ok_def fails_late_def ENOMEM_def Let_def
  consider "\<not> cache_ok env" | "cache_ok env" "register_ret env \<noteq> 0"
    | "cache_ok env" "register_ret env = 0" "\<not> kobject_ok env"
    | "cache_ok env" "register_ret env = 0" "kobject_ok env" "sysfs_ret env ''read_fn'' \<noteq> 0"
    | "cache_ok env" "register_ret env = 0" "kobject_ok env" "sysfs_ret env ''read_fn'' = 0" "sysfs_ret env ''write_fn'' \<noteq> 0"
    | "load_ok env" unfolding load_ok_def by blast
  then show ?thesis by cases (simp_all add: defs)
qed

theorem init_outcomes_witness:
  "\<exists>m. ouichefs_init \<lparr>cache_ok = True, register_ret = 0, kobject_ok = False, sysfs_ret = (\<lambda>_. 0), unregister_ret = 0\<rparr> module_data = Some (0, m) \<and>
     registered m \<and> ouichefs_alloc_inode True m = None"
  using init_outcomes [of "\<lparr>cache_ok = True, register_ret = 0, kobject_ok = False, sysfs_ret = (\<lambda>_. 0), unregister_ret = 0\<rparr>" True]
  by (auto simp: fails_late_def load_ok_def)

end
