(* ===== verification/Plain.thy ===== *)
theory Plain
  imports LightWrite Read
begin

text \<open>
  The plain read and write (\<open>ouichefs_read\<close>, \<open>ouichefs_write\<close>): files whose index entries are bare block
  numbers and whose blocks are full but the last. Their content is the first \<open>i_size\<close> bytes of the
  concatenated blocks.
\<close>

section \<open>Plain files\<close>

definition raw_bytes :: "(nat \<Rightarrow> byte list) \<Rightarrow> entry list \<Rightarrow> byte list" where
  "raw_bytes bs es = concat (map (\<lambda>e. bs (unat e)) es)"

definition plain_content :: "fs \<Rightarrow> nat \<Rightarrow> byte list" where
  "plain_content s ino = take (nat (i_size (inodes s ino))) (raw_bytes (bufs s) (data_entries s ino))"

text \<open>The file has exactly the blocks its size needs, and its entries carry no size.\<close>

definition plain_wf :: "fs \<Rightarrow> nat \<Rightarrow> bool" where
  "plain_wf s ino \<longleftrightarrow>
     (let I = inodes s ino; n = i_blocks I - 1; ib = index_block I in
      1 \<le> i_blocks I \<and> index_wf ib n (load_index s ib) \<and> (\<forall>e \<in> set (data_entries s ino). unat e = get_block_number e) \<and>
      (\<forall>b \<in> file_blocks s ino. allocated (sbi s) b) \<and>
      0 \<le> i_size I \<and> i_size I \<le> 4194304 \<and> n = idiv_ceil (nat (i_size I)) 4096)"

lemma raw_bytes_simps [simp]:
  "raw_bytes bs [] = []" "raw_bytes bs (e # es) = bs (unat e) @ raw_bytes bs es"
  "raw_bytes bs (es @ es') = raw_bytes bs es @ raw_bytes bs es'"
  by (simp_all add: raw_bytes_def)

lemma length_raw_bytes [simp]: "wf_bufs s \<Longrightarrow> length (raw_bytes (bufs s) es) = 4096 * length es"
  by (induction es) (simp_all add: wf_bufs_length)

lemma raw_bytes_cong: "(\<And>e. e \<in> set es \<Longrightarrow> bs (unat e) = cs (unat e)) \<Longrightarrow> raw_bytes bs es = raw_bytes cs es"
  by (induction es) simp_all

lemma ceil_bounds:
  assumes "sz \<le> 4194304" "n = idiv_ceil sz 4096"
  shows "n \<le> 1024" "sz \<le> 4096 * n" "4096 * n < sz + 4096" "0 < sz \<Longrightarrow> 0 < n"
proof -
  obtain d r where dr: "sz div 4096 = d" "sz mod 4096 = r" "sz = 4096 * d + r" "r < 4096"
    by (metis mod_less_divisor mult_div_mod_eq zero_less_numeral)
  then have "d + 1 < 2 ^ 32" using assms(1) by simp
  then have "n = d + (if r = 0 then 0 else 1)" using assms(2) dr(1,2) by (simp add: idiv_ceil_def Let_def)
  then show "n \<le> 1024" "sz \<le> 4096 * n" "4096 * n < sz + 4096" "0 < sz \<Longrightarrow> 0 < n"
    using assms(1) dr(3,4) by (auto split: if_splits)
qed

text \<open>The facts the proofs use of a plain file, with its size as a natural number.\<close>

lemma plain_facts:
  assumes "wf_bufs s" "plain_wf s ino"
  defines "I \<equiv> inodes s ino" and "es \<equiv> data_entries s ino" and "idx \<equiv> load_index s (index_block (inodes s ino))"
  shows "i_blocks I = Suc (length es)" "length es \<le> 1024" "idx = es @ replicate (1024 - length es) 0"
    "length es = idiv_ceil (nat (i_size I)) 4096" "nat (i_size I) \<le> 4194304" "0 \<le> i_size I"
    "distinct (index_block I # map unat es)" "\<forall>e \<in> set es. unat e = get_block_number e" "0 \<notin> set es"
proof -
  define n where "n = i_blocks I - 1"
  have w: "1 \<le> i_blocks I" "index_wf (index_block I) n idx" "\<forall>e \<in> set es. unat e = get_block_number e"
    "0 \<le> i_size I" "i_size I \<le> 4194304" "n = idiv_ceil (nat (i_size I)) 4096"
    using assms(2) unfolding plain_wf_def Let_def I_def es_def idx_def n_def by blast+
  have es: "es = take n idx" by (simp add: es_def data_entries_def n_def idx_def I_def)
  then have len: "length es = n" using w(2) by (simp add: index_wf_def)
  show "i_blocks I = Suc (length es)" "length es \<le> 1024" "length es = idiv_ceil (nat (i_size I)) 4096"
    "nat (i_size I) \<le> 4194304" "0 \<le> i_size I" "\<forall>e \<in> set es. unat e = get_block_number e" "0 \<notin> set es"
    using w len es n_def by (auto simp: index_wf_def)
  show "idx = es @ replicate (1024 - length es) 0"
    using w(2) len es append_take_drop_id [of n idx] by (simp add: index_wf_def)
  have "map unat es = map get_block_number es" using w(3) by simp
  moreover have "distinct (index_block I # map get_block_number es)" using w(2) es unfolding index_wf_def by blast
  ultimately show "distinct (index_block I # map unat es)" by metis
qed

section \<open>Reading\<close>

text \<open>What the loop takes as available in block \<open>i\<close> from position \<open>p\<close> on, for a file of \<open>size\<close> bytes.\<close>

lemma read_available:
  fixes size :: nat
  assumes "i < n" "p < 4096" "4096 * i + p \<le> size" "size \<le> 4096 * n" "4096 * n < size + 4096"
    and "lbs = int size - 4096 * (int n - 1)"
  shows "(if int i = int n - 1 then u64 (lbs - int p) else u64 (int OUICHEFS_BLOCK_SIZE - int p)) = min 4096 (size - 4096 * i) - p"
proof (cases "int i = int n - 1")
  case True
  then have "n = Suc i" by simp
  then have "min 4096 (size - 4096 * i) - p = size - 4096 * i - p" "lbs = int size - 4096 * int i" "size - 4096 * i - p \<le> 4096"
    using assms(4,6) by simp_all
  moreover from this have "lbs - int p = int (size - 4096 * i - p)" using assms(3) by simp
  ultimately show ?thesis using True by (simp add: u64_id)
next
  case False
  then have "4096 * Suc (Suc i) \<le> 4096 * n" using assms(1) by simp
  then have "min 4096 (size - 4096 * i) - p = 4096 - p" using assms(5) by simp
  then show ?thesis using False assms(2) by (simp add: u64_id OUICHEFS_BLOCK_SIZE_def)
qed

text \<open>These bytes are the content up to the next block.\<close>

lemma content_split:
  fixes size :: nat
  assumes "wf_bufs s" "i < length es" "p < 4096" "4096 * i + p \<le> size"
  defines "c \<equiv> take size (raw_bytes (bufs s) es)" and "blk \<equiv> bufs s (unat (es ! i))"
  shows "drop (4096 * i + p) c = take (min 4096 (size - 4096 * i) - p) (drop p blk) @ drop (4096 * Suc i) c"
proof -
  have "drop (4096 * i + p) (raw_bytes (bufs s) es) = drop p blk @ drop (4096 * Suc i) (raw_bytes (bufs s) es)"
    using drop_concat_blocks [of "map (\<lambda>e. bufs s (unat e)) es" 4096 i p] assms(1-3)
    by (simp add: raw_bytes_def blk_def wf_bufs_length)
  moreover have "length (drop p blk) = 4096 - p" using assms(1) by (simp add: blk_def wf_bufs_length)
  moreover have "4096 * i + p + (4096 - p) = 4096 + 4096 * i" using assms(3) by simp
  ultimately show ?thesis using assms(4) by (auto simp: c_def drop_take min_def add.commute)
qed

text \<open>One iteration that copies something.\<close>

lemma read_loop_step:
  assumes "wf_bufs s" "\<forall>off len. uncopied env off len = 0" "rem \<noteq> 0" "i < n" "a \<noteq> 0" "p + a \<le> 4096"
    and "arr (load_index s ib) (int i) = Some e" "bread_ok env (unat e)"
    and "(if int i = int n - 1 then u64 (lbs - int p) else u64 (int OUICHEFS_BLOCK_SIZE - int p)) = a"
  shows "read_loop env s ib (int n) lbs sz buff rem (int i) (int p) =
    read_loop env s ib (int n) lbs sz (overlay buff (sz - rem) (take (min a rem) (drop p (bufs s (unat e)))))
      (rem - min a rem) (int (Suc i)) (int 0)"
proof -
  have "int p + int (min a rem) \<le> 4096" using assms(6) by linarith
  then have "mem_read (bufs s (unat e)) (int p) (min a rem) = Some (take (min a rem) (drop p (bufs s (unat e))))"
    using assms(1) by (simp add: mem_read_def wf_bufs_length)
  then show ?thesis using assms(3-5,7-9) copy_to_user_ok [OF assms(2)]
    by (simp add: read_loop.simps [of env s ib _ _ _ buff] Let_def add.commute)
qed

text \<open>
  The loop from block \<open>i\<close>, position \<open>p\<close> on copies the content from there, as long as the position is inside
  the file or at its end.
\<close>

lemma read_loop_spec:
  fixes size :: nat
  assumes wf: "wf_bufs s" and cp: "\<forall>off len. uncopied env off len = 0"
    and idx: "load_index s ib = es @ R" "\<forall>e \<in> set es. bread_ok env (unat e)"
    and n: "n = length es" "size \<le> 4096 * n" "4096 * n < size + 4096"
    and lbs: "0 < n \<Longrightarrow> lbs = int size - 4096 * (int n - 1)"
  defines "c \<equiv> take size (raw_bytes (bufs s) es)"
  shows "\<lbrakk>i \<le> n; p < 4096; i = n \<Longrightarrow> p = 0; 4096 * i + p \<le> size \<or> i = n; rem \<le> sz; length buff = sz\<rbrakk> \<Longrightarrow>
    read_loop env s ib (int n) lbs sz buff rem (int i) (int p) =
      (let d = take rem (drop (4096 * i + p) c) in Some (rem - length d, overlay buff (sz - rem) d))"
proof (induction "n - i" arbitrary: i p rem buff)
  case 0
  then have "drop (4096 * i + p) c = []" using n(2) by (simp add: c_def)
  then show ?case using 0 by (simp add: read_loop.simps [of env s ib])
next
  case (Suc k)
  then have i: "i < n" "k = n - Suc i" and pos: "4096 * i + p \<le> size" by auto
  define e a where "e = es ! i" and "a = min 4096 (size - 4096 * i) - p"
  have e: "arr (load_index s ib) (int i) = Some e" "bread_ok env (unat e)"
    using i n(1) idx by (simp_all add: arr_def nth_append e_def)
  have "lbs = int size - 4096 * (int n - 1)" using lbs i(1) by simp
  note av = read_available [OF i(1) Suc.prems(2) pos n(2,3) this, folded a_def]
  have c: "drop (4096 * i + p) c = take a (drop p (bufs s (unat e))) @ drop (4096 * Suc i) c"
    unfolding c_def a_def e_def using content_split [OF wf _ Suc.prems(2) pos] i(1) n(1) by blast
  consider "rem = 0" | "rem \<noteq> 0" "a = 0" | "rem \<noteq> 0" "a \<noteq> 0" by blast
  then show ?case
  proof cases
    case 1
    then show ?thesis by (simp add: read_loop.simps [of env s ib])
  next
    case 2
    then have "size \<le> 4096 * Suc i" using pos Suc.prems(2) by (simp add: a_def min_def split: if_splits)
    then show ?thesis using 2 c e av i by (simp add: read_loop.simps [of env s ib] Let_def c_def)
  next
    case 3
    define x where "x = take (min a rem) (drop p (bufs s (unat e)))"
    have "p + a \<le> 4096" "a \<le> 4096 - p" using Suc.prems(2) by (auto simp: a_def)
    note step = read_loop_step [OF wf cp 3(1) i(1) 3(2) this(1) e av, of sz buff, folded x_def]
    have lx: "length x = min a rem" using wf \<open>a \<le> 4096 - p\<close> by (simp add: x_def wf_bufs_length)
    have lb: "length (overlay buff (sz - rem) x) = sz" using Suc.prems(5,6) lx by simp
    have "4096 * Suc i + 0 \<le> size \<or> Suc i = n" using n(3) i(1) by (cases "Suc i = n") auto
    from Suc.hyps(1) [OF i(2) _ _ _ this _ lb, of "rem - min a rem"] i(1) Suc.prems(5)
    have IH: "read_loop env s ib (int n) lbs sz (overlay buff (sz - rem) x) (rem - min a rem) (int (Suc i)) (int 0) =
        (let d = take (rem - min a rem) (drop (4096 * Suc i) c)
         in Some (rem - min a rem - length d, overlay (overlay buff (sz - rem) x) (sz - (rem - min a rem)) d))" by simp
    have d: "take rem (drop (4096 * i + p) c) = x @ take (rem - min a rem) (drop (4096 * Suc i) c)"
      using c \<open>a \<le> 4096 - p\<close> wf by (cases "a \<le> rem") (simp_all add: x_def wf_bufs_length)
    have "overlay (overlay buff (sz - rem) x) (sz - (rem - min a rem)) y = overlay buff (sz - rem) (x @ y)"
      if "length y \<le> rem - min a rem" for y
      using overlay_overlay [of "sz - rem" x y buff] that lx Suc.prems(5,6) by (simp add: diff_diff_right)
    then show ?thesis using step IH d lx by (simp add: Let_def)
  qed
qed

text \<open>Block index, position in the block and size of the last block, as the read computes them.\<close>

lemma block_position:
  assumes "0 \<le> pos" "pos < 2 ^ 43"
  shows "s32 (pos sdiv int OUICHEFS_BLOCK_SIZE) = int (nat pos div 4096)" "pos smod int OUICHEFS_BLOCK_SIZE = int (nat pos mod 4096)"
proof -
  have "pos div 4096 < 2 ^ 31" using assms(2) by simp
  moreover have "int (nat pos div 4096) = pos div 4096" "int (nat pos mod 4096) = pos mod 4096"
    using assms(1) by (simp_all add: zdiv_int zmod_int)
  moreover have "0 \<le> pos div 4096" using assms(1) by simp
  ultimately show "s32 (pos sdiv int OUICHEFS_BLOCK_SIZE) = int (nat pos div 4096)"
    "pos smod int OUICHEFS_BLOCK_SIZE = int (nat pos mod 4096)"
    using assms(1) by (simp_all add: OUICHEFS_BLOCK_SIZE_def signed_divide_int_def signed_modulo_int_def sgn_if s32_id)
qed

lemma last_block_size:
  assumes "sz \<le> 4194304" "n = idiv_ceil sz 4096" "0 < n"
  shows "(if sz mod 4096 = 0 \<and> sz \<noteq> 0 then 4096 else sz mod 4096) + 4096 * (n - 1) = sz"
proof -
  obtain d r where dr: "sz div 4096 = d" "sz mod 4096 = r" "sz = 4096 * d + r" "r < 4096"
    by (metis mod_less_divisor mult_div_mod_eq zero_less_numeral)
  note b = ceil_bounds [OF assms(1,2)]
  show ?thesis
  proof (cases "r = 0")
    case True
    then show ?thesis using dr b assms(3) by (cases d) auto
  next
    case False
    then have "n = Suc d" using dr b by auto
    then show ?thesis using dr False by simp
  qed
qed

text \<open>A read whose loop starts in block \<open>i\<close>, position \<open>p\<close>.\<close>

lemma ouichefs_read_eq:
  assumes wf: "wf_bufs s" "plain_wf s ino" and f: "f_inode f = ino" "read_flags f = 0" and io: "io_ok env s ino"
    and pos: "0 \<le> pos" "pos < 2 ^ 43"
  defines "es \<equiv> data_entries s ino" and "fsz \<equiv> nat (i_size (inodes s ino))"
  shows "\<exists>lbs. (0 < length es \<longrightarrow> lbs = int fsz - 4096 * (int (length es) - 1)) \<and>
    (\<forall>sz buff. ouichefs_read env f buff sz pos s =
      do { (remaining, buff') \<leftarrow> read_loop env s (index_block (inodes s ino)) (int (length es)) lbs sz buff sz
             (int (nat pos div 4096)) (int (nat pos mod 4096));
           Some (int (sz - remaining), pos + int (sz - remaining), buff') })"
proof -
  note p = plain_facts [OF wf, folded es_def fsz_def]
  define l where "l = (if fsz mod 4096 = 0 \<and> fsz \<noteq> 0 then 4096 else fsz mod 4096)"
  have "i_size (inodes s ino) = int fsz" using p(6) by (simp add: fsz_def)
  then have l: "(let l = i_size (inodes s ino) smod int OUICHEFS_BLOCK_SIZE in
      if l = 0 \<and> i_size (inodes s ino) \<noteq> 0 then int OUICHEFS_BLOCK_SIZE else l) = int l"
    using block_position(2) [of "int fsz"] p(5) by (simp add: l_def OUICHEFS_BLOCK_SIZE_def Let_def del: of_nat_mod)
  have "bread_ok env (index_block (inodes s ino))" using io by (simp add: io_ok_def file_blocks_def)
  moreover have "s32 (int (i_blocks (inodes s ino)) - 1) = int (length es)" using p(1,2) by (simp add: s32_id)
  ultimately have "\<And>sz buff. ouichefs_read env f buff sz pos s =
      do { (remaining, buff') \<leftarrow> read_loop env s (index_block (inodes s ino)) (int (length es)) (int l) sz buff sz
             (int (nat pos div 4096)) (int (nat pos mod 4096));
           Some (int (sz - remaining), pos + int (sz - remaining), buff') }"
    using block_position [OF pos] f l by (simp add: ouichefs_read_def Let_def)
  moreover have "int l = int fsz - 4096 * (int (length es) - 1)" if "0 < length es"
  proof -
    obtain m where m: "length es = Suc m" using \<open>0 < length es\<close> by (cases "length es") auto
    have "l + 4096 * m = fsz" using last_block_size [OF p(5,4) \<open>0 < length es\<close>] m by (simp add: l_def)
    then show ?thesis using m by simp
  qed
  ultimately show ?thesis by blast
qed

lemma plain_io:
  assumes "plain_wf s ino" "io_ok env s ino" "e \<in> set (data_entries s ino)"
  shows "bread_ok env (unat e)"
proof -
  have "unat e = get_block_number e" using assms(1,3) unfolding plain_wf_def Let_def by blast
  then show ?thesis using assms(2,3) by (auto simp: io_ok_def file_blocks_def)
qed

lemma u64_negative: "\<lbrakk>- (2 ^ 64) \<le> x; x < 0\<rbrakk> \<Longrightarrow> u64 x = nat (x + 2 ^ 64)"
proof -
  assume x: "- (2 ^ 64) \<le> x" "x < 0"
  have "x mod 2 ^ 64 = (x + 2 ^ 64) mod 2 ^ 64" by simp
  also have "\<dots> = x + 2 ^ 64" using x by (intro mod_pos_pos_trivial) simp_all
  finally show ?thesis by (simp add: u64_def)
qed

section \<open>Writing\<close>

text \<open>One block's update is an update of the concatenated blocks.\<close>

lemma raw_bytes_update:
  assumes "wf_bufs s" "distinct (map unat es)" "i < length es" "p + length ys \<le> 4096"
  shows "raw_bytes ((bufs s)(unat (es ! i) := overlay (bufs s (unat (es ! i))) p ys)) es =
    overlay (raw_bytes (bufs s) es) (4096 * i + p) ys"
proof -
  let ?bs = "map (\<lambda>e. bufs s (unat e)) es" and ?b = "overlay (bufs s (unat (es ! i))) p ys"
  have "map (\<lambda>e. ((bufs s)(unat (es ! i) := ?b)) (unat e)) es = ?bs[i := overlay (?bs ! i) p ys]"
    using assms(2,3) by (intro nth_equalityI) (auto simp: nth_list_update distinct_conv_nth)
  then show ?thesis
    using concat_update_block [of ?bs 4096 i p ys] assms by (simp add: raw_bytes_def wf_bufs_length)
qed

text \<open>Two states that differ in data buffers of the file only.\<close>

definition data_changed :: "fs \<Rightarrow> nat \<Rightarrow> entry list \<Rightarrow> fs \<Rightarrow> bool" where
  "data_changed s ib es s' \<longleftrightarrow> wf_bufs s' \<and> (\<forall>b. b \<notin> unat ` set es \<longrightarrow> bufs s' b = bufs s b) \<and>
     sbi s' = sbi s \<and> inodes s' = inodes s"

lemma data_changed_trans: "\<lbrakk>data_changed s ib es t; data_changed t ib es u\<rbrakk> \<Longrightarrow> data_changed s ib es u"
  by (simp add: data_changed_def)

text \<open>One iteration writes \<open>ys\<close>, the next bytes of the user that fit into block \<open>i\<close>.\<close>

lemma write_loop_step:
  assumes "wf_bufs s" "\<forall>off len. uncopied env off len = 0"
    and "load_index s ib = es @ R" "\<forall>e \<in> set es. bread_ok env (unat e)" "distinct (ib # map unat es)"
    and "i < length es" "p < 4096" "rem \<noteq> 0" "rem \<le> sz" "length buff = sz"
  defines "len \<equiv> min (4096 - p) rem"
  obtains s1 where "write_loop env ib (int (length es)) sz buff s rem (int i) (int p) =
      write_loop env ib (int (length es)) sz buff s1 (rem - len) (int (Suc i)) (int 0)"
    "data_changed s ib es s1" "load_index s1 ib = es @ R"
    "raw_bytes (bufs s1) es = overlay (raw_bytes (bufs s) es) (4096 * i + p) (take len (drop (sz - rem) buff))"
proof -
  define e ys where "e = es ! i" and "ys = take len (drop (sz - rem) buff)"
  have ee: "e \<in> set es" using assms(6) by (simp add: e_def)
  have e: "arr (load_index s ib) (int i) = Some e" "bread_ok env (unat e)" "unat e \<noteq> ib"
    using assms(3-6) ee by (auto simp: arr_def nth_append e_def)
  have av: "u64 (int OUICHEFS_BLOCK_SIZE - int p) = 4096 - p" using assms(7) by (simp add: u64_id OUICHEFS_BLOCK_SIZE_def)
  have cf: "copy_from_user env buff (sz - rem) len = (0, ys)" using assms(2) by (simp add: copy_from_user_def ys_def)
  have ly: "length ys = len" "p + length ys \<le> 4096" using assms(7,9,10) by (auto simp: ys_def len_def)
  then have "int p + int (length ys) \<le> 4096" by linarith
  then have mw: "mem_write (bufs s (unat e)) (int p) ys = Some (overlay (bufs s (unat e)) p ys)"
    using assms(1) by (simp add: mem_write_def wf_bufs_length)
  define s1 where "s1 = write_back (unat e) (set_buf (unat e) (overlay (bufs s (unat e)) p ys) s)"
  have b1: "bufs s1 = (bufs s)(unat e := overlay (bufs s (unat e)) p ys)" by (simp add: s1_def)
  show thesis
  proof
    show "write_loop env ib (int (length es)) sz buff s rem (int i) (int p) =
        write_loop env ib (int (length es)) sz buff s1 (rem - len) (int (Suc i)) (int 0)"
      using e av cf assms(6-8) mw
      by (simp add: write_loop.simps [of env ib _ sz buff s] Let_def len_def [symmetric] s1_def add.commute)
    have "wf_bufs s1" using assms(1) ly(2) by (simp add: s1_def wf_bufs_set_buf wf_bufs_length)
    then show "data_changed s ib es s1" using ee by (auto simp: data_changed_def b1) (simp_all add: s1_def)
    show "load_index s1 ib = es @ R" using assms(3) e(3) by (simp add: s1_def)
    show "raw_bytes (bufs s1) es = overlay (raw_bytes (bufs s) es) (4096 * i + p) (take len (drop (sz - rem) buff))"
      using raw_bytes_update [OF assms(1) _ assms(6) ly(2)] assms(5) by (simp add: b1 e_def ys_def)
  qed
qed

lemma write_loop_spec:
  assumes "wf_bufs s" "\<forall>off len. uncopied env off len = 0"
    and "load_index s ib = es @ R" "\<forall>e \<in> set es. bread_ok env (unat e)" "distinct (ib # map unat es)"
    and "p < 4096" "4096 * i + p + rem \<le> 4096 * length es" "rem \<le> sz" "length buff = sz"
  shows "\<exists>s'. write_loop env ib (int (length es)) sz buff s rem (int i) (int p) = Some (0, s') \<and> data_changed s ib es s' \<and>
    raw_bytes (bufs s') es = overlay (raw_bytes (bufs s) es) (4096 * i + p) (drop (sz - rem) buff)"
  using assms
proof (induction "length es - i" arbitrary: s i p rem)
  case 0
  then have "rem = 0" by simp
  then show ?case using 0 by (simp add: write_loop.simps [of env ib] data_changed_def)
next
  case (Suc k)
  then have i: "i < length es" "k = length es - Suc i" by auto
  note P = Suc.prems
  show ?case
  proof (cases "rem = 0")
    case True
    then show ?thesis using P by (simp add: write_loop.simps [of env ib] data_changed_def)
  next
    case False
    define len where "len = min (4096 - p) rem"
    define ys zs where "ys = take len (drop (sz - rem) buff)" and "zs = drop (sz - (rem - len)) buff"
    have ly: "length ys = len" using P(8,9) by (simp add: ys_def len_def)
    obtain s1 where s1: "write_loop env ib (int (length es)) sz buff s rem (int i) (int p) =
        write_loop env ib (int (length es)) sz buff s1 (rem - len) (int (Suc i)) (int 0)"
      "data_changed s ib es s1" "load_index s1 ib = es @ R" "raw_bytes (bufs s1) es = overlay (raw_bytes (bufs s) es) (4096 * i + p) ys"
      using write_loop_step [OF P(1-5) i(1) P(6) False P(8,9)] unfolding len_def ys_def by blast
    have fit: "4096 * Suc i + 0 + (rem - len) \<le> 4096 * length es" using P(6,7) i(1) by (auto simp: len_def min_def)
    have "wf_bufs s1" "rem - len \<le> sz" using s1(2) P(8) by (simp_all add: data_changed_def)
    from Suc.hyps(1) [OF i(2) this(1) P(2) s1(3) P(4,5) _ fit this(2) P(9)] obtain s' where s':
      "write_loop env ib (int (length es)) sz buff s1 (rem - len) (int (Suc i)) (int 0) = Some (0, s')" "data_changed s1 ib es s'"
      "raw_bytes (bufs s') es = overlay (raw_bytes (bufs s1) es) (4096 * Suc i) zs" by (auto simp: zs_def)
    have bz: "drop (sz - rem) buff = ys @ zs"
    proof -
      have "sz - (rem - len) = sz - rem + len" using P(8) by (simp add: len_def)
      then show ?thesis by (simp add: ys_def zs_def) (metis append_take_drop_id drop_drop add.commute)
    qed
    have "overlay (overlay (raw_bytes (bufs s) es) (4096 * i + p) ys) (4096 * Suc i) zs =
        overlay (raw_bytes (bufs s) es) (4096 * i + p) (ys @ zs)"
    proof (cases "rem \<le> 4096 - p")
      case True
      then have "zs = []" using P(8,9) by (simp add: zs_def len_def)
      then show ?thesis by simp
    next
      case False
      then have q: "4096 * Suc i = 4096 * i + p + length ys" "length zs = rem - len" using P(6,8,9) ly by (simp_all add: len_def zs_def)
      have "4096 * i + p + length ys + length zs \<le> length (raw_bytes (bufs s) es)" using q fit P(1) by simp
      from overlay_overlay [OF this] show ?thesis unfolding q(1) .
    qed
    then show ?thesis using s1 s' bz data_changed_trans [OF s1(2) s'(2)] by auto
  qed
qed

text \<open>The reservation of a plain write appends fresh bare block numbers to the index.\<close>

lemma plain_reserve:
  assumes wf: "fs_wf s" "plain_wf s ino" and m: "m \<le> nr_free_blocks (sbi s)" "length (data_entries s ino) + m \<le> 1024"
  defines "I \<equiv> inodes s ino" and "es \<equiv> data_entries s ino"
  obtains bs q where "length bs = m" "set bs \<subseteq> free_blocks (sbi s)"
    "reserve_write_blocks (sbi s) I (load_index s (index_block I)) (int m) =
      Some (0, q, I\<lparr>i_blocks := Suc (length es + m)\<rparr>, es @ map fresh_entry bs @ replicate (1024 - length es - m) 0)"
    "block_map_wf q" "free_blocks q = free_blocks (sbi s) - set bs" "nr_blocks q = nr_blocks (sbi s)"
    "distinct (index_block I # map unat (es @ map fresh_entry bs))" "0 \<notin> set (es @ map fresh_entry bs)"
    "\<forall>e \<in> set (es @ map fresh_entry bs). unat e = get_block_number e" "map unat (map fresh_entry bs) = bs"
    "\<forall>b \<in> insert (index_block I) (unat ` set (es @ map fresh_entry bs)). allocated q b"
proof -
  have w: "wf_bufs s" "block_map_wf (sbi s)" "nr_blocks (sbi s) \<le> 2 ^ 19" using wf(1) by (simp_all add: fs_wf_def)
  note p = plain_facts [OF w(1) wf(2), folded I_def es_def]
  have idx: "load_index s (index_block I) = es @ replicate m 0 @ replicate (1024 - length es - m) 0"
    using p(3) m(2) by (simp add: I_def es_def replicate_add [symmetric])
  have "i_blocks I + m < 2 ^ 64" "length es + m < 2 ^ 32" using p(1) m(2) by (simp_all add: es_def)
  from reserve_empty_blocks_spec [OF w(2,3) m(1) this, of "replicate (1024 - length es - m) 0"] obtain bs q where r:
    "reserve_empty_blocks (sbi s) I (load_index s (index_block I)) (int (length es)) (int m) =
      Some (0, q, I\<lparr>i_blocks := i_blocks I + m\<rparr>, es @ map fresh_entry bs @ replicate (1024 - length es - m) 0)"
    "length bs = m" "distinct bs" "set bs \<subseteq> free_blocks (sbi s)" "block_map_wf q" "free_blocks q = free_blocks (sbi s) - set bs"
    "nr_blocks q = nr_blocks (sbi s)" unfolding idx by blast
  have st: "max (s32 (int (i_blocks I)) - 1) 0 = int (length es)" using p(1,2) by (simp add: s32_id)
  have al: "allocated (sbi s) b" if "b \<in> insert (index_block I) (unat ` set es)" for b
  proof -
    have "unat ` set es = get_block_number ` set es" using p(8) by (intro image_cong) auto
    then have "b \<in> file_blocks s ino" using that by (simp add: file_blocks_def I_def es_def)
    then show ?thesis using wf(2) unfolding plain_wf_def Let_def by blast
  qed
  have b: "0 < b" "b < nr_blocks (sbi s)" "b < 2 ^ 19" if "b \<in> set bs" for b
    using that r(4) w(2,3) by (auto simp: free_blocks_def block_map_wf_def ones_def subset_iff intro: gr0I)
  have fe: "unat (fresh_entry b) = b" "get_block_number (fresh_entry b) = b" "fresh_entry b \<noteq> 0" if "b \<in> set bs" for b
    using b [OF that] fresh_entry_raw [of b] fresh_entry_fields [of b] fresh_entry_nonzero [of b] by (simp_all add: unat_of_nat)
  have mb: "map unat (map fresh_entry bs) = bs" using fe(1) by (simp add: map_idI)
  have dj: "set bs \<inter> insert (index_block I) (unat ` set es) = {}" using al r(4) by (auto simp: allocated_def)
  show thesis
  proof
    show "reserve_write_blocks (sbi s) I (load_index s (index_block I)) (int m) =
      Some (0, q, I\<lparr>i_blocks := Suc (length es + m)\<rparr>, es @ map fresh_entry bs @ replicate (1024 - length es - m) 0)"
      using r(1) st p(1) by (simp add: reserve_write_blocks_def)
    show "distinct (index_block I # map unat (es @ map fresh_entry bs))"
      using p(7) r(3) dj mb by auto
    have "allocated q b" if "allocated (sbi s) b" for b using that r(6,7) by (simp add: allocated_def)
    moreover have "allocated q b" if "b \<in> set bs" for b using that b [OF that] r(6,7) by (simp add: allocated_def)
    ultimately show "\<forall>b \<in> insert (index_block I) (unat ` set (es @ map fresh_entry bs)). allocated q b"
      using al mb fe(1) by auto
    show "0 \<notin> set (es @ map fresh_entry bs)" using p(9) fe(3) by auto
    show "\<forall>e \<in> set (es @ map fresh_entry bs). unat e = get_block_number e" using p(8) fe(1,2) by auto
  qed (use r mb in simp_all)
qed

text \<open>The call up to its loop: \<open>n\<close> is the number of blocks the file has afterwards.\<close>

lemma ouichefs_write_eq:
  assumes wf: "fs_wf s" "plain_wf s ino" and f: "f_inode f = ino" and ok: "bread_ok env (index_block (inodes s ino))"
    and wp: "write_pos f pos s = wp" "0 \<le> wp" "wp + int sz \<le> 4194304"
    and n: "n = idiv_ceil (nat (max (wp + int sz) (i_size (inodes s ino)))) 4096"
    and m: "m = n - length (data_entries s ino)" "m \<le> nr_free_blocks (sbi s)"
    and r: "reserve_write_blocks (sbi s) (inodes s ino) (load_index s (index_block (inodes s ino))) (int m) =
      Some (0, q, (inodes s ino)\<lparr>i_blocks := Suc n\<rparr>, idx)"
  defines "s1 \<equiv> set_inode ino ((inodes s ino)\<lparr>i_blocks := Suc n\<rparr>) (store_index (index_block (inodes s ino)) idx (s\<lparr>sbi := q\<rparr>))"
  shows "length (data_entries s ino) \<le> n" "n \<le> 1024" "nat (max (wp + int sz) (i_size (inodes s ino))) \<le> 4096 * n"
    and "ouichefs_write env f buff sz pos s =
      do { (remaining, s2) \<leftarrow> write_loop env (index_block (inodes s ino)) (int n) sz buff s1 sz
             (int (nat wp div 4096)) (int (nat wp mod 4096));
           Some (write_end env ino sz remaining wp (write_back (index_block (inodes s ino)) s2)) }"
proof -
  define I es M where "I = inodes s ino" and "es = data_entries s ino" and "M = nat (max (wp + int sz) (i_size I))"
  have "wf_bufs s" using wf(1) by (simp add: fs_wf_def)
  note p = plain_facts [OF this wf(2), folded I_def es_def]
  have M: "M \<le> 4194304" "nat (i_size I) \<le> M" using p(5,6) wp(3) by (auto simp: M_def)
  note b = ceil_bounds [OF M(1) n [folded I_def, folded M_def]]
  show le: "length (data_entries s ino) \<le> n"
    using idiv_ceil_least [of "nat (i_size I)" 4096 n] p(4) M b(2) by (simp add: mult.commute es_def)
  show "n \<le> 1024" "nat (max (wp + int sz) (i_size (inodes s ino))) \<le> 4096 * n" using b by (simp_all add: M_def I_def)
  have c: "u64 (wp + int sz) = nat (wp + int sz)" "u32 (int sz) = sz" "u32 (max (wp + int sz) (i_size I)) = M"
    using wp p(5,6) by (simp_all add: u64_id u32_id M_def)
  have "max (s32 (int n) - (s32 (int (i_blocks I)) - 1)) 0 = int m"
    using p(1,2) b(1) m(1) le by (simp add: s32_id es_def)
  moreover have "\<not> space_available I (sbi s) (int m) < 0"
    using space_available_iff(1) [of I m "sbi s"] p(1,2) b(1) m le by (simp add: es_def)
  moreover have "s32 (int n) = int n" using b(1) by (simp add: s32_id)
  moreover have "s32 (wp sdiv int OUICHEFS_BLOCK_SIZE) = int (nat wp div 4096)" "wp smod int OUICHEFS_BLOCK_SIZE = int (nat wp mod 4096)"
    using block_position [of wp] wp by simp_all
  moreover have "write_flags f pos I = (0, wp)" using write_flags_eq [of f pos s] f wp(1) by (simp add: I_def)
  moreover have "idiv_ceil M OUICHEFS_BLOCK_SIZE = n" using n by (simp add: M_def I_def OUICHEFS_BLOCK_SIZE_def)
  moreover have "\<not> OUICHEFS_MAX_FILESIZE < nat (wp + int sz)" using wp by (simp add: OUICHEFS_MAX_FILESIZE_def)
  ultimately show "ouichefs_write env f buff sz pos s =
      do { (remaining, s2) \<leftarrow> write_loop env (index_block (inodes s ino)) (int n) sz buff s1 sz
             (int (nat wp div 4096)) (int (nat wp mod 4096));
           Some (write_end env ino sz remaining wp (write_back (index_block (inodes s ino)) s2)) }"
    unfolding ouichefs_write_def f I_def [symmetric] using c ok r
    by (simp add: I_def [symmetric] s1_def Let_def)
qed

text \<open>The end of the call: the size grows to the end of what was written.\<close>

lemma write_end_eq:
  assumes "0 \<le> wp" "wp + int sz \<le> 4194304" "0 \<le> i_size (inodes s ino)" "i_size (inodes s ino) \<le> 4194304"
  obtains s' where "write_end env ino sz 0 wp s = (int sz, wp + int sz, s')"
    "bufs s' = bufs s" "sbi s' = sbi s" "\<forall>j. j \<noteq> ino \<longrightarrow> inodes s' j = inodes s j"
    "i_size (inodes s' ino) = max (i_size (inodes s ino)) (wp + int sz)"
    "i_blocks (inodes s' ino) = i_blocks (inodes s ino)" "index_block (inodes s' ino) = index_block (inodes s ino)"
proof -
  have u: "u64 (wp + int sz) = nat (wp + int sz)" "u64 (i_size (inodes s ino)) = nat (i_size (inodes s ino))" "u64 wp = nat wp"
    using assms by (simp_all add: u64_id)
  define s' where "s' = snd (snd (write_end env ino sz 0 wp s))"
  have "write_end env ino sz 0 wp s = (int sz, wp + int sz, s')" by (simp add: write_end_def s'_def Let_def)
  moreover have "i_size (inodes s' ino) = max (i_size (inodes s ino)) (wp + int sz)"
    using assms u by (auto simp: s'_def write_end_def Let_def max_def)
  moreover have "bufs s' = bufs s" "sbi s' = sbi s" "\<forall>j. j \<noteq> ino \<longrightarrow> inodes s' j = inodes s j"
    "i_blocks (inodes s' ino) = i_blocks (inodes s ino)" "index_block (inodes s' ino) = index_block (inodes s ino)"
    by (simp_all add: s'_def write_end_def Let_def)
  ultimately show thesis using that by blast
qed

text \<open>What an overwrite of the concatenated blocks means for the content.\<close>

lemma take_overlay_content:
  assumes "fsz \<le> length R" "wp + length ys \<le> length R'" "take (length R) R' = R" "length R \<le> length R'"
  shows "\<exists>junk. length junk = wp - fsz \<and>
    take (max fsz (wp + length ys)) (overlay R' wp ys) = take wp (take fsz R) @ junk @ ys @ drop (wp + length ys) (take fsz R)"
proof -
  have R: "take fsz R' = take fsz R" using assms(1,3) by (metis min.absorb1 take_take)
  have "take wp R' = take wp (take fsz R') @ drop fsz (take wp R')"
    by (metis append_take_drop_id min.commute take_take)
  then have a: "take wp R' = take wp (take fsz R) @ drop fsz (take wp R')" using R by simp
  define k A where "k = max fsz (wp + length ys) - (wp + length ys)" and "A = take wp R'"
  have k: "max fsz (wp + length ys) = wp + length ys + k" by (simp add: k_def)
  have "length A = wp" using assms(2) by (simp add: A_def)
  then have "take (wp + length ys + k) (overlay R' wp ys) = A @ ys @ take k (drop (wp + length ys) R')"
    by (simp add: overlay_def A_def [symmetric])
  moreover have "take k (drop (wp + length ys) R') = drop (wp + length ys) (take fsz R)"
    using R [symmetric] by (simp add: drop_take k_def max_def)
  ultimately have "take (max fsz (wp + length ys)) (overlay R' wp ys) =
      take wp (take fsz R) @ drop fsz (take wp R') @ ys @ drop (wp + length ys) (take fsz R)"
    unfolding k using a by (simp add: A_def)
  moreover have "length (drop fsz (take wp R')) = wp - fsz" using assms(2) by simp
  ultimately show ?thesis by blast
qed

text \<open>
  The whole call: the file's entries \<open>es\<close> are followed by fresh ones, the concatenated blocks are
  overwritten at the position, and nothing else changes.
\<close>

lemma plain_write_run:
  assumes wf: "fs_wf s" "plain_wf s ino" and f: "f_inode f = ino" and ok: "disk_ok env s"
    and wp: "write_pos f pos s = wp" "0 \<le> wp" "wp + int sz \<le> 4194304" and buff: "length buff = sz"
    and n: "n = idiv_ceil (nat (max (wp + int sz) (i_size (inodes s ino)))) 4096"
    and free: "n - length (data_entries s ino) \<le> nr_free_blocks (sbi s)"
  defines "es \<equiv> data_entries s ino" and "ib \<equiv> index_block (inodes s ino)"
  obtains s' bs es1 R where "ouichefs_write env f buff sz pos s = Some (int sz, wp + int sz, s')"
    "i_size (inodes s' ino) = max (i_size (inodes s ino)) (wp + int sz)" "i_blocks (inodes s' ino) = Suc n"
    "index_block (inodes s' ino) = ib" "\<forall>j. j \<noteq> ino \<longrightarrow> inodes s' j = inodes s j"
    "data_entries s' ino = es1" "load_index s' ib = es1 @ replicate (1024 - n) 0" "length es1 = n" "n \<le> 1024"
    "distinct (ib # map get_block_number es1)" "0 \<notin> set es1" "\<forall>e \<in> set es1. unat e = get_block_number e"
    "fs_wf s'" "\<forall>b \<in> file_blocks s' ino. allocated (sbi s') b"
    "raw_bytes (bufs s') es1 = overlay R (nat wp) buff" "length R = 4096 * n" "take (4096 * length es) R = raw_bytes (bufs s) es"
    "\<forall>b. allocated (sbi s) b \<and> b \<notin> file_blocks s ino \<longrightarrow> bufs s' b = bufs s b \<and> allocated (sbi s') b"
    "nr_free_blocks (sbi s') + (n - length es) = nr_free_blocks (sbi s)"
proof -
  define I m where "I = inodes s ino" and "m = n - length es"
  have ibI: "ib = index_block I" by (simp add: ib_def I_def)
  have wb: "wf_bufs s" and nb: "nr_blocks (sbi s) \<le> 2 ^ 19" using wf(1) by (simp_all add: fs_wf_def)
  note p = plain_facts [OF wb wf(2), folded I_def es_def]
  define M where "M = nat (max (wp + int sz) (i_size I))"
  have M: "M \<le> 4194304" "nat (i_size I) \<le> M" using p(5,6) wp(3) by (auto simp: M_def)
  note cb = ceil_bounds [OF M(1) n [folded I_def, folded M_def]]
  have "length es \<le> n" using idiv_ceil_least [of "nat (i_size I)" 4096 n] p(4) M cb(2) by (simp add: mult.commute)
  then have nm: "length es + m = n" by (simp add: m_def)
  have fr: "m \<le> nr_free_blocks (sbi s)" using free by (simp add: m_def es_def)
  from plain_reserve [OF wf fr] nm cb(1) obtain bs q where
    bs: "length bs = m" "set bs \<subseteq> free_blocks (sbi s)" and
    r: "reserve_write_blocks (sbi s) I (load_index s ib) (int m) =
      Some (0, q, I\<lparr>i_blocks := Suc n\<rparr>, es @ map fresh_entry bs @ replicate (1024 - length es - m) 0)" and
    q: "block_map_wf q" "free_blocks q = free_blocks (sbi s) - set bs" "nr_blocks q = nr_blocks (sbi s)" and
    d: "distinct (ib # map unat (es @ map fresh_entry bs))" "0 \<notin> set (es @ map fresh_entry bs)"
      "\<forall>e \<in> set (es @ map fresh_entry bs). unat e = get_block_number e" "map unat (map fresh_entry bs) = bs" and
    al: "\<forall>b \<in> insert ib (unat ` set (es @ map fresh_entry bs)). allocated q b"
    unfolding ibI I_def es_def by metis
  define es1 Z where "es1 = es @ map fresh_entry bs" and "Z = replicate (1024 - n) (0 :: entry)"
  note d1 = d(1-3) [folded es1_def] and al1 = al [folded es1_def]
  have len1: "length es1 = n" using bs(1) nm by (simp add: es1_def)
  have r1: "reserve_write_blocks (sbi s) I (load_index s ib) (int m) = Some (0, q, I\<lparr>i_blocks := Suc n\<rparr>, es1 @ Z)"
    using r nm by (simp add: es1_def Z_def)
  define s1 where "s1 = set_inode ino (I\<lparr>i_blocks := Suc n\<rparr>) (store_index ib (es1 @ Z) (s\<lparr>sbi := q\<rparr>))"
  have bi: "bread_ok env ib"
    using ok wf(2) unfolding plain_wf_def Let_def disk_ok_def by (auto simp: file_blocks_def allocated_def ib_def)
  note call = ouichefs_write_eq [OF wf f bi [unfolded ib_def] wp n _ fr r1 [unfolded ib_def I_def], folded ib_def, folded I_def, folded s1_def]
  have idx_len: "length (es1 @ Z) = 1024" using len1 cb(1) by (simp add: Z_def)
  have w1: "wf_bufs s1" "load_index s1 ib = es1 @ Z" using wb idx_len by (simp_all add: s1_def wf_bufs_store_index load_store_index)
  have bs1: "bufs s1 b = bufs s b" if "b \<noteq> ib" for b using that by (simp add: s1_def)
  have br1: "\<forall>e \<in> set es1. bread_ok env (unat e)" using al1 q(3) ok by (auto simp: allocated_def disk_ok_def)
  have fit: "4096 * (nat wp div 4096) + nat wp mod 4096 + sz \<le> 4096 * length es1"
    using cb(2) len1 wp by (simp add: M_def)
  from write_loop_spec [OF w1(1) _ w1(2) br1 d1(1) _ fit _ buff] ok obtain s2 where s2:
    "write_loop env ib (int n) sz buff s1 sz (int (nat wp div 4096)) (int (nat wp mod 4096)) = Some (0, s2)" "data_changed s1 ib es1 s2"
    "raw_bytes (bufs s2) es1 = overlay (raw_bytes (bufs s1) es1) (nat wp) buff"
    by (auto simp: disk_ok_def len1)
  have I2: "inodes s2 ino = I\<lparr>i_blocks := Suc n\<rparr>" "sbi s2 = q" "\<forall>j. j \<noteq> ino \<longrightarrow> inodes s2 j = inodes s j"
    using s2(2) by (simp_all add: data_changed_def s1_def)
  have sz2: "0 \<le> i_size (inodes (write_back ib s2) ino)" "i_size (inodes (write_back ib s2) ino) \<le> 4194304"
    using I2(1) p(5,6) by simp_all
  from write_end_eq [OF wp(2,3) sz2] obtain s' where s': "write_end env ino sz 0 wp (write_back ib s2) = (int sz, wp + int sz, s')"
    "bufs s' = bufs s2" "sbi s' = q" "\<forall>j. j \<noteq> ino \<longrightarrow> inodes s' j = inodes s j"
    "i_size (inodes s' ino) = max (i_size I) (wp + int sz)" "i_blocks (inodes s' ino) = Suc n" "index_block (inodes s' ino) = ib"
    using I2 by (auto simp: ibI)
  have "ib \<notin> unat ` set es1" using d1(1) by auto
  then have "bufs s2 ib = bufs s1 ib" using s2(2) by (simp add: data_changed_def)
  then have li: "load_index s' ib = es1 @ Z" using w1(2) s'(2) by (simp add: load_index_def)
  have de: "data_entries s' ino = es1" using li s'(6,7) len1 by (simp add: data_entries_def)
  have fb: "file_blocks s' ino = insert ib (unat ` set es1)"
    using de s'(7) d1(3) by (auto simp: file_blocks_def image_iff)
  have "map get_block_number es1 = map unat es1" using d1(3) by simp
  then have dg: "distinct (ib # map get_block_number es1)" using d1(1) by metis
  have raw: "raw_bytes (bufs s1) es = raw_bytes (bufs s) es"
    using d1(1) by (intro raw_bytes_cong bs1) (auto simp: es1_def)
  have keep: "bufs s' b = bufs s b \<and> allocated (sbi s') b" if b: "allocated (sbi s) b" "b \<notin> file_blocks s ino" for b
  proof -
    have "unat ` set es = get_block_number ` set es" using p(8) by (intro image_cong) auto
    then have "b \<notin> insert ib (unat ` set es)" using b(2) by (simp add: file_blocks_def ib_def es_def)
    moreover have "b \<notin> set bs" using b(1) bs(2) by (auto simp: allocated_def)
    moreover have "unat ` set es1 = unat ` set es \<union> set bs" using arg_cong [OF d(4), of set] by (simp add: es1_def image_Un image_image)
    ultimately show ?thesis using s2(2) s'(2,3) q(2,3) b(1) bs1 [of b] by (auto simp: data_changed_def allocated_def)
  qed
  have db: "distinct bs" using d(1) unfolding map_append d(4) by simp
  have fin: "finite (free_blocks (sbi s))" "nr_free_blocks (sbi s) = card (free_blocks (sbi s))" "nr_free_blocks q = card (free_blocks q)"
    using balloc.finite_avail [of "sbi s"] wf(1) q(1) by (simp_all add: fs_wf_def block_map_wf_def)
  have "card (set bs) = m" using db bs(1) by (simp add: distinct_card)
  then have count: "nr_free_blocks q + m = nr_free_blocks (sbi s)"
    using card_Diff_subset [OF finite_set bs(2)] card_mono [OF fin(1) bs(2)] unfolding fin(2,3) q(2) by simp
  show thesis
  proof
    show "ouichefs_write env f buff sz pos s = Some (int sz, wp + int sz, s')"
      using call(4) s2(1) s'(1) by (simp add: m_def es_def)
    show "fs_wf s'" using s2(2) s'(2,3) q(1,3) nb by (simp add: fs_wf_def data_changed_def wf_bufs_def)
    show "raw_bytes (bufs s') es1 = overlay (raw_bytes (bufs s1) es1) (nat wp) buff" using s2(3) s'(2) by simp
    show "take (4096 * length es) (raw_bytes (bufs s1) es1) = raw_bytes (bufs s) es"
      using raw w1(1) wb by (simp add: es1_def)
    show "load_index s' ib = es1 @ replicate (1024 - n) 0" using li by (simp add: Z_def)
    show "nr_free_blocks (sbi s') + (n - length es) = nr_free_blocks (sbi s)" using count s'(3) by (simp add: m_def)
  qed (use s' de len1 cb(1) dg d1 al1 fb w1(1) keep in \<open>auto simp: I_def\<close>)
qed

lemma plain_write_done:
  assumes wf: "fs_wf s" "plain_wf s ino" and f: "f_inode f = ino" and ok: "disk_ok env s"
    and wp: "write_pos f pos s = wp" "0 \<le> wp" "wp + int sz \<le> 4194304" and buff: "length buff = sz"
    and n: "n = idiv_ceil (nat (max (wp + int sz) (i_size (inodes s ino)))) 4096"
    and free: "n - length (data_entries s ino) \<le> nr_free_blocks (sbi s)"
  defines "c \<equiv> plain_content s ino"
  shows "\<exists>s' junk. ouichefs_write env f buff sz pos s = Some (int sz, wp + int sz, s') \<and> fs_wf s' \<and> plain_wf s' ino \<and>
    i_size (inodes s' ino) = max (i_size (inodes s ino)) (wp + int sz) \<and> length junk = nat wp - length c \<and>
    plain_content s' ino = take (nat wp) c @ junk @ buff @ drop (nat wp + sz) c \<and>
    (\<forall>j. j \<noteq> ino \<longrightarrow> inodes s' j = inodes s j) \<and>
    (\<forall>b. allocated (sbi s) b \<and> b \<notin> file_blocks s ino \<longrightarrow> bufs s' b = bufs s b \<and> allocated (sbi s') b) \<and>
    nr_free_blocks (sbi s') + (n - length (data_entries s ino)) = nr_free_blocks (sbi s)"
proof -
  have wb: "wf_bufs s" using wf(1) by (simp add: fs_wf_def)
  note p = plain_facts [OF wb wf(2)] and run = plain_write_run [OF wf f ok wp buff n free]
  obtain s' es1 R where call: "ouichefs_write env f buff sz pos s = Some (int sz, wp + int sz, s')" and
    I: "i_size (inodes s' ino) = max (i_size (inodes s ino)) (wp + int sz)" "i_blocks (inodes s' ino) = Suc n"
      "index_block (inodes s' ino) = index_block (inodes s ino)" "\<forall>j. j \<noteq> ino \<longrightarrow> inodes s' j = inodes s j" and
    es: "data_entries s' ino = es1" "load_index s' (index_block (inodes s ino)) = es1 @ replicate (1024 - n) 0" "length es1 = n" "n \<le> 1024"
      "distinct (index_block (inodes s ino) # map get_block_number es1)" "0 \<notin> set es1" "\<forall>e \<in> set es1. unat e = get_block_number e" and
    fw: "fs_wf s'" "\<forall>b \<in> file_blocks s' ino. allocated (sbi s') b" and
    R: "raw_bytes (bufs s') es1 = overlay R (nat wp) buff" "length R = 4096 * n"
      "take (4096 * length (data_entries s ino)) R = raw_bytes (bufs s) (data_entries s ino)" and
    keep: "\<forall>b. allocated (sbi s) b \<and> b \<notin> file_blocks s ino \<longrightarrow> bufs s' b = bufs s b \<and> allocated (sbi s') b" and
    count: "nr_free_blocks (sbi s') + (n - length (data_entries s ino)) = nr_free_blocks (sbi s)"
    by (rule run)
  have t: "take n (es1 @ replicate (1024 - n) 0) = es1" "drop n (es1 @ replicate (1024 - n) 0) = replicate (1024 - n) 0"
    "length (es1 @ replicate (1024 - n) 0) = 1024" using es(3,4) by simp_all
  have "index_wf (index_block (inodes s ino)) n (es1 @ replicate (1024 - n) 0)"
    unfolding index_wf_def t using es(4-6) by blast
  moreover have "0 \<le> max (i_size (inodes s ino)) (wp + int sz)" "max (i_size (inodes s ino)) (wp + int sz) \<le> 4194304"
    using p(5,6) wp by auto
  ultimately have "plain_wf s' ino"
    using I es(1,2,7) fw(2) n unfolding plain_wf_def Let_def by (simp add: max.commute)
  moreover have "\<exists>junk. length junk = nat wp - length c \<and> plain_content s' ino = take (nat wp) c @ junk @ buff @ drop (nat wp + sz) c"
  proof -
    let ?sz = "nat (i_size (inodes s ino))" and ?R = "raw_bytes (bufs s) (data_entries s ino)"
    have le: "?sz \<le> length ?R" using ceil_bounds(2) [OF p(5,4)] wb by simp
    then have "length c = ?sz" by (simp add: c_def plain_content_def)
    moreover have "nat (max (i_size (inodes s ino)) (wp + int sz)) = max ?sz (nat wp + sz)" using wp p(6) by linarith
    moreover have m: "nat wp + sz \<le> 4096 * n" "length ?R \<le> 4096 * n"
    proof -
      have "nat (max (wp + int sz) (i_size (inodes s ino))) \<le> 4194304" using p(5,6) wp by auto
      from ceil_bounds(2) [OF this n] show "nat wp + sz \<le> 4096 * n" using wp by linarith
      show "length ?R \<le> 4096 * n" using R(2) arg_cong [OF R(3), of length] by simp
    qed
    moreover have "\<exists>junk. length junk = nat wp - ?sz \<and> take (max ?sz (nat wp + length buff)) (overlay R (nat wp) buff) =
          take (nat wp) (take ?sz ?R) @ junk @ buff @ drop (nat wp + length buff) (take ?sz ?R)"
      using le R(2,3) wb m buff by (intro take_overlay_content) simp_all
    ultimately show ?thesis using R(1) I(1) es(1) buff by (simp add: plain_content_def c_def)
  qed
  ultimately show ?thesis using call I(1,4) fw(1) keep count by auto
qed

text \<open>Reading up to the end of the file.\<close>

lemma plain_read_done:
  assumes "fs_wf s" "plain_wf s ino" "f_inode f = ino" "read_flags f = 0" "io_ok env s ino" "length buff = sz"
    and "0 \<le> pos" "pos < 2 ^ 43" "pos \<le> i_size (inodes s ino) \<or> 4096 * int (length (data_entries s ino)) \<le> pos"
  shows "ouichefs_read env f buff sz pos s =
    (let d = take sz (drop (nat pos) (plain_content s ino)) in Some (int (length d), pos + int (length d), overlay buff 0 d))"
proof -
  define es i p where "es = data_entries s ino" and "i = nat pos div 4096" and "p = nat pos mod 4096"
  have wb: "wf_bufs s" using assms(1) by (simp add: fs_wf_def)
  note pf = plain_facts [OF wb assms(2), folded es_def]
  note cb = ceil_bounds [OF pf(5,4)]
  obtain lbs where l: "0 < length es \<Longrightarrow> lbs = int (nat (i_size (inodes s ino))) - 4096 * (int (length es) - 1)" and
    call: "\<And>sz buff. ouichefs_read env f buff sz pos s =
      do { (remaining, buff') \<leftarrow> read_loop env s (index_block (inodes s ino)) (int (length es)) lbs sz buff sz (int i) (int p);
           Some (int (sz - remaining), pos + int (sz - remaining), buff') }"
    using ouichefs_read_eq [OF wb assms(2-5,7,8), folded es_def i_def p_def] by blast
  have ip: "nat pos = 4096 * i + p" "p < 4096" by (simp_all add: i_def p_def)
  show ?thesis
  proof (cases "i < length es")
    case True
    have "\<not> 4096 * int (length es) \<le> pos" using True ip assms(7) by linarith
    then have "4096 * i + p \<le> nat (i_size (inodes s ino))" using assms(9) ip by (simp add: es_def)
    then have "read_loop env s (index_block (inodes s ino)) (int (length es)) lbs sz buff sz (int i) (int p) =
      (let d = take sz (drop (4096 * i + p) (plain_content s ino)) in Some (sz - length d, overlay buff (sz - sz) d))"
      unfolding plain_content_def es_def [symmetric] using assms(5,6) ip True
      by (intro read_loop_spec [OF wb _ pf(3) _ refl cb(2,3) l]) (auto simp: io_ok_def plain_io [OF assms(2,5)] es_def)
    then show ?thesis using call ip(1) by (simp add: Let_def)
  next
    case False
    then have "length (plain_content s ino) \<le> nat pos" using cb(2) ip by (simp add: plain_content_def)
    then show ?thesis using call False by (simp add: read_loop.simps [of env s] Let_def)
  qed
qed

section \<open>A plain file on the example partition\<close>

definition demo_plain :: fs where
  "demo_plain = store_index 5 (fresh_entry 6 # replicate 1023 0) demo_fs"

lemma demo_plain_simps [simp]:
  "inodes demo_plain = inodes demo_fs" "sbi demo_plain = demo_sb" "data_entries demo_plain 2 = [fresh_entry 6]"
  "load_index demo_plain 5 = fresh_entry 6 # replicate 1023 0" "plain_content demo_plain 2 = [104, 101, 108, 108, 111]"
proof -
  show e: "data_entries demo_plain 2 = [fresh_entry 6]" "load_index demo_plain 5 = fresh_entry 6 # replicate 1023 0"
    by (simp_all add: demo_plain_def data_entries_def load_store_index)
  have "unat (fresh_entry 6) = 6" by (simp add: fresh_entry_raw)
  then show "plain_content demo_plain 2 = [104, 101, 108, 108, 111]"
    by (simp add: plain_content_def e) (simp add: demo_plain_def demo_bufs demo_bytes_def overlay_def)
qed (simp_all add: demo_plain_def)

lemma demo_plain_wf: "fs_wf demo_plain" "plain_wf demo_plain 2" "file_blocks demo_plain 2 = {5, 6}"
proof -
  have u: "unat (fresh_entry 6) = 6" "get_block_number (fresh_entry 6) = 6" "fresh_entry 6 \<noteq> 0"
    using fresh_entry_fields [of 6] fresh_entry_nonzero [of 6] by (simp_all add: fresh_entry_raw)
  show "fs_wf demo_plain" using demo_wf(1) by (simp add: fs_wf_def) (simp add: demo_plain_def wf_bufs_store_index)
  show "plain_wf demo_plain 2" using u
    by (auto simp: plain_wf_def Let_def index_wf_def file_blocks_def allocated_def demo_free idiv_ceil_def)
  show "file_blocks demo_plain 2 = {5, 6}" using u by (simp add: file_blocks_def)
qed

section \<open>Properties\<close>

text \<open>
  C33: On a plain file, \<open>ouichefs_read\<close> at a position up to the end of the file, or beyond its last block, is
  the reference read: it returns the bytes of the content from the position on, as many as asked
  for and there are, and advances the position by their number.
\<close>

theorem plain_read_content:
  assumes "fs_wf s" "plain_wf s ino" "f_inode f = ino" "read_flags f = 0" "io_ok env s ino" "length buff = sz"
    and "0 \<le> pos" "pos < 2 ^ 43" "pos \<le> i_size (inodes s ino) \<or> 4096 * int (length (data_entries s ino)) \<le> pos"
  shows "ouichefs_read env f buff sz pos s =
    (let d = take sz (drop (nat pos) (plain_content s ino)) in Some (int (length d), pos + int (length d), overlay buff 0 d))"
  using assms by (rule plain_read_done)

theorem plain_read_content_witness:
  "ouichefs_read demo_env (demo_file 2) [0, 0, 0, 0] 4 2 demo_plain = Some (3, 5, [108, 108, 111, 0])"
proof -
  have "io_ok demo_env demo_plain 2" by (simp add: io_ok_def demo_env_def)
  moreover have "read_flags (demo_file 2) = 0" "f_inode (demo_file 2) = 2"
    by (simp_all add: read_flags_def demo_file_def O_RDWR_def O_WRONLY_def)
  ultimately show ?thesis
    using plain_read_content [OF demo_plain_wf(1,2), of "demo_file 2" demo_env "[0, 0, 0, 0]" 4 2] by (simp add: overlay_def)
qed

text \<open>
  C34: A plain read at a position behind the end of the file but inside its last block does not return
  0: it returns as many bytes as asked for, taken from the rest of the block, and when they do not fit
  there it copies memory behind the block's buffer to the user.
\<close>

theorem plain_read_overrun:
  assumes "fs_wf s" "plain_wf s ino" "f_inode f = ino" "read_flags f = 0" "io_ok env s ino" "length buff = sz"
    and "i_size (inodes s ino) < pos" "pos < 4096 * int (length (data_entries s ino))" "0 < sz" "sz < 2 ^ 63"
  shows "ouichefs_read env f buff sz pos s =
    (if nat pos mod 4096 + sz \<le> 4096
     then Some (int sz, pos + int sz, overlay buff 0 (take sz (drop (nat pos) (raw_bytes (bufs s) (data_entries s ino)))))
     else None)"
proof -
  define es i p where "es = data_entries s ino" and "i = nat pos div 4096" and "p = nat pos mod 4096"
  have wb: "wf_bufs s" using assms(1) by (simp add: fs_wf_def)
  note pf = plain_facts [OF wb assms(2), folded es_def]
  note cb = ceil_bounds [OF pf(5,4)]
  have pos: "0 \<le> pos" "pos < 2 ^ 43" using pf(2,6) assms(7,8) by (auto simp: es_def)
  obtain lbs where l: "0 < length es \<Longrightarrow> lbs = int (nat (i_size (inodes s ino))) - 4096 * (int (length es) - 1)" and
    call: "\<And>sz buff. ouichefs_read env f buff sz pos s =
      do { (remaining, buff') \<leftarrow> read_loop env s (index_block (inodes s ino)) (int (length es)) lbs sz buff sz (int i) (int p);
           Some (int (sz - remaining), pos + int (sz - remaining), buff') }"
    using ouichefs_read_eq [OF wb assms(2-5) pos, folded es_def i_def p_def] by blast
  have ip: "nat pos = 4096 * i + p" "p < 4096" by (simp_all add: i_def p_def)
  have lt: "nat pos < 4096 * length es" "4096 * length es < nat pos + 4096" using assms(7,8) cb(3) pos(1) by (auto simp: es_def)
  then have i: "length es = Suc i" using ip by linarith
  define e where "e = es ! i"
  have e: "arr (load_index s (index_block (inodes s ino))) (int i) = Some e" "bread_ok env (unat e)"
    using i pf(3) plain_io [OF assms(2,5)] by (simp_all add: arr_def nth_append e_def es_def)
  have "lbs - int p = i_size (inodes s ino) - pos" using l i ip pos(1) pf(6) by simp
  then have "u64 (lbs - int p) = nat (i_size (inodes s ino) - pos + 2 ^ 64)"
    using u64_negative [of "i_size (inodes s ino) - pos"] assms(7) pos pf(6) by simp
  then have av: "u64 (lbs - int p) \<ge> sz" "u64 (lbs - int p) \<noteq> 0" using assms(10) pos pf(5,6) by auto
  have blk: "drop (nat pos) (raw_bytes (bufs s) es) = drop p (bufs s (unat e))"
    using drop_concat_blocks [of "map (\<lambda>e. bufs s (unat e)) es" 4096 i p, folded raw_bytes_def] wb i ip
    by (simp add: e_def wf_bufs_length)
  have cp: "copy_to_user env buff 0 src = (0, overlay buff 0 src)" for src
    using assms(5) copy_to_user_ok by (auto simp: io_ok_def)
  have "read_loop env s (index_block (inodes s ino)) (int (length es)) lbs sz buff sz (int i) (int p) =
      (case mem_read (bufs s (unat e)) (int p) sz of None \<Rightarrow> None | Some src \<Rightarrow> Some (0, overlay buff 0 src))"
    using e i av assms(9) cp
    by (subst read_loop.simps) (simp add: Let_def min_absorb2 read_loop.simps [of env s _ _ _ _ _ 0] split: option.splits)
  moreover have "mem_read (bufs s (unat e)) (int p) sz = (if p + sz \<le> 4096 then Some (take sz (drop p (bufs s (unat e)))) else None)"
    using wb by (auto simp: mem_read_def wf_bufs_length)
  ultimately show ?thesis using call blk by (simp add: p_def [symmetric] es_def [symmetric])
qed

theorem plain_read_overrun_witness:
  "ouichefs_read demo_env (demo_file 2) (replicate 4096 7) 4096 6 demo_plain = None \<and>
   ouichefs_read demo_env (demo_file 2) [7, 7] 2 6 demo_plain = Some (2, 8, [0, 0])"
proof -
  have "io_ok demo_env demo_plain 2" by (simp add: io_ok_def demo_env_def)
  moreover have "read_flags (demo_file 2) = 0" "f_inode (demo_file 2) = 2"
    by (simp_all add: read_flags_def demo_file_def O_RDWR_def O_WRONLY_def)
  moreover have "take 2 (drop 6 (raw_bytes (bufs demo_plain) [fresh_entry 6])) = [0, 0]"
    by (simp add: fresh_entry_raw) (simp add: demo_plain_def demo_bufs demo_bytes_def overlay_def numeral_2_eq_2)
  ultimately show ?thesis
    using plain_read_overrun [OF demo_plain_wf(1,2), of "demo_file 2" demo_env "replicate 4096 7" 4096 6]
      plain_read_overrun [OF demo_plain_wf(1,2), of "demo_file 2" demo_env "[7, 7]" 2 6] by (simp add: overlay_def)
qed

text \<open>
  C35: On a plain file, \<open>ouichefs_write\<close> writes the whole buffer when the blocks it needs are available: the
  bytes from the position on are overwritten, the file grows if the buffer ends behind it (a gap
  holds whatever the blocks held), the file stays a plain file, exactly the missing blocks are taken,
  and no allocated block outside the file and no other inode changes.
\<close>

theorem plain_write_overwrites:
  assumes "fs_wf s" "plain_wf s ino" "f_inode f = ino" "disk_ok env s"
    and "write_pos f pos s = wp" "0 \<le> wp" "wp + int sz \<le> 4194304" "length buff = sz"
    and "n = idiv_ceil (nat (max (wp + int sz) (i_size (inodes s ino)))) 4096"
    and "n - length (data_entries s ino) \<le> nr_free_blocks (sbi s)" "c = plain_content s ino"
  shows "\<exists>s' junk. ouichefs_write env f buff sz pos s = Some (int sz, wp + int sz, s') \<and> fs_wf s' \<and> plain_wf s' ino \<and>
    i_size (inodes s' ino) = max (i_size (inodes s ino)) (wp + int sz) \<and> length junk = nat wp - length c \<and>
    plain_content s' ino = take (nat wp) c @ junk @ buff @ drop (nat wp + sz) c \<and>
    (\<forall>j. j \<noteq> ino \<longrightarrow> inodes s' j = inodes s j) \<and>
    (\<forall>b. allocated (sbi s) b \<and> b \<notin> file_blocks s ino \<longrightarrow> bufs s' b = bufs s b \<and> allocated (sbi s') b) \<and>
    nr_free_blocks (sbi s') + (n - length (data_entries s ino)) = nr_free_blocks (sbi s)"
  using plain_write_done [OF assms(1-10)] unfolding assms(11) .

theorem plain_write_overwrites_witness:
  "\<exists>s'. ouichefs_write demo_env (demo_file 2) [97, 98] 2 4 demo_plain = Some (2, 6, s') \<and>
     plain_content s' 2 = [104, 101, 108, 108, 97, 98] \<and> plain_wf s' 2"
proof -
  have "disk_ok demo_env demo_plain" "f_inode (demo_file 2) = 2" "write_pos (demo_file 2) 4 demo_plain = 4"
    by (simp_all add: disk_ok_def demo_env_def demo_file_def write_pos_def O_RDWR_def O_APPEND_def)
  then show ?thesis
    using plain_write_overwrites [OF demo_plain_wf(1,2), of "demo_file 2" demo_env 4 4 2 "[97, 98]" 1 "[104, 101, 108, 108, 111]"]
    by (auto simp: idiv_ceil_def)
qed

end
