(* ===== verification/Userland.thy ===== *)
theory Userland
  imports Ioctl Kmodule Plain FileOps
begin

text \<open>
  utils.h of the user tools: a process with one open file of a mounted partition, its system calls, the
  selection of the module's functions through sysfs, and the helpers of the tests and benchmarks.
  The VFS finds or creates the file by its name; the new descriptor is the argument \<open>f\<close>.
  \<open>None\<close> stands for a C program that leaves an array, overflows a signed integer or uses an
  uninitialised variable, as for the functions of the module.
\<close>

section \<open>The process\<close>

text \<open>What a \<open>printf\<close> prints: its format and its arguments.\<close>

type_synonym printf_call = "string \<times> (string + int) list"

text \<open>
  What the tools rely on besides the module: the kernel functions of the calls, the generic read and write that
  serve a file whose operation is NULL, the sequences of \<open>rand\<close> and of the clock, the effect of
  \<open>sync\<close> and of dropping the caches, and the bytes of uninitialised arrays.
\<close>

record user_env =
  kern :: kenv
  cached_page :: "int \<Rightarrow> byte list option"
  generic_read :: "file \<Rightarrow> byte list \<Rightarrow> nat \<Rightarrow> int \<Rightarrow> fs \<Rightarrow> (int \<times> int \<times> byte list) option"
  generic_write :: "file \<Rightarrow> byte list \<Rightarrow> nat \<Rightarrow> int \<Rightarrow> fs \<Rightarrow> (int \<times> int \<times> fs) option"
  printable :: "byte \<Rightarrow> bool"       \<comment> \<open>\<open>isprint\<close>\<close>
  rand_at :: "nat \<Rightarrow> int"
  clock_at :: "nat \<Rightarrow> timespec"
  synced_disk :: "fs \<Rightarrow> fs"
  uninit :: "nat \<Rightarrow> byte"

record proc =
  kmod :: kmodule
  disk :: fs
  f_pos :: int                \<comment> \<open>the position of the open file\<close>
  rands :: nat                \<comment> \<open>numbers drawn so far\<close>
  ticks :: nat                \<comment> \<open>clock readings so far\<close>
  klog :: "msg list"          \<comment> \<open>what the module printed\<close>
  printed :: "printf_call list"    \<comment> \<open>what the process printed\<close>

definition print :: "string \<Rightarrow> (string + int) list \<Rightarrow> proc \<Rightarrow> proc" where
  "print fmt args p = p\<lparr>printed := printed p @ [(fmt, args)]\<rparr>"

definition fresh_array :: "user_env \<Rightarrow> nat \<Rightarrow> byte list" where
  "fresh_array e n = map (uninit e) [0..<n]"

lemma length_fresh_array [simp]: "length (fresh_array e n) = n"
  by (simp add: fresh_array_def)

section \<open>System calls\<close>

text \<open>
  The VFS calls the operation of \<open>ouichefs_file_ops\<close>, or the generic function when it is NULL, and stores
  the new position when the call did not fail.
\<close>

definition sys_write :: "user_env \<Rightarrow> file \<Rightarrow> byte list \<Rightarrow> nat \<Rightarrow> proc \<Rightarrow> (int \<times> proc) option" where
  "sys_write e f buf len p =
     (if length buf < len then None
      else
        do { (ret, pos, s) \<leftarrow> (case ops_write (kmod p) of Some op \<Rightarrow> write_impl op (kern e) | None \<Rightarrow> generic_write e)
               f (take len buf) len (f_pos p) (disk p);
             Some (ret, p\<lparr>disk := s, f_pos := (if 0 \<le> ret then pos else f_pos p)\<rparr>) })"

definition sys_read :: "user_env \<Rightarrow> file \<Rightarrow> byte list \<Rightarrow> nat \<Rightarrow> proc \<Rightarrow> (int \<times> byte list \<times> proc) option" where
  "sys_read e f buf len p =
     (if length buf < len then None
      else
        do { (ret, pos, dst) \<leftarrow> (case ops_read (kmod p) of Some op \<Rightarrow> read_impl (cached_page e) op (kern e) | None \<Rightarrow> generic_read e)
               f (take len buf) len (f_pos p) (disk p);
             Some (ret, dst @ drop len buf, p\<lparr>f_pos := (if 0 \<le> ret then pos else f_pos p)\<rparr>) })"

text \<open>
  \<open>open\<close> calls \<open>ouichefs_open\<close>, which cannot fail without \<open>O_TRUNC\<close>; a new descriptor is at position 0.
\<close>

definition sys_open :: "user_env \<Rightarrow> file \<Rightarrow> proc \<Rightarrow> proc option" where
  "sys_open e f p =
     do { (_, s) \<leftarrow> ouichefs_open (kern e) f (disk p);
          Some (p\<lparr>disk := s, f_pos := 0\<rparr>) }"

datatype whence = SEEK_SET | SEEK_END

text \<open>\<open>generic_file_llseek\<close> with the limit \<open>s_maxbytes\<close> that \<open>ouichefs_fill_super\<close> sets.\<close>

definition sys_lseek :: "file \<Rightarrow> int \<Rightarrow> whence \<Rightarrow> proc \<Rightarrow> int \<times> proc" where
  "sys_lseek f offset whence p =
     (let pos = (case whence of SEEK_SET \<Rightarrow> offset | SEEK_END \<Rightarrow> i_size (inodes (disk p) (f_inode f)) + offset) in
      if pos < 0 \<or> int OUICHEFS_MAX_FILESIZE < pos then (- EINVAL, p) else (pos, p\<lparr>f_pos := pos\<rparr>))"

definition sys_ioctl :: "user_env \<Rightarrow> file \<Rightarrow> u32_word \<Rightarrow> byte list \<Rightarrow> proc \<Rightarrow> (int \<times> byte list \<times> proc) option" where
  "sys_ioctl e f cmd argp p =
     do { (ret, argp, log, s) \<leftarrow> ouichefs_ioctl (kern e) (printable e) f cmd argp (disk p);
          Some (ret, argp, p\<lparr>disk := s, klog := klog p @ log\<rparr>) }"

section \<open>Division\<close>

definition user_idiv_ceil :: "int \<Rightarrow> int \<Rightarrow> int option" where
  "user_idiv_ceil a b =
     (if b = 0 \<or> a sdiv b = 2 ^ 31 then None
      else
        (let ret = a sdiv b in if a smod b \<noteq> 0 then Some (ret + 1) else Some ret))"

text \<open>For sizes it is the ceiling that the module computes.\<close>

lemma user_idiv_ceil_eq:
  assumes "a < 2 ^ 31" "1 < b" "b < 2 ^ 31"
  shows "user_idiv_ceil (int a) (int b) = Some (int (idiv_ceil a b))"
proof -
  have "int a sdiv int b = int (a div b)" "int a smod int b = int (a mod b)"
    using assms(2) by (simp_all add: signed_divide_int_def signed_modulo_int_def sgn_if zdiv_int zmod_int)
  moreover have "a div b + 1 < 2 ^ 32" using idiv_ceil_less [of a b] assms by simp
  moreover have "a div b < 2 ^ 31" using assms(1) div_le_dividend [of a b] by linarith
  ultimately show ?thesis using assms by (auto simp: user_idiv_ceil_def idiv_ceil_def Let_def)
qed

section \<open>Selecting the functions\<close>

definition set_read_fn :: "char \<Rightarrow> proc \<Rightarrow> proc" where
  "set_read_fn c p =
     (if ''read_fn'' \<in> set (sysfs_files (kmod p)) then p\<lparr>kmod := snd (read_fn_store [c] (kmod p))\<rparr> else p)"

text \<open>Without the file, the character stays uninitialised.\<close>

definition get_read_fn :: "proc \<Rightarrow> char option" where
  "get_read_fn p =
     (if ''read_fn'' \<in> set (sysfs_files (kmod p)) then Some (hd (snd (read_fn_show (kmod p)))) else None)"

definition set_write_fn :: "char \<Rightarrow> proc \<Rightarrow> proc" where
  "set_write_fn c p =
     (if ''write_fn'' \<in> set (sysfs_files (kmod p)) then p\<lparr>kmod := snd (write_fn_store [c] (kmod p))\<rparr> else p)"

definition get_write_fn :: "proc \<Rightarrow> char option" where
  "get_write_fn p =
     (if ''write_fn'' \<in> set (sysfs_files (kmod p)) then Some (hd (snd (write_fn_show (kmod p)))) else None)"

definition DEFAULT_READ :: char where "DEFAULT_READ = CHR ''0''"
definition SIMPLE_READ :: char where "SIMPLE_READ = CHR ''1''"
definition LIGHT_READ :: char where "LIGHT_READ = CHR ''2''"
definition CACHED_READ :: char where "CACHED_READ = CHR ''3''"
definition DEFAULT_WRITE :: char where "DEFAULT_WRITE = CHR ''0''"
definition SIMPLE_WRITE :: char where "SIMPLE_WRITE = CHR ''1''"
definition LIGHT_WRITE :: char where "LIGHT_WRITE = CHR ''2''"

section \<open>Buffers\<close>

text \<open>Decimal numbers as \<open>%d\<close> prints them.\<close>

fun digits :: "nat \<Rightarrow> byte list" where
  "digits n = (if n < 10 then [48 + word_of_nat n] else digits (n div 10) @ [48 + word_of_nat (n mod 10)])"

declare digits.simps [simp del]

definition fmt_d :: "int \<Rightarrow> byte list" where
  "fmt_d c = (if c < 0 then 45 # digits (nat (- c)) else digits (nat c))"

text \<open>\<open>snprintf(buf + off, n, ...)\<close> for a formatted text: cut to \<open>n\<close> bytes with the final zero, the result is the full length.\<close>

definition snprintf :: "byte list \<Rightarrow> nat \<Rightarrow> nat \<Rightarrow> byte list \<Rightarrow> (int \<times> byte list) option" where
  "snprintf buf off n text =
     (if n = 0 then Some (int (length text), buf)
      else do { buf \<leftarrow> mem_write buf (int off) (take (n - 1) text @ [0]); Some (int (length text), buf) })"

lemma snprintf_result: "snprintf buf off n text = Some (written, buf') \<Longrightarrow> written = int (length text)"
  by (auto simp: snprintf_def bind_eq_Some_conv split: if_splits)

function init_seq_loop :: "nat \<Rightarrow> byte list \<Rightarrow> nat \<Rightarrow> int \<Rightarrow> (byte list \<times> nat \<times> int) option" where
  "init_seq_loop len buf offset counter =
     (if offset < u64 (int len - 1) then
        do { (written, buf) \<leftarrow> snprintf buf offset (u64 (int len - int offset)) (fmt_d counter @ [32]);
             if written < 0 then Some (buf, offset, counter)
             else if 2 ^ 31 \<le> int offset + written \<or> 2 ^ 31 \<le> counter + 1 then None
             else init_seq_loop len buf (offset + nat written) (counter + 1) }
      else Some (buf, offset, counter))"
  by pat_completeness auto
termination
  by (relation "measure (\<lambda>(len, buf, offset, _). u64 (int len - 1) - offset)") (auto dest!: snprintf_result)

declare init_seq_loop.simps [simp del]

definition init_seq_buff :: "byte list \<Rightarrow> nat \<Rightarrow> int \<Rightarrow> (byte list \<times> int) option" where
  "init_seq_buff buf len counter =
     do { (buf, offset, counter) \<leftarrow> init_seq_loop len buf 0 counter;
          buf \<leftarrow> arr_set buf (int offset) 0;
          Some (buf, counter) }"

definition BLOCK_SIZE :: nat where "BLOCK_SIZE = 4096"
definition MAX_FILESIZE :: nat where "MAX_FILESIZE = 4194304"

text \<open>The loops over the blocks of a file of maximal size; \<open>n\<close> blocks remain.\<close>

fun init_seq_file_loop :: "user_env \<Rightarrow> file \<Rightarrow> nat \<Rightarrow> byte list \<Rightarrow> int \<Rightarrow> proc \<Rightarrow> proc option" where
  "init_seq_file_loop e f 0 buf counter p = Some p"
| "init_seq_file_loop e f (Suc n) buf counter p =
     do { (buf, counter) \<leftarrow> init_seq_buff buf BLOCK_SIZE counter;
          (_, p) \<leftarrow> sys_write e f buf BLOCK_SIZE p;
          init_seq_file_loop e f n buf counter p }"

definition init_seq_file :: "user_env \<Rightarrow> file \<Rightarrow> proc \<Rightarrow> proc option" where
  "init_seq_file e f p = init_seq_file_loop e f (MAX_FILESIZE div BLOCK_SIZE) (fresh_array e BLOCK_SIZE) 0 p"

text \<open>\<open>n\<close> bytes remain to be drawn from index \<open>i\<close> on; \<open>CHAR_MAX\<close> is 127.\<close>

fun init_rand_loop :: "user_env \<Rightarrow> nat \<Rightarrow> nat \<Rightarrow> byte list \<Rightarrow> proc \<Rightarrow> (byte list \<times> proc) option" where
  "init_rand_loop e i 0 buf p = Some (buf, p)"
| "init_rand_loop e i (Suc n) buf p =
     do { buf \<leftarrow> arr_set buf (int i) (word_of_int (rand_at e (rands p) smod 127));
          init_rand_loop e (Suc i) n buf (p\<lparr>rands := Suc (rands p)\<rparr>) }"

definition init_rand_buf :: "user_env \<Rightarrow> byte list \<Rightarrow> nat \<Rightarrow> proc \<Rightarrow> (byte list \<times> proc) option" where
  "init_rand_buf e buf len p = init_rand_loop e 0 len buf p"

fun init_rand_file_loop :: "user_env \<Rightarrow> file \<Rightarrow> nat \<Rightarrow> byte list \<Rightarrow> proc \<Rightarrow> proc option" where
  "init_rand_file_loop e f 0 buf p = Some p"
| "init_rand_file_loop e f (Suc n) buf p =
     do { (buf, p) \<leftarrow> init_rand_buf e buf BLOCK_SIZE p;
          (_, p) \<leftarrow> sys_write e f buf BLOCK_SIZE p;
          init_rand_file_loop e f n buf p }"

definition init_rand_file :: "user_env \<Rightarrow> file \<Rightarrow> proc \<Rightarrow> proc option" where
  "init_rand_file e f p = init_rand_file_loop e f (MAX_FILESIZE div BLOCK_SIZE) (fresh_array e BLOCK_SIZE) p"

definition flush_cache :: "user_env \<Rightarrow> proc \<Rightarrow> proc" where
  "flush_cache e p = p\<lparr>disk := synced_disk e (disk p)\<rparr>"

section \<open>Printing\<close>

text \<open>\<open>pr_buf\<close> of the \<open>len\<close> bytes from \<open>i\<close> on, with \<open>new_line\<close> characters on the line so far.\<close>

fun user_pr_loop :: "(byte \<Rightarrow> bool) \<Rightarrow> byte list \<Rightarrow> nat \<Rightarrow> nat \<Rightarrow> nat \<Rightarrow> printf_call list option" where
  "user_pr_loop isprint buf i 0 new_line = Some []"
| "user_pr_loop isprint buf i (Suc len) new_line =
     do { c \<leftarrow> arr buf (int i);
          let (wrap, new_line) = (if new_line > 150 then ([([CHR 0x0A], [])], 0) else ([], new_line));
          let (m, w) = (if isprint c then ((''%c'', [Inr (uint c)]), 1)
                        else if c = 0 then ((CHR 0x5C # ''0'', []), 2)
                        else if c = 10 then ((CHR 0x5C # ''n'', []), 2)
                        else ((''?'', []), 1));
          out \<leftarrow> user_pr_loop isprint buf (Suc i) len (new_line + w);
          Some (wrap @ m # out) }"

definition user_pr_buf :: "user_env \<Rightarrow> byte list \<Rightarrow> nat \<Rightarrow> proc \<Rightarrow> proc option" where
  "user_pr_buf e buf len p =
     do { out \<leftarrow> user_pr_loop (printable e) buf 0 len 0;
          Some (p\<lparr>printed := printed p @ [([CHR 0x22], [])] @ out @ [([CHR 0x22], [])]\<rparr>) }"

text \<open>An array of negative or zero length is undefined.\<close>

definition pr_file :: "user_env \<Rightarrow> file \<Rightarrow> int \<Rightarrow> int \<Rightarrow> proc \<Rightarrow> proc option" where
  "pr_file e f offset file_size p =
     (let len = file_size - offset in
      if len \<le> 0 then None
      else
        do { let rbuf = fresh_array e (nat len);
             let (_, p) = sys_lseek f offset SEEK_SET p;
             (_, rbuf, p) \<leftarrow> sys_read e f rbuf (nat len) p;
             p \<leftarrow> user_pr_buf e rbuf (nat len) p;
             Some (print [CHR 0x0A] [] p) })"

section \<open>Running and checking\<close>

definition ANSI_GREEN :: string where "ANSI_GREEN = CHR 0x1B # ''[32m''"
definition ANSI_RED :: string where "ANSI_RED = CHR 0x1B # ''[31m''"
definition ANSI_MAGENTA :: string where "ANSI_MAGENTA = CHR 0x1B # ''[35m''"
definition ANSI_RESET :: string where "ANSI_RESET = CHR 0x1B # ''[0m''"

definition TEST_SUCCESS :: int where "TEST_SUCCESS = 0"
definition TEST_FAIL :: int where "TEST_FAIL = 1"

text \<open>\<open>pr_test\<close> in function \<open>func\<close> at line \<open>line\<close>.\<close>

definition pr_test :: "string \<Rightarrow> int \<Rightarrow> string \<Rightarrow> (string + int) list \<Rightarrow> proc \<Rightarrow> proc" where
  "pr_test func line fmt args p = print (''%s:%d: '' @ fmt) (Inl func # Inr line # args) p"

definition RUN_BENCH :: "string \<Rightarrow> (proc \<Rightarrow> proc option) \<Rightarrow> proc \<Rightarrow> proc option" where
  "RUN_BENCH bench_name bench p =
     do { p \<leftarrow> bench p;
          Some (print (''%s ... '' @ ANSI_GREEN @ ''OK'' @ ANSI_RESET @ [CHR 0x0A]) [Inl bench_name] p) }"

text \<open>\<open>func\<close> is the function in which the macro is used: a failure names it, not the test.\<close>

definition RUN_TEST :: "string \<Rightarrow> string \<Rightarrow> (proc \<Rightarrow> (int \<times> proc) option) \<Rightarrow> proc \<Rightarrow> proc option" where
  "RUN_TEST func test_name test p =
     do { old_read_fn \<leftarrow> get_read_fn p;
          old_write_fn \<leftarrow> get_write_fn p;
          let p = print (''RUNNING %s'' @ [CHR 0x0A]) [Inl test_name] p;
          (ret, p) \<leftarrow> test p;
          let p = (if ret = TEST_SUCCESS
                   then print (''%s ... '' @ ANSI_GREEN @ ''OK'' @ ANSI_RESET @ [CHR 0x0A]) [Inl test_name] p
                   else print (''%s ... '' @ ANSI_RED @ ''FAIL'' @ ANSI_RESET @ [CHR 0x0A]) [Inl func] p);
          Some (set_write_fn old_write_fn (set_read_fn old_read_fn p)) }"

text \<open>The assertions of the tests: whether the test fails here, and the process after the messages.\<close>

definition ASSERT_EQ :: "string \<Rightarrow> int \<Rightarrow> int \<Rightarrow> int \<Rightarrow> proc \<Rightarrow> bool \<times> proc" where
  "ASSERT_EQ func line actual expected p =
     (if actual \<noteq> expected then
        (True, print (CHR 0x09 # ''Actual: %zi'' @ CHR 0x0A # CHR 0x09 # ''Expected: %zi'' @ [CHR 0x0A]) [Inr actual, Inr expected]
           (pr_test func line (ANSI_RED @ ''Comparison failed: '' @ CHR 0x0A # ANSI_RESET) [] p))
      else (False, p))"

definition ASSERT_EQ_BUF ::
    "user_env \<Rightarrow> string \<Rightarrow> int \<Rightarrow> byte list \<Rightarrow> byte list \<Rightarrow> nat \<Rightarrow> proc \<Rightarrow> (bool \<times> proc) option" where
  "ASSERT_EQ_BUF e func line buf_actual buf_expected len p =
     do { a \<leftarrow> mem_read buf_actual 0 len;
          b \<leftarrow> mem_read buf_expected 0 len;
          if a \<noteq> b then
            do { let p = pr_test func line (ANSI_RED @ ''Buffer comparison failed: '' @ CHR 0x0A # ANSI_RESET) [] p;
                 p \<leftarrow> user_pr_buf e buf_actual len (print (CHR 0x09 # ''Actual: '') [] p);
                 p \<leftarrow> user_pr_buf e buf_expected len (print (CHR 0x0A # CHR 0x09 # ''Expected: '') [] p);
                 Some (True, print [CHR 0x0A] [] p) }
          else Some (False, p) }"

definition assert_file_info :: "user_env \<Rightarrow> file \<Rightarrow> int \<Rightarrow> int \<Rightarrow> proc \<Rightarrow> (int \<times> proc) option" where
  "assert_file_info e f nb_blocks_expected wasted_expected p =
     do { let argp = store_file_info \<lparr>wasted = 0, nb_blocks = 0, hide_display = 1\<rparr>;
          (_, argp, p) \<leftarrow> sys_ioctl e f OUICHEFS_IOC_FILE_INFO argp p;
          let info = load_file_info argp;
          let (ret, p) =
            (if nb_blocks_expected \<noteq> nb_blocks info then
               (1, print (CHR 0x09 # ''Actual: %d'' @ CHR 0x0A # CHR 0x09 # ''Expected: %d'' @ [CHR 0x0A])
                     [Inr (nb_blocks info), Inr nb_blocks_expected]
                     (print (ANSI_RED @ ''Comparison nb_blocks failed: '' @ CHR 0x0A # ANSI_RESET) [] p))
             else (0, p));
          Some (if wasted_expected \<noteq> wasted info then
                  (1, print (CHR 0x09 # ''Actual: %d'' @ CHR 0x0A # CHR 0x09 # ''Expected: %d'' @ [CHR 0x0A])
                        [Inr (wasted info), Inr wasted_expected]
                        (print (ANSI_RED @ ''Comparison wasted failed: '' @ CHR 0x0A # ANSI_RESET) [] p))
                else (ret, p)) }"

definition ASSERT_FILE :: "user_env \<Rightarrow> file \<Rightarrow> int \<Rightarrow> int \<Rightarrow> proc \<Rightarrow> (bool \<times> proc) option" where
  "ASSERT_FILE e f nb_blocks_expected nb_wasted_expected p =
     do { (ret, p) \<leftarrow> assert_file_info e f nb_blocks_expected nb_wasted_expected p; Some (ret \<noteq> 0, p) }"

section \<open>Time and commands\<close>

definition TIME_START :: "user_env \<Rightarrow> proc \<Rightarrow> timespec \<times> proc" where
  "TIME_START e p = (clock_at e (ticks p), p\<lparr>ticks := Suc (ticks p)\<rparr>)"

text \<open>The difference is computed in 64-bit unsigned arithmetic, because of the constant, and stored as a \<open>time_t\<close>.\<close>

definition time_diff :: "timespec \<Rightarrow> timespec \<Rightarrow> int" where
  "time_diff start finish =
     int (u64 (int (u64 (tv_sec finish - tv_sec start)) * 1000000000 + int (u64 (tv_nsec finish - tv_nsec start))) div 1000)"

definition TIME_END :: "user_env \<Rightarrow> timespec \<Rightarrow> proc \<Rightarrow> int \<times> proc" where
  "TIME_END e start p = (time_diff start (clock_at e (ticks p)), p\<lparr>ticks := Suc (ticks p)\<rparr>)"

definition SHOW_FILE_INFO :: "user_env \<Rightarrow> file \<Rightarrow> proc \<Rightarrow> proc option" where
  "SHOW_FILE_INFO e f p =
     do { let info = (load_file_info (fresh_array e 12))\<lparr>hide_display := 0\<rparr>;
          (_, _, p) \<leftarrow> sys_ioctl e f OUICHEFS_IOC_FILE_INFO (store_file_info info) p;
          Some p }"

definition DEFRAG_FILE :: "user_env \<Rightarrow> file \<Rightarrow> proc \<Rightarrow> proc option" where
  "DEFRAG_FILE e f p = do { (_, _, p) \<leftarrow> sys_ioctl e f OUICHEFS_IOC_DEFRAG [] p; Some p }"

text \<open>Although the nanoseconds may decrease, the wrap-around gives the microseconds between two readings.\<close>

lemma time_diff_eq:
  assumes "t = tv_sec a * 1000000000 + tv_nsec a" "u = tv_sec b * 1000000000 + tv_nsec b" "t \<le> u" "u - t < 2 ^ 63"
  shows "time_diff a b = (u - t) div 1000"
proof -
  define x y where "x = tv_sec b - tv_sec a" and "y = tv_nsec b - tv_nsec a"
  have i: "int (u64 z) = z mod 2 ^ 64" for z by (simp add: u64_def)
  have "int (u64 (int (u64 x) * 1000000000 + int (u64 y))) = (x * 1000000000 + y) mod 2 ^ 64"
    unfolding i by (metis mod_add_left_eq mod_add_right_eq mod_mult_left_eq)
  also have "x * 1000000000 + y = u - t" using assms(1,2) by (simp add: x_def y_def algebra_simps)
  finally have "int (u64 (int (u64 x) * 1000000000 + int (u64 y))) = u - t" using assms(3,4) by simp
  then show ?thesis unfolding time_diff_def x_def [symmetric] y_def [symmetric] by (simp only: zdiv_int) simp
qed

section \<open>Sequences of numbers\<close>

text \<open>The text that \<open>init_seq_buff\<close> is meant to write: \<open>n\<close> numbers from \<open>c\<close> on, each followed by a space.\<close>

definition seq_text :: "int \<Rightarrow> nat \<Rightarrow> byte list" where
  "seq_text c n = concat (map (\<lambda>i. fmt_d (c + int i) @ [32]) [0..<n])"

lemma seq_text_0 [simp]: "seq_text c 0 = []"
  by (simp add: seq_text_def)

lemma seq_text_Suc: "seq_text c (Suc n) = (fmt_d c @ [32]) @ seq_text (c + 1) n"
proof -
  have "map (\<lambda>i. fmt_d (c + int i) @ [32]) [0..<Suc n] = (fmt_d c @ [32]) # map (\<lambda>i. fmt_d (c + 1 + int i) @ [32]) [0..<n]"
    by (simp add: upt_conv_Cons map_Suc_upt [symmetric] del: upt_Suc) (simp add: add.commute add.left_commute)
  then show ?thesis by (simp add: seq_text_def del: upt_Suc)
qed

lemma seq_text_add: "seq_text c (m + n) = seq_text c m @ seq_text (c + int m) n"
proof (induction m arbitrary: c)
  case (Suc m)
  then show ?case by (simp add: seq_text_Suc add.assoc)
qed simp

text \<open>One iteration of the loop for which the number fits.\<close>

lemma init_seq_step:
  assumes "length buf = len" "0 < len" "len < 2 ^ 31" "offset < len - 1" "tx = fmt_d c @ [32]"
    and "offset + length tx \<le> len - 1" "c + 1 < 2 ^ 31"
  shows "init_seq_loop len buf offset c = init_seq_loop len (overlay buf offset (tx @ [0])) (offset + length tx) (c + 1)"
proof -
  have u: "u64 (int len - 1) = len - 1" "u64 (int len - int offset) = len - offset"
    using assms(2-4) by (simp_all add: u64_id nat_diff_distrib)
  have "take (len - offset - 1) tx = tx" using assms(6) by simp
  moreover have fit: "int offset + (1 + int (length tx)) \<le> int len" using assms(4,6) by linarith
  ultimately have "snprintf buf offset (len - offset) tx = Some (int (length tx), overlay buf offset (tx @ [0]))"
    using assms(1,4) fit by (simp add: snprintf_def mem_write_def)
  moreover have "int offset + int (length tx) < 2 ^ 31" using assms(3,4,6) by simp
  ultimately show ?thesis
    unfolding init_seq_loop.simps [of len buf] u assms(5) [symmetric] using assms(4,7) by simp
qed

text \<open>When some number ends at the last byte, the loop stops there.\<close>

lemma init_seq_exact:
  assumes "length buf = len" "0 < len" "len < 2 ^ 31" "offset + length (seq_text c n) = len - 1" "c + int n < 2 ^ 31"
  shows "\<exists>buf'. init_seq_loop len buf offset c = Some (buf', len - 1, c + int n) \<and> length buf' = len \<and>
    take (len - 1) buf' = take offset buf @ seq_text c n"
  using assms
proof (induction n arbitrary: buf offset c)
  case 0
  then have "u64 (int len - 1) = len - 1" by (simp add: u64_id nat_diff_distrib)
  then show ?case using 0 by (simp add: init_seq_loop.simps [of len buf])
next
  case (Suc n)
  define tx where "tx = fmt_d c @ [32]"
  have len: "offset + length tx + length (seq_text (c + 1) n) = len - 1" using Suc.prems(4) by (simp add: seq_text_Suc tx_def)
  have "length tx > 0" by (simp add: tx_def)
  with len have lt: "offset < len - 1" by linarith
  have fit: "offset + length tx \<le> len - 1" "c + 1 < 2 ^ 31" using len Suc.prems(5) by simp_all
  note step = init_seq_step [OF Suc.prems(1-3) lt tx_def fit]
  have "length (overlay buf offset (tx @ [0])) = len" using fit(1) lt Suc.prems(1) by simp
  from Suc.IH [OF this Suc.prems(2,3) len] Suc.prems(5) obtain buf' where
    b: "init_seq_loop len (overlay buf offset (tx @ [0])) (offset + length tx) (c + 1) = Some (buf', len - 1, c + 1 + int n)"
      "length buf' = len" "take (len - 1) buf' = take (offset + length tx) (overlay buf offset (tx @ [0])) @ seq_text (c + 1) n"
    by auto
  have "take (offset + length tx) (overlay buf offset (tx @ [0])) = take offset buf @ tx"
    using lt Suc.prems(1) by (simp add: overlay_def)
  then show ?case using step b by (simp add: seq_text_Suc tx_def add.assoc [symmetric])
qed

text \<open>When none does, the loop ends behind the array or overflows an integer.\<close>

lemma init_seq_past:
  assumes "length buf = len" "0 < len" "len < 2 ^ 31" "\<forall>n. offset + length (seq_text c n) \<noteq> len - 1"
  shows "case init_seq_loop len buf offset c of None \<Rightarrow> True | Some (buf', offset', _) \<Rightarrow> length buf' = len \<and> len \<le> offset'"
  using assms
proof (induction "len - offset" arbitrary: buf offset c rule: less_induct)
  case less
  define tx where "tx = fmt_d c @ [32]"
  have u: "u64 (int len - 1) = len - 1" using less.prems(2,3) by (simp add: u64_id nat_diff_distrib)
  have ne: "offset \<noteq> len - 1" using less.prems(4) [rule_format, of 0] by simp
  show ?case
  proof (cases "offset < len - 1")
    case False
    then show ?thesis using ne u less.prems(1,2) by (simp add: init_seq_loop.simps [of len buf])
  next
    case True
    define b where "b = overlay buf offset (take (len - offset - 1) tx @ [0])"
    have b: "length b = len" using True less.prems(1) by (simp add: b_def)
    have u2: "u64 (int len - int offset) = len - offset" using True less.prems(3) by (simp add: u64_id nat_diff_distrib)
    have "int offset + (1 + int (min (length tx) (len - Suc offset))) \<le> int len" using True by linarith
    then have "snprintf buf offset (len - offset) tx = Some (int (length tx), b)"
      using True less.prems(1) by (simp add: snprintf_def mem_write_def b_def)
    then have step: "init_seq_loop len buf offset c =
        (if 2 ^ 31 \<le> int offset + int (length tx) \<or> 2 ^ 31 \<le> c + 1 then None else init_seq_loop len b (offset + length tx) (c + 1))"
      unfolding init_seq_loop.simps [of len buf] u u2 tx_def [symmetric] using True by simp
    have "\<forall>n. offset + length tx + length (seq_text (c + 1) n) \<noteq> len - 1"
      using less.prems(4) [rule_format, of "Suc n" for n] by (simp add: seq_text_Suc tx_def add.assoc)
    moreover have "len - (offset + length tx) < len - offset" using True by (simp add: tx_def)
    ultimately show ?thesis using step less.hyps [OF _ b less.prems(2,3)] by simp
  qed
qed

lemma init_seq_buff_done:
  assumes "length buf = len" "0 < len" "len < 2 ^ 31" "length (seq_text c n) = len - 1" "c + int n < 2 ^ 31"
  shows "init_seq_buff buf len c = Some (seq_text c n @ [0], c + int n)"
proof -
  from init_seq_exact [of buf len 0 c n] assms obtain buf' where
    b: "init_seq_loop len buf 0 c = Some (buf', len - 1, c + int n)" "length buf' = len" "take (len - 1) buf' = seq_text c n" by auto
  have "buf'[len - 1 := 0] = seq_text c n @ [0]" using b(2,3) assms(2) by (simp add: upd_conv_take_nth_drop)
  moreover have "arr_set buf' (int (len - 1)) 0 = Some (buf'[len - 1 := 0])"
    by (rule arr_set_int) (use b(2) assms(2) in simp)
  ultimately show ?thesis unfolding init_seq_buff_def b(1) by simp
qed

lemma init_seq_buff_past:
  assumes "length buf = len" "0 < len" "len < 2 ^ 31" "\<forall>n. length (seq_text c n) \<noteq> len - 1"
  shows "init_seq_buff buf len c = None"
  using init_seq_past [of buf len 0 c] assms
  by (auto simp: init_seq_buff_def arr_set_def split: option.splits bind_splits)

text \<open>The length of the text, by the number of digits.\<close>

lemma length_digits: "\<lbrakk>n < 10 ^ Suc k; k = 0 \<or> 10 ^ k \<le> n\<rbrakk> \<Longrightarrow> length (digits n) = Suc k"
proof (induction k arbitrary: n)
  case (Suc k)
  then have "n div 10 < 10 ^ Suc k" "10 ^ k \<le> n div 10" "10 \<le> n"
    by (auto simp: less_mult_imp_div_less mult.commute div_le_mono [of "10 * 10 ^ k" n 10, simplified] intro: order_trans [rotated])
  then show ?case using Suc.IH [of "n div 10"] by (simp add: digits.simps [of n])
qed (simp add: digits.simps)

lemma length_seq_text:
  "\<lbrakk>k = 0 \<or> 10 ^ k \<le> c; c + n \<le> 10 ^ Suc k\<rbrakk> \<Longrightarrow> length (seq_text (int c) n) = (k + 2) * n"
proof (induction n arbitrary: c)
  case (Suc n)
  have "length (fmt_d (int c)) = Suc k" using length_digits [of c k] Suc.prems by (simp add: fmt_d_def)
  moreover have "length (seq_text (int (Suc c)) n) = (k + 2) * n" using Suc.prems by (intro Suc.IH) auto
  ultimately show ?case by (simp add: seq_text_Suc add.commute)
qed simp

lemma length_seq_text_add: "length (seq_text c (m + n)) = length (seq_text c m) + length (seq_text (c + int m) n)"
  by (simp add: seq_text_add)

lemma length_seq_text_mono: "m \<le> n \<Longrightarrow> length (seq_text c m) \<le> length (seq_text c n)"
  using length_seq_text_add [of c m "n - m"] by simp

lemma seq_text_decades:
  "length (seq_text 0 10) = 20" "length (seq_text 10 90) = 270" "length (seq_text 100 900) = 3600"
  "length (seq_text 1000 9000) = 45000" "length (seq_text 10000 90000) = 540000"
  using length_seq_text [of 0 0 10] length_seq_text [of 1 10 90] length_seq_text [of 2 100 900]
    length_seq_text [of 3 1000 9000] length_seq_text [of 4 10000 90000] by simp_all

text \<open>From 0 on, a text reaches the end of 2000000 bytes exactly, and those of 256 bytes it does not.\<close>

lemma seq_text_2000000: "length (seq_text 0 301587) = 1999999"
proof -
  have "length (seq_text 100000 201587) = 7 * 201587" using length_seq_text [of 5 100000 201587] by simp
  then show ?thesis
    using length_seq_text_add [of 0 10 90] length_seq_text_add [of 0 100 900] length_seq_text_add [of 0 1000 9000]
      length_seq_text_add [of 0 10000 90000] length_seq_text_add [of 0 100000 201587] seq_text_decades by simp
qed

lemma seq_text_256: "length (seq_text 0 n) \<noteq> 255"
proof -
  consider "n \<le> 10" | "10 < n" "n \<le> 100" | "100 < n" by linarith
  then show ?thesis
  proof cases
    case 1
    then show ?thesis using length_seq_text [of 0 0 n] by simp
  next
    case 2
    then have "length (seq_text 0 n) = 20 + 3 * (n - 10)"
      using length_seq_text_add [of 0 10 "n - 10"] length_seq_text [of 1 10 "n - 10"] seq_text_decades(1) by simp
    then show ?thesis by presburger
  next
    case 3
    then have "length (seq_text 0 100) \<le> length (seq_text 0 n)" by (intro length_seq_text_mono) simp
    then show ?thesis using length_seq_text_add [of 0 10 90] seq_text_decades(1,2) by simp
  qed
qed

section \<open>Properties\<close>

text \<open>
  C37: What \<open>init_seq_buff\<close> does to an array of \<open>len\<close> bytes: when the text of the first \<open>n\<close> numbers is one byte
  shorter than the array, it stores this text with a final zero byte and has counted \<open>n\<close> numbers; when
  no number ends there, as in the arrays of 256 bytes of the benchmarks, it writes behind the array.
\<close>

theorem init_seq_buff_outcome:
  assumes "length buf = len" "0 < len" "len < 2 ^ 31"
  shows "(\<forall>n. length (seq_text c n) = len - 1 \<and> c + int n < 2 ^ 31 \<longrightarrow>
      init_seq_buff buf len c = Some (seq_text c n @ [0], c + int n)) \<and>
    ((\<forall>n. length (seq_text c n) \<noteq> len - 1) \<longrightarrow> init_seq_buff buf len c = None)"
  using init_seq_buff_done [OF assms] init_seq_buff_past [OF assms] by simp

theorem init_seq_buff_outcome_witness:
  "init_seq_buff (replicate 2000000 7) 2000000 0 = Some (seq_text 0 301587 @ [0], 301587) \<and>
   init_seq_buff (replicate 256 7) 256 0 = None"
proof
  have l: "length (replicate 2000000 (7 :: byte)) = 2000000" "(0 :: nat) < 2000000" "(2000000 :: nat) < 2 ^ 31" by simp_all
  from init_seq_buff_outcome [OF l, of 0, THEN conjunct1, rule_format, of 301587] seq_text_2000000
  show "init_seq_buff (replicate 2000000 7) 2000000 0 = Some (seq_text 0 301587 @ [0], 301587)" by simp
  show "init_seq_buff (replicate 256 7) 256 0 = None"
    using init_seq_buff_outcome [of "replicate 256 7" 256 0] seq_text_256 by simp
qed

text \<open>The codes that a loaded module can show: the ones with a meaning.\<close>

definition codes_ok :: "kmodule \<Rightarrow> bool" where
  "codes_ok m \<longleftrightarrow> read_decode (read_fn m) \<noteq> None \<and> write_decode (write_fn m) \<noteq> None \<and>
     {''read_fn'', ''write_fn''} \<subseteq> set (sysfs_files m)"

text \<open>Storing a code is an event of the sysfs files.\<close>

lemma set_fn_events:
  "''read_fn'' \<in> set (sysfs_files (kmod p)) \<Longrightarrow> set_read_fn c p = p\<lparr>kmod := handle (Store_read [c]) (kmod p)\<rparr>"
  "''write_fn'' \<in> set (sysfs_files (kmod p)) \<Longrightarrow> set_write_fn c p = p\<lparr>kmod := handle (Store_write [c]) (kmod p)\<rparr>"
  by (simp_all add: set_read_fn_def set_write_fn_def)

lemma handle_sysfs_files [simp]: "sysfs_files (handle ev m) = sysfs_files m"
  by (cases ev) (simp_all add: read_fn_store_def write_fn_store_def Let_def)

lemma restored:
  assumes "{''read_fn'', ''write_fn''} \<subseteq> set (sysfs_files (kmod q))" "read_decode c = Some g" "write_decode d = Some h"
    and p: "p = set_write_fn d (set_read_fn c q)"
  shows "read_fn (kmod p) = c" "write_fn (kmod p) = d" "ops_read (kmod p) = g" "ops_write (kmod p) = h"
    "sysfs_files (kmod p) = sysfs_files (kmod q)" "disk p = disk q"
proof -
  define m where "m = handle (Store_read [c]) (kmod q)"
  have m: "p = q\<lparr>kmod := handle (Store_write [d]) m\<rparr>" using assms(1) by (simp add: p set_fn_events m_def del: handle.simps)
  have "read_fn m = c" "ops_read m = g"
    using read_sel.valid [of "Store_read [c]" "[c]" g "kmod q"] assms(2) by (simp_all add: m_def first_char_def del: handle.simps)
  moreover have "read_fn (handle (Store_write [d]) m) = read_fn m" "ops_read (handle (Store_write [d]) m) = ops_read m"
    using read_sel.invalid [of "Store_write [d]" m] by (simp_all del: handle.simps)
  moreover have "write_fn (handle (Store_write [d]) m) = d" "ops_write (handle (Store_write [d]) m) = h"
    using write_sel.valid [of "Store_write [d]" "[d]" h m] assms(3) by (simp_all add: first_char_def del: handle.simps)
  ultimately show "read_fn (kmod p) = c" "write_fn (kmod p) = d" "ops_read (kmod p) = g" "ops_write (kmod p) = h"
    "sysfs_files (kmod p) = sysfs_files (kmod q)" "disk p = disk q" by (simp_all add: m m_def del: handle.simps)
qed

text \<open>
  C38: \<open>RUN_TEST\<close> returns when its test does, and whatever the test selected, the sysfs files then show the
  codes they showed before, with the functions of these codes in use. Only when no code has been
  written since the module was loaded does this change the functions: from \<open>ouichefs_read\<close> and
  \<open>ouichefs_write\<close> to the generic ones of the kernel.
\<close>

theorem run_test_restores:
  assumes "codes_ok (kmod p)" "test (print (''RUNNING %s'' @ [CHR 0x0A]) [Inl name] p) = Some (ret, q)"
    and "sysfs_files (kmod q) = sysfs_files (kmod p)"
  shows "\<exists>p'. RUN_TEST func name test p = Some p' \<and> disk p' = disk q \<and> codes_ok (kmod p') \<and>
    get_read_fn p' = get_read_fn p \<and> get_write_fn p' = get_write_fn p \<and>
    read_decode (read_fn (kmod p)) = Some (ops_read (kmod p')) \<and> write_decode (write_fn (kmod p)) = Some (ops_write (kmod p'))"
proof -
  define q' where "q' = (if ret = TEST_SUCCESS then print (''%s ... '' @ ANSI_GREEN @ ''OK'' @ ANSI_RESET @ [CHR 0x0A]) [Inl name] q
    else print (''%s ... '' @ ANSI_RED @ ''FAIL'' @ ANSI_RESET @ [CHR 0x0A]) [Inl func] q)"
  have q': "kmod q' = kmod q" "disk q' = disk q" by (simp_all add: q'_def print_def)
  have files: "''read_fn'' \<in> set (sysfs_files (kmod p))" "''write_fn'' \<in> set (sysfs_files (kmod p))" using assms(1) by (simp_all add: codes_ok_def)
  have "\<exists>g h. read_decode (read_fn (kmod p)) = Some g \<and> write_decode (write_fn (kmod p)) = Some h"
    using assms(1) unfolding codes_ok_def by blast
  then obtain g h where gh: "read_decode (read_fn (kmod p)) = Some g" "write_decode (write_fn (kmod p)) = Some h" by blast
  define p' where "p' = set_write_fn (write_fn (kmod p)) (set_read_fn (read_fn (kmod p)) q')"
  have "{''read_fn'', ''write_fn''} \<subseteq> set (sysfs_files (kmod q'))" using files assms(3) q' by simp
  note r = restored [OF this gh p'_def]
  have "RUN_TEST func name test p = Some p'"
    using files assms(2) by (simp add: RUN_TEST_def get_read_fn_def get_write_fn_def read_fn_show_def write_fn_show_def p'_def q'_def Let_def)
  then show ?thesis
    using r gh files assms(1,3) q' by (auto simp: get_read_fn_def get_write_fn_def read_fn_show_def write_fn_show_def codes_ok_def)
qed

text \<open>A process on the example partition, right after the module was loaded.\<close>

definition demo_user :: user_env where
  "demo_user = \<lparr>kern = demo_env, cached_page = (\<lambda>_. None), generic_read = (\<lambda>f buf n pos s. Some (0, pos, buf)),
     generic_write = (\<lambda>f buf n pos s. Some (0, pos, s)), printable = (\<lambda>c. 32 \<le> c \<and> c < 127), rand_at = int,
     clock_at = (\<lambda>_. demo_time), synced_disk = id, uninit = (\<lambda>_. 0)\<rparr>"

definition demo_proc :: proc where
  "demo_proc = \<lparr>kmod = module_data\<lparr>inode_cache := Live_cache, registered := True, kobj_sysfs := True,
       sysfs_files := [''read_fn'', ''write_fn'']\<rparr>,
     disk = demo_fs, f_pos = 0, rands = 0, ticks = 0, klog = [], printed = []\<rparr>"

lemma demo_proc_simps [simp]:
  "kern demo_user = demo_env" "disk demo_proc = demo_fs" "codes_ok (kmod demo_proc)" "f_pos demo_proc = 0"
  "ops_read (kmod demo_proc) = Some Op_read" "read_fn (kmod demo_proc) = CHR ''0''" "write_fn (kmod demo_proc) = CHR ''0''"
  "get_read_fn demo_proc = Some (CHR ''0'')"
  by (simp_all add: demo_user_def demo_proc_def codes_ok_def module_data_def read_decode_def write_decode_def
      get_read_fn_def read_fn_show_def)

theorem run_test_restores_witness:
  "\<exists>p'. RUN_TEST ''main'' ''test'' (\<lambda>p. Some (0, set_read_fn LIGHT_READ p)) demo_proc = Some p' \<and>
     get_read_fn p' = Some (CHR ''0'') \<and> ops_read (kmod demo_proc) = Some Op_read \<and> ops_read (kmod p') = None"
proof -
  have "sysfs_files (kmod (set_read_fn c (print a b p))) = sysfs_files (kmod p)" for a b c p
    by (simp add: set_read_fn_def print_def read_fn_store_def Let_def)
  from run_test_restores [OF demo_proc_simps(3), of "\<lambda>p. Some (0, set_read_fn LIGHT_READ p)", OF refl this, of "''main''" "''test''"]
  show ?thesis by (auto simp: read_decode_def)
qed

text \<open>\<open>assert_file_info\<close> accepts exactly the number of blocks and the padding of the file, and then leaves no trace.\<close>

lemma assert_file_info_checks:
  assumes "fs_wf (disk p)" "file_wf (disk p) (f_inode f)" "disk_ok (kern e) (disk p)"
  defines "es \<equiv> data_entries (disk p) (f_inode f)"
  shows "\<exists>ret p'. assert_file_info e f nb wa p = Some (ret, p') \<and> disk p' = disk p \<and> klog p' = klog p \<and>
    (ret = 0 \<longleftrightarrow> nb = int (length es) \<and> wa = 4096 * int (length es) - i_size (inodes (disk p) (f_inode f))) \<and> (ret = 0 \<longrightarrow> p' = p)"
proof -
  let ?argp = "store_file_info \<lparr>wasted = 0, nb_blocks = 0, hide_display = 1\<rparr>"
  have l: "load_file_info ?argp = \<lparr>wasted = 0, nb_blocks = 0, hide_display = 1\<rparr>" by (rule load_store_file_info) simp_all
  from ioctl_file_info [OF assms(1,2) refl assms(3), of ?argp "printable e"] obtain argp' log where
    i: "ouichefs_ioctl (kern e) (printable e) f OUICHEFS_IOC_FILE_INFO ?argp (disk p) = Some (0, argp', log, disk p)"
      "load_file_info argp' = \<lparr>wasted = 4096 * int (length es) - i_size (inodes (disk p) (f_inode f)), nb_blocks = int (length es), hide_display = 1\<rparr>"
      "log = []" unfolding l by (auto simp: es_def)
  then show ?thesis by (auto simp: assert_file_info_def sys_ioctl_def print_def Let_def)
qed

end
