(* ===== verification/Bench.thy ===== *)
theory Bench
  imports Userland
begin

text \<open>
  The programs of the user tools: the benchmarks bench_insert.c and bench.c and the demonstration demo.c. Each
  function takes the descriptor of the file it opens. The benchmark that inserts by reading and
  rewriting and the one that lets the module insert leave the same bytes; the other two
  benchmarks overrun an array; the demonstration prints what it announces.
\<close>

section \<open>bench_insert.c\<close>

definition LEN_INIT :: nat where "LEN_INIT = 2000000"
definition LEN_INSERT :: nat where "LEN_INSERT = 1000000"
definition OFFSET :: nat where "OFFSET = 5000"

text \<open>The global arrays are filled before every use; \<open>w0\<close> and \<open>w1\<close> are what they held before.\<close>

definition init_buffers :: "user_env \<Rightarrow> byte list \<Rightarrow> byte list \<Rightarrow> proc \<Rightarrow> (byte list \<times> byte list \<times> proc) option" where
  "init_buffers e w0 w1 p =
     do { (wbuf_init, _) \<leftarrow> init_seq_buff w0 LEN_INIT 0;
          (wbuf_insert, p) \<leftarrow> init_rand_buf e w1 LEN_INSERT p;
          Some (wbuf_init, wbuf_insert, p) }"

definition bench_insert_user :: "user_env \<Rightarrow> file \<Rightarrow> byte list \<Rightarrow> byte list \<Rightarrow> proc \<Rightarrow> proc option" where
  "bench_insert_user e f w0 w1 p =
     do { p \<leftarrow> sys_open e f p;
          let p = set_write_fn SIMPLE_WRITE p;
          let p = set_read_fn SIMPLE_READ p;
          (wbuf_init, wbuf_insert, p) \<leftarrow> init_buffers e w0 w1 p;
          (_, p) \<leftarrow> sys_write e f wbuf_init LEN_INIT p;
          let (file_size, p) = sys_lseek f 0 SEEK_END p;
          let len_old = u64 (file_size - int OFFSET);
          let rbuf_old = fresh_array e len_old;
          let (start, p) = TIME_START e p;
          let (_, p) = sys_lseek f (int OFFSET) SEEK_SET p;
          (_, rbuf_old, p) \<leftarrow> sys_read e f rbuf_old len_old p;
          let (_, p) = sys_lseek f (int (OFFSET + LEN_INSERT)) SEEK_SET p;
          (_, p) \<leftarrow> sys_write e f rbuf_old len_old p;
          let (_, p) = sys_lseek f (int OFFSET) SEEK_SET p;
          (_, p) \<leftarrow> sys_write e f wbuf_insert LEN_INSERT p;
          let (w_time, p) = TIME_END e start p;
          Some (pr_test ''bench_insert_user'' 55 (''Total write time without optimization: %ld ms'' @ [CHR 0x0A])
                  [Inr (w_time sdiv 1000)] p) }"

definition bench_insert_lite_write :: "user_env \<Rightarrow> file \<Rightarrow> byte list \<Rightarrow> byte list \<Rightarrow> proc \<Rightarrow> proc option" where
  "bench_insert_lite_write e f w0 w1 p =
     do { p \<leftarrow> sys_open e f p;
          let p = set_write_fn SIMPLE_WRITE p;
          (wbuf_init, wbuf_insert, p) \<leftarrow> init_buffers e w0 w1 p;
          let p = set_write_fn LIGHT_WRITE p;
          let p = set_read_fn LIGHT_READ p;
          (_, p) \<leftarrow> sys_write e f wbuf_init LEN_INIT p;
          let (start, p) = TIME_START e p;
          let (_, p) = sys_lseek f (int OFFSET) SEEK_SET p;
          (_, p) \<leftarrow> sys_write e f wbuf_insert LEN_INSERT p;
          let (w_time, p) = TIME_END e start p;
          Some (pr_test ''bench_insert_lite_write'' 83 (''Total write time with optimization: %ld ms'' @ [CHR 0x0A])
                  [Inr (w_time sdiv 1000)] p) }"

text \<open>The insertions at the start of the file, \<open>n\<close> of them at most; a write that returns 0 ends them.\<close>

fun defrag_fill :: "user_env \<Rightarrow> file \<Rightarrow> nat \<Rightarrow> byte list \<Rightarrow> nat \<Rightarrow> proc \<Rightarrow> proc option" where
  "defrag_fill e f 0 wbuf len p = Some p"
| "defrag_fill e f (Suc n) wbuf len p =
     do { let (_, p) = sys_lseek f 0 SEEK_SET p;
          (written, p) \<leftarrow> sys_write e f wbuf len p;
          if written = 0 then Some p else defrag_fill e f n wbuf len p }"

definition bench_insert_defrag :: "user_env \<Rightarrow> file \<Rightarrow> proc \<Rightarrow> proc option" where
  "bench_insert_defrag e f p =
     do { p \<leftarrow> sys_open e f p;
          let len = 256;
          let total_len = MAX_FILESIZE;
          (wbuf, _) \<leftarrow> init_seq_buff (fresh_array e len) len 0;
          p \<leftarrow> defrag_fill e f (total_len div len) wbuf len p;
          let rbuf = fresh_array e total_len;
          let (start, p) = TIME_START e p;
          let (_, p) = sys_lseek f 0 SEEK_SET p;
          (_, rbuf, p) \<leftarrow> sys_read e f rbuf total_len p;
          let (r_time, p) = TIME_END e start p;
          p \<leftarrow> DEFRAG_FILE e f p;
          let (start, p) = TIME_START e p;
          let (_, p) = sys_lseek f 0 SEEK_SET p;
          (_, rbuf, p) \<leftarrow> sys_read e f rbuf total_len p;
          let (r_time_defrag, p) = TIME_END e start p;
          let p = pr_test ''bench_insert_defrag'' 127 (''Total read time before defrag: %ld us'' @ [CHR 0x0A]) [Inr r_time] p;
          Some (pr_test ''bench_insert_defrag'' 128 (''Total read time after defrag: %ld us'' @ [CHR 0x0A]) [Inr r_time_defrag] p) }"

definition bench_insert_main :: "user_env \<Rightarrow> file \<Rightarrow> file \<Rightarrow> file \<Rightarrow> byte list \<Rightarrow> byte list \<Rightarrow> proc \<Rightarrow> (int \<times> proc) option" where
  "bench_insert_main e f1 f2 f3 w0 w1 p =
     do { p \<leftarrow> RUN_BENCH ''bench_insert_user'' (bench_insert_user e f1 w0 w1) p;
          p \<leftarrow> RUN_BENCH ''bench_insert_lite_write'' (bench_insert_lite_write e f2 w0 w1) p;
          p \<leftarrow> RUN_BENCH ''bench_insert_defrag'' (bench_insert_defrag e f3) p;
          Some (0, p) }"

section \<open>bench.c\<close>

text \<open>The positions that the two loops of \<open>bench_write_read\<close> write at.\<close>

definition bench_offsets :: "nat list" where
  "bench_offsets =
     concat (map (\<lambda>i. map (\<lambda>j. i + j) (filter (\<lambda>j. j < BLOCK_SIZE) (map (\<lambda>k. k * (BLOCK_SIZE div 5)) [0..<BLOCK_SIZE])))
       (map (\<lambda>k. k * BLOCK_SIZE) [0..<MAX_FILESIZE div BLOCK_SIZE]))"

fun bench_writes :: "user_env \<Rightarrow> file \<Rightarrow> nat list \<Rightarrow> byte list \<Rightarrow> nat \<Rightarrow> int \<Rightarrow> proc \<Rightarrow> (int \<times> proc) option" where
  "bench_writes e f [] wbuf len w_time p = Some (w_time, p)"
| "bench_writes e f (pos # rest) wbuf len w_time p =
     do { let (_, p) = sys_lseek f (int pos) SEEK_SET p;
          let (start, p) = TIME_START e p;
          (_, p) \<leftarrow> sys_write e f wbuf len p;
          let (diff, p) = TIME_END e start p;
          bench_writes e f rest wbuf len (w_time + diff) p }"

fun bench_reads :: "user_env \<Rightarrow> file \<Rightarrow> nat \<Rightarrow> byte list \<Rightarrow> nat \<Rightarrow> int \<Rightarrow> proc \<Rightarrow> (int \<times> proc) option" where
  "bench_reads e f 0 rbuf len r_time p = Some (r_time, p)"
| "bench_reads e f (Suc n) rbuf len r_time p =
     do { let (start, p) = TIME_START e p;
          (_, rbuf, p) \<leftarrow> sys_read e f rbuf len p;
          let (diff, p) = TIME_END e start p;
          bench_reads e f n rbuf len (r_time + diff) p }"

definition bench_write_read :: "user_env \<Rightarrow> file \<Rightarrow> proc \<Rightarrow> proc option" where
  "bench_write_read e f p =
     do { p \<leftarrow> sys_open e f p;
          let len = 256;
          (wbuf, _) \<leftarrow> init_seq_buff (fresh_array e len) len 0;
          (w_time, p) \<leftarrow> bench_writes e f bench_offsets wbuf len 0 p;
          let p = flush_cache e p;
          let (_, p) = sys_lseek f 0 SEEK_SET p;
          (r_time, p) \<leftarrow> bench_reads e f (MAX_FILESIZE div len) (fresh_array e len) len 0 p;
          let p = print [CHR 0x0A] [] p;
          let p = pr_test ''bench_write_read'' 41 (''Total write time: %ld ms'' @ [CHR 0x0A]) [Inr (w_time sdiv 1000)] p;
          Some (pr_test ''bench_write_read'' 42 (''Total read time: %ld ms'' @ [CHR 0x0A]) [Inr (r_time sdiv 1000)] p) }"

definition bench_main :: "user_env \<Rightarrow> file \<Rightarrow> proc \<Rightarrow> (int \<times> proc) option" where
  "bench_main e f p = do { p \<leftarrow> RUN_BENCH ''bench_write_read'' (bench_write_read e f) p; Some (0, p) }"

section \<open>demo.c\<close>

definition bytes_of :: "string \<Rightarrow> byte list" where
  "bytes_of = map of_char"

lemma length_bytes_of [simp]: "length (bytes_of xs) = length xs"
  by (simp add: bytes_of_def)

definition demo_wbuf :: "byte list" where
  "demo_wbuf = bytes_of (''Ceci est le debut de la demo!'' @ [CHR 0x0A])"

definition demo_wbuf2 :: "byte list" where
  "demo_wbuf2 = bytes_of (''|Intrusion!'' @ [CHR 0x0A] @ ''|'')"

definition demo_wbuf3 :: "byte list" where
  "demo_wbuf3 = bytes_of (''Apres la fin du fichier!'' @ [CHR 0x0A])"

text \<open>The text of the messages, with the UTF-8 bytes of its two accented letters.\<close>

definition e_acute :: string where "e_acute = [CHR 0xC3, CHR 0xA9]"
definition e_grave :: string where "e_grave = [CHR 0xC3, CHR 0xA8]"

definition demo_say :: "string \<Rightarrow> proc \<Rightarrow> proc" where
  "demo_say msg p = print (ANSI_MAGENTA @ msg @ ANSI_RESET @ [CHR 0x0A]) [] p"

text \<open>The block print, and the end of the program when it fails.\<close>

definition demo_print :: "user_env \<Rightarrow> file \<Rightarrow> (proc \<Rightarrow> (int \<times> proc) option) \<Rightarrow> proc \<Rightarrow> (int \<times> proc) option" where
  "demo_print e f rest p =
     do { (ret, _, p) \<leftarrow> sys_ioctl e f OUICHEFS_IOC_FILE_BLOCK_PRINT [] p;
          if ret < 0 then Some (-1, print (''error in ioctl'' @ [CHR 0x0A]) [] p) else rest p }"

definition demo_main :: "user_env \<Rightarrow> file \<Rightarrow> proc \<Rightarrow> (int \<times> proc) option" where
  "demo_main e f p =
     do { p \<leftarrow> sys_open e f p;
          (_, p) \<leftarrow> sys_write e f demo_wbuf (length demo_wbuf) p;
          let p = print (ANSI_MAGENTA @ ''D'' @ e_acute @ ''but de la d'' @ e_acute @ ''mo !'' @ CHR 0x0A # ANSI_RESET) [] p;
          let p = demo_say (''On commence par ins'' @ e_acute @ ''rer un texte dans un fichier vide :'' @ [CHR 0x0A]) p;
          demo_print e f (\<lambda>p.
            do { let (_, p) = sys_lseek f 9 SEEK_SET p;
                 (_, p) \<leftarrow> sys_write e f demo_wbuf2 (length demo_wbuf2) p;
                 let p = demo_say (CHR 0x0A # ''On ins'' @ e_grave @ ''re ensuite un texte au milieu de celui-ci : '' @ [CHR 0x0A]) p;
                 demo_print e f (\<lambda>p.
                   do { let (end_pos, p) = sys_lseek f 0 SEEK_END p;
                        let (_, p) = sys_lseek f (end_pos + 31) SEEK_SET p;
                        (_, p) \<leftarrow> sys_write e f demo_wbuf3 (length demo_wbuf3) p;
                        let p = demo_say (CHR 0x0A # ''On ajoute apres la fin du fichier : '' @ [CHR 0x0A]) p;
                        demo_print e f (\<lambda>p.
                          do { p \<leftarrow> DEFRAG_FILE e f p;
                               let p = demo_say (CHR 0x0A # ''On run la defragmentation : '' @ [CHR 0x0A]) p;
                               demo_print e f (\<lambda>p. Some (0, p)) p }) p }) p }) p }"

section \<open>System calls that succeed\<close>

lemma sys_write_ok:
  assumes "ops_write (kmod p) = Some op" "length buf = len" "write_impl op (kern e) f buf len (f_pos p) (disk p) = Some (int len, pos, s)"
  shows "sys_write e f buf len p = Some (int len, p\<lparr>disk := s, f_pos := pos\<rparr>)"
  using assms by (simp add: sys_write_def)

lemma sys_read_ok:
  assumes "ops_read (kmod p) = Some op" "length buf = len" "read_impl (cached_page e) op (kern e) f buf len (f_pos p) (disk p) = Some (int n, pos, dst)"
  shows "sys_read e f buf len p = Some (int n, dst, p\<lparr>f_pos := pos\<rparr>)"
  using assms by (simp add: sys_read_def)

lemma sys_open_rdwr: "f_flags f = O_RDWR \<Longrightarrow> sys_open e f p = Some (p\<lparr>f_pos := 0\<rparr>)"
  by (simp add: sys_open_def ouichefs_open_def O_RDWR_def O_TRUNC_def Let_def)

lemma rdwr_flags [simp]: "f_flags f = O_RDWR \<Longrightarrow> write_pos f pos s = pos" "f_flags f = O_RDWR \<Longrightarrow> read_flags f = 0"
  by (simp_all add: write_pos_def read_flags_def O_RDWR_def O_APPEND_def O_WRONLY_def)

lemma sys_lseek_set: "\<lbrakk>0 \<le> pos; pos \<le> 4194304\<rbrakk> \<Longrightarrow> sys_lseek f pos SEEK_SET p = (pos, p\<lparr>f_pos := pos\<rparr>)"
  by (simp add: sys_lseek_def OUICHEFS_MAX_FILESIZE_def)

lemma sys_lseek_end:
  "\<lbrakk>i_size (inodes (disk p) (f_inode f)) = n; 0 \<le> n; n \<le> 4194304\<rbrakk> \<Longrightarrow> sys_lseek f 0 SEEK_END p = (n, p\<lparr>f_pos := n\<rparr>)"
  by (simp add: sys_lseek_def OUICHEFS_MAX_FILESIZE_def)

text \<open>The random bytes of an array, \<open>n\<close> numbers from the \<open>k\<close>-th on.\<close>

definition rand_bytes :: "user_env \<Rightarrow> nat \<Rightarrow> nat \<Rightarrow> byte list" where
  "rand_bytes e k n = map (\<lambda>i. word_of_int (rand_at e (k + i) smod 127)) [0..<n]"

lemma length_rand_bytes [simp]: "length (rand_bytes e k n) = n"
  by (simp add: rand_bytes_def)

lemma rand_bytes_Suc: "rand_bytes e k (Suc n) = word_of_int (rand_at e k smod 127) # rand_bytes e (Suc k) n"
  by (simp add: rand_bytes_def upt_conv_Cons map_Suc_upt [symmetric] comp_def del: upt_Suc)

lemma init_rand_loop_eq:
  "i + n \<le> length buf \<Longrightarrow> init_rand_loop e i n buf p =
     Some (take i buf @ rand_bytes e (rands p) n @ drop (i + n) buf, p\<lparr>rands := rands p + n\<rparr>)"
proof (induction n arbitrary: i buf p)
  case (Suc n)
  define c where "c = (word_of_int (rand_at e (rands p) smod 127) :: byte)"
  have "arr_set buf (int i) c = Some (buf[i := c])" using Suc.prems by (simp add: arr_set_def)
  moreover have "take (Suc i) (buf[i := c]) = take i buf @ [c]" "drop (Suc i + n) (buf[i := c]) = drop (Suc (i + n)) buf"
    using Suc.prems by (simp_all add: take_Suc_conv_app_nth)
  ultimately show ?case using Suc.IH [of "Suc i" "buf[i := c]" "p\<lparr>rands := Suc (rands p)\<rparr>"] Suc.prems
    by (simp add: c_def [symmetric] rand_bytes_Suc)
qed (simp add: rand_bytes_def)

lemma init_rand_buf_eq: "length buf = len \<Longrightarrow> init_rand_buf e buf len p = Some (rand_bytes e (rands p) len, p\<lparr>rands := rands p + len\<rparr>)"
  using init_rand_loop_eq [of 0 len buf] by (simp add: init_rand_buf_def)

lemma init_buffers_eq:
  assumes "length w0 = LEN_INIT" "length w1 = LEN_INSERT"
  shows "init_buffers e w0 w1 p = Some (seq_text 0 301587 @ [0], rand_bytes e (rands p) LEN_INSERT, p\<lparr>rands := rands p + LEN_INSERT\<rparr>)"
proof -
  have "init_seq_buff w0 LEN_INIT 0 = Some (seq_text 0 301587 @ [0], 0 + int 301587)"
    using assms(1) seq_text_2000000 by (intro init_seq_buff_done) (simp_all add: LEN_INIT_def)
  then show ?thesis using init_rand_buf_eq [OF assms(2)] by (simp add: init_buffers_def)
qed

section \<open>Inserting in two ways\<close>

text \<open>A file that has just been created, and the blocks that the benchmarks need.\<close>

definition empty_file :: "fs \<Rightarrow> nat set \<Rightarrow> nat \<Rightarrow> bool" where
  "empty_file s F ino \<longleftrightarrow> files_wf s F \<and> ino \<in> F \<and> data_entries s ino = []"

lemma empty_fileD:
  assumes "empty_file s F ino"
  shows "files_wf s F" "ino \<in> F" "fs_wf s" "file_wf s ino" "i_size (inodes s ino) = 0" "file_content s ino = []" "data_entries s ino = []"
  using assms by (auto simp: empty_file_def files_wf_def file_wf_def Let_def file_content_def)

lemma empty_plain: "empty_file s F ino \<Longrightarrow> plain_wf s ino"
proof -
  assume e: "empty_file s F ino"
  note d = empty_fileD [OF e]
  have "i_blocks (inodes s ino) - 1 = 0" using file_wf_index [OF d(3,4)] d(7) by simp
  then show "plain_wf s ino" using d by (simp add: plain_wf_def file_wf_def Let_def idiv_ceil_def)
qed

text \<open>In a file of 2000000 bytes in 489 blocks the position 5000 is not at the end of a full block.\<close>

lemma located_5000:
  assumes "located es 5000 i p" "length es = 489" "total_size es = 2000000"
  shows "p < 4096"
proof (rule ccontr)
  assume "\<not> p < 4096"
  moreover have l: "total_size (take i es) + p = 5000" "i < 489" "p \<le> get_block_size (es ! i)" using assms(1,2) by (simp_all add: located_def)
  ultimately have p: "p = 4096" "total_size (take i es) = 904" using get_block_size_le [of "es ! i"] by linarith+
  have "total_size es = total_size (take i es) + total_size (drop i es)" by (metis append_take_drop_id total_size_simps(3))
  then have "1999096 \<le> 4096 * (489 - int i)" using total_size_bound [of "drop i es"] assms(2,3) p(2) l(2) by (simp add: of_nat_diff)
  then have "int i < 1" by (simp add: algebra_simps)
  then have "i = 0" by simp
  then show False using p(2) by simp
qed

lemma light_insertion:
  assumes s: "empty_file s F ino" "735 \<le> nr_free_blocks (sbi s)" and f: "f_inode f = ino" "f_flags f = O_RDWR" and env: "env_ok env"
    and len: "length buf = 2000000" "length ins = 1000000"
  shows "\<exists>s1 s2. ouichefs_light_write env f buf 2000000 0 s = Some (2000000, 2000000, s1) \<and>
    ouichefs_light_write env f ins 1000000 5000 s1 = Some (1000000, 1005000, s2) \<and> files_wf s2 F \<and>
    file_content s2 ino = take 5000 buf @ ins @ drop 5000 buf"
proof -
  note d = empty_fileD [OF s(1)]
  have r0: "reserved_blocks [] 2000000 0 0 = 489" by (simp add: reserved_blocks_def extra_blocks_def idiv_ceil_def)
  have "located (data_entries s ino) 0 0 0" by (simp add: located_def)
  from light_write_done [OF d(1,2) f(1) env_okD(1) [OF env] rdwr_flags(1) [OF f(2)] _ _ _ this _ len(1)] d(5-7) s(2) r0
  obtain s1 where s1: "ouichefs_light_write env f buf 2000000 0 s = Some (2000000, 2000000, s1)" "file_content s1 ino = buf"
    "i_size (inodes s1 ino) = 2000000" "files_wf s1 F" "file_frame s ino s1" "length (data_entries s1 ino) = 489" by auto
  have wf1: "fs_wf s1" "file_wf s1 ino" using s1(4) d(2) by (auto simp: files_wf_def)
  have fr: "nr_free_blocks (sbi s1) + 489 = nr_free_blocks (sbi s)" using file_frame_count [OF d(3,4) wf1 s1(5)] s1(6) d(7) by simp
  obtain i p where loc: "located (data_entries s1 ino) 5000 i p" using located_exists [OF wf1, of 5000] s1(3) by auto
  have "total_size (data_entries s1 ino) = 2000000" using wf1(2) s1(3) by (simp add: file_wf_def Let_def)
  from located_5000 [OF loc s1(6) this] have p: "p < 4096" "0 < p" using loc by (simp_all add: located_def)
  have "idiv_ceil (nat (max (int 1000000 - (4096 - p)) 0)) 4096 \<le> 245" using p by (intro idiv_ceil_least) auto
  then have r: "reserved_blocks (data_entries s1 ino) 1000000 i p \<le> 246" using s1(6) by (auto simp: reserved_blocks_def extra_blocks_def)
  from light_write_done [OF s1(4) d(2) f(1) env_okD(1) [OF env] rdwr_flags(1) [OF f(2)] _ _ _ loc _ len(2)] p s1(2,3,6) r fr s(2)
  obtain s2 where "ouichefs_light_write env f ins 1000000 5000 s1 = Some (1000000, 1005000, s2)" "files_wf s2 F"
    "file_content s2 ino = take 5000 buf @ ins @ drop 5000 buf" by auto
  then show ?thesis using s1(1) by blast
qed

text \<open>The same with plain calls: read the old content, write it behind the gap, write the new content.\<close>

lemma env_ok_io: "env_ok env \<Longrightarrow> io_ok env s ino"
  by (simp add: env_ok_def io_ok_def)

lemma plain_blocks:
  assumes "fs_wf s" "plain_wf s ino" "i_size (inodes s ino) = int n"
  shows "length (data_entries s ino) = idiv_ceil n 4096" "length (plain_content s ino) = n"
proof -
  have "wf_bufs s" using assms(1) by (simp add: fs_wf_def)
  note p = plain_facts [OF this assms(2)]
  show "length (data_entries s ino) = idiv_ceil n 4096" using p(4) assms(3) by simp
  show "length (plain_content s ino) = n"
    using ceil_bounds(2) [OF p(5,4)] \<open>wf_bufs s\<close> assms(3) by (simp add: plain_content_def)
qed

lemma plain_insertion:
  assumes s: "empty_file s F ino" "735 \<le> nr_free_blocks (sbi s)" and f: "f_inode f = ino" "f_flags f = O_RDWR" and env: "env_ok env"
    and len: "length buf = 2000000" "length ins = 1000000" "length rbuf = 1995000"
  shows "\<exists>s1 s2 s3. ouichefs_write env f buf 2000000 0 s = Some (2000000, 2000000, s1) \<and> i_size (inodes s1 ino) = 2000000 \<and>
    ouichefs_read env f rbuf 1995000 5000 s1 = Some (1995000, 2000000, drop 5000 buf) \<and>
    ouichefs_write env f (drop 5000 buf) 1995000 1005000 s1 = Some (1995000, 3000000, s2) \<and>
    ouichefs_write env f ins 1000000 5000 s2 = Some (1000000, 1005000, s3) \<and> plain_wf s3 ino \<and>
    plain_content s3 ino = take 5000 buf @ ins @ drop 5000 buf"
proof -
  note d = empty_fileD [OF s(1)] and pos = rdwr_flags(1) [OF f(2)] and ok = env_okD(1) [OF env]
  have c0: "plain_content s ino = []" using plain_blocks(2) [OF d(3) empty_plain [OF s(1)], of 0] d(5) by simp
  have ceil: "idiv_ceil 2000000 4096 = 489" "idiv_ceil 3000000 4096 = 733" by (simp_all add: idiv_ceil_def)
  from plain_write_done [OF d(3) empty_plain [OF s(1)] f(1) ok pos _ _ len(1), of 0 489] d(5,7) s(2) ceil c0
  obtain s1 where s1: "ouichefs_write env f buf 2000000 0 s = Some (2000000, 2000000, s1)" "fs_wf s1" "plain_wf s1 ino"
    "i_size (inodes s1 ino) = 2000000" "plain_content s1 ino = buf" "nr_free_blocks (sbi s1) + 489 = nr_free_blocks (sbi s)"
    by auto
  have n1: "length (data_entries s1 ino) = 489" using plain_blocks(1) [OF s1(2,3), of 2000000] s1(4) ceil by simp
  have dl: "length (drop 5000 buf) = 1995000" using len(1) by simp
  have "ouichefs_read env f rbuf 1995000 5000 s1 = Some (1995000, 2000000, drop 5000 buf)"
    using plain_read_done [OF s1(2,3) f(1) rdwr_flags(2) [OF f(2)] env_ok_io [OF env] len(3), of 5000] s1(4,5) dl len(3)
    by (simp add: Let_def overlay_def)
  moreover from plain_write_done [OF s1(2,3) f(1) ok pos _ _ dl, of 1005000 733] s1(4-6) n1 s(2) ceil len(1)
  obtain s2 where s2: "ouichefs_write env f (drop 5000 buf) 1995000 1005000 s1 = Some (1995000, 3000000, s2)" "fs_wf s2" "plain_wf s2 ino"
    "i_size (inodes s2 ino) = 3000000" "plain_content s2 ino = take 1005000 buf @ drop 5000 buf" by auto
  moreover have n2: "length (data_entries s2 ino) = 733" using plain_blocks(1) [OF s2(2,3), of 3000000] s2(4) ceil by simp
  from plain_write_done [OF s2(2,3) f(1) ok pos _ _ len(2), of 5000 733] s2(4,5) n2 ceil len(1)
  obtain s3 where "ouichefs_write env f ins 1000000 5000 s2 = Some (1000000, 1005000, s3)" "plain_wf s3 ino"
    "plain_content s3 ino = take 5000 buf @ ins @ drop 5000 buf" by auto
  ultimately show ?thesis using s1(1,4) by blast
qed

text \<open>The functions that the benchmarks select.\<close>

definition selectable :: "proc \<Rightarrow> bool" where
  "selectable p \<longleftrightarrow> {''read_fn'', ''write_fn''} \<subseteq> set (sysfs_files (kmod p))"

lemma selected:
  assumes "selectable p"
  shows "\<exists>m. set_read_fn SIMPLE_READ (set_write_fn SIMPLE_WRITE p) = p\<lparr>kmod := m\<rparr> \<and> ops_read m = Some Op_read \<and> ops_write m = Some Op_write"
    and "\<exists>m. set_write_fn SIMPLE_WRITE p = p\<lparr>kmod := m\<rparr> \<and> selectable (p\<lparr>kmod := m\<rparr>)"
    and "\<exists>m. set_read_fn LIGHT_READ (set_write_fn LIGHT_WRITE p) = p\<lparr>kmod := m\<rparr> \<and> ops_read m = Some Op_light_read \<and> ops_write m = Some Op_light_write"
  using assms by (auto simp: selectable_def set_read_fn_def set_write_fn_def read_fn_store_def write_fn_store_def first_char_def Let_def
      SIMPLE_READ_def SIMPLE_WRITE_def LIGHT_READ_def LIGHT_WRITE_def)

lemmas bench_sizes = LEN_INIT_def LEN_INSERT_def OFFSET_def

text \<open>Runs of the two benchmarks, given what the calls of the module return.\<close>

lemma bench_insert_user_run:
  fixes e :: user_env
  assumes p: "selectable p" "length w0 = LEN_INIT" "length w1 = LEN_INSERT" and f: "f_flags f = O_RDWR"
  defines "buf \<equiv> seq_text 0 301587 @ [0]" and "ins \<equiv> rand_bytes e (rands p) 1000000"
  assumes w: "ouichefs_write (kern e) f buf 2000000 0 (disk p) = Some (2000000, 2000000, s1)"
      "i_size (inodes s1 (f_inode f)) = 2000000"
      "ouichefs_read (kern e) f (fresh_array e 1995000) 1995000 5000 s1 = Some (1995000, 2000000, drop 5000 buf)"
      "ouichefs_write (kern e) f (drop 5000 buf) 1995000 1005000 s1 = Some (1995000, 3000000, s2)"
      "ouichefs_write (kern e) f ins 1000000 5000 s2 = Some (1000000, 1005000, s3)"
  shows "\<exists>u. bench_insert_user e f w0 w1 p = Some u \<and> disk u = s3"
proof -
  from selected(1) [of "p\<lparr>f_pos := 0\<rparr>"] p(1) obtain m where
    m: "set_read_fn SIMPLE_READ (set_write_fn SIMPLE_WRITE (p\<lparr>f_pos := 0\<rparr>)) = p\<lparr>f_pos := 0, kmod := m\<rparr>" "ops_read m = Some Op_read" "ops_write m = Some Op_write"
    by (auto simp: selectable_def)
  define q where "q = p\<lparr>f_pos := 0, kmod := m, rands := rands p + 1000000\<rparr>"
  have l: "length buf = 2000000" using seq_text_2000000 by (simp add: buf_def)
  have i: "init_buffers e w0 w1 (p\<lparr>f_pos := 0, kmod := m\<rparr>) = Some (buf, ins, q)"
    using init_buffers_eq [OF p(2,3)] by (simp add: buf_def ins_def q_def LEN_INSERT_def)
  have q: "kmod q = m" "disk q = disk p" "f_pos q = 0" by (simp_all add: q_def)
  note ok = sys_write_ok [where op = Op_write and e = e and f = f] sys_read_ok [where op = Op_read and e = e and f = f]
  have w1: "\<lbrakk>kmod x = m; disk x = disk p; f_pos x = 0\<rbrakk> \<Longrightarrow> sys_write e f buf 2000000 x = Some (2000000, x\<lparr>disk := s1, f_pos := 2000000\<rparr>)" for x
    using ok(1) [of x buf 2000000] m(3) l w(1) by simp
  have w2: "\<lbrakk>kmod x = m; disk x = s1; f_pos x = 5000\<rbrakk> \<Longrightarrow>
      sys_read e f (fresh_array e 1995000) 1995000 x = Some (1995000, drop 5000 buf, x\<lparr>f_pos := 2000000\<rparr>)" for x
    using ok(2) [of x "fresh_array e 1995000" 1995000 1995000] m(2) w(3) by simp
  have w3: "\<lbrakk>kmod x = m; disk x = s1; f_pos x = 1005000\<rbrakk> \<Longrightarrow>
      sys_write e f (drop 5000 buf) 1995000 x = Some (1995000, x\<lparr>disk := s2, f_pos := 3000000\<rparr>)" for x
    using ok(1) [of x "drop 5000 buf" 1995000] m(3) l w(4) by simp
  have w4: "\<lbrakk>kmod x = m; disk x = s2; f_pos x = 5000\<rbrakk> \<Longrightarrow> sys_write e f ins 1000000 x = Some (1000000, x\<lparr>disk := s3, f_pos := 1005000\<rparr>)" for x
    using ok(1) [of x ins 1000000] m(3) w(5) by (simp add: ins_def)
  have "u64 1995000 = 1995000" by (simp add: u64_id)
  then show ?thesis using i m(1) q w(2) unfolding bench_insert_user_def sys_open_rdwr [OF f]
    by (simp add: w1 w2 w3 w4 bench_sizes sys_lseek_set sys_lseek_end [where n = 2000000] TIME_START_def TIME_END_def pr_test_def print_def Let_def)
qed

lemma bench_insert_lite_write_run:
  fixes e :: user_env
  assumes p: "selectable p" "length w0 = LEN_INIT" "length w1 = LEN_INSERT" and f: "f_flags f = O_RDWR"
  defines "buf \<equiv> seq_text 0 301587 @ [0]" and "ins \<equiv> rand_bytes e (rands p) 1000000"
  assumes w: "ouichefs_light_write (kern e) f buf 2000000 0 (disk p) = Some (2000000, 2000000, s1)"
      "ouichefs_light_write (kern e) f ins 1000000 5000 s1 = Some (1000000, 1005000, s2)"
  shows "\<exists>v. bench_insert_lite_write e f w0 w1 p = Some v \<and> disk v = s2"
proof -
  from selected(2) [of "p\<lparr>f_pos := 0\<rparr>"] p(1) obtain m0 where
    m0: "set_write_fn SIMPLE_WRITE (p\<lparr>f_pos := 0\<rparr>) = p\<lparr>f_pos := 0, kmod := m0\<rparr>" "selectable (p\<lparr>kmod := m0\<rparr>)" by (auto simp: selectable_def)
  define q where "q = p\<lparr>f_pos := 0, kmod := m0, rands := rands p + 1000000\<rparr>"
  from selected(3) [of q] m0(2) obtain m where
    m: "set_read_fn LIGHT_READ (set_write_fn LIGHT_WRITE q) = q\<lparr>kmod := m\<rparr>" "ops_write m = Some Op_light_write"
    by (auto simp: selectable_def q_def)
  have l: "length buf = 2000000" using seq_text_2000000 by (simp add: buf_def)
  have i: "init_buffers e w0 w1 (p\<lparr>f_pos := 0, kmod := m0\<rparr>) = Some (buf, ins, q)"
    using init_buffers_eq [OF p(2,3)] by (simp add: buf_def ins_def q_def LEN_INSERT_def)
  have q: "disk q = disk p" "f_pos q = 0" by (simp_all add: q_def)
  note ok = sys_write_ok [where op = Op_light_write and e = e and f = f]
  have w1: "\<lbrakk>kmod x = m; disk x = disk p; f_pos x = 0\<rbrakk> \<Longrightarrow> sys_write e f buf 2000000 x = Some (2000000, x\<lparr>disk := s1, f_pos := 2000000\<rparr>)" for x
    using ok [of x buf 2000000] m(2) l w(1) by simp
  have w2: "\<lbrakk>kmod x = m; disk x = s1; f_pos x = 5000\<rbrakk> \<Longrightarrow> sys_write e f ins 1000000 x = Some (1000000, x\<lparr>disk := s2, f_pos := 1005000\<rparr>)" for x
    using ok [of x ins 1000000] m(2) w(2) by (simp add: ins_def)
  show ?thesis using i m(1) m0(1) q unfolding bench_insert_lite_write_def sys_open_rdwr [OF f]
    by (simp add: w1 w2 bench_sizes sys_lseek_set TIME_START_def TIME_END_def pr_test_def print_def Let_def)
qed

section \<open>Overruns\<close>

text \<open>The counter at the start of each block of \<open>init_seq_file\<close>; the twelfth block does not end with a number.\<close>

lemma seq_text_9231: "length (seq_text 9231 n) \<noteq> 4095"
proof -
  consider "n \<le> 769" | "769 < n" "n \<le> 90769" | "90769 < n" by linarith
  then show ?thesis
  proof cases
    case 1
    then show ?thesis using length_seq_text [of 3 9231 n] by simp
  next
    case 2
    then have "length (seq_text 9231 n) = 3845 + 6 * (n - 769)"
      using length_seq_text_add [of 9231 769 "n - 769"] length_seq_text [of 3 9231 769] length_seq_text [of 4 10000 "n - 769"] by simp
    then show ?thesis by presburger
  next
    case 3
    then have "length (seq_text 9231 90769) \<le> length (seq_text 9231 n)" by (intro length_seq_text_mono) simp
    then show ?thesis
      using length_seq_text_add [of 9231 769 90000] length_seq_text [of 3 9231 769] length_seq_text [of 4 10000 90000] by simp
  qed
qed

lemma seq_text_1041: "length (seq_text 0 1041) = 4095"
  using length_seq_text_add [of 0 10 90] length_seq_text_add [of 0 100 900] length_seq_text_add [of 0 1000 41]
    seq_text_decades length_seq_text [of 3 1000 41] by simp

lemma seq_block_first: "length buf = 4096 \<Longrightarrow> init_seq_buff buf 4096 0 = Some (seq_text 0 1041 @ [0], 1041)"
  using init_seq_buff_done [of buf 4096 0 1041] seq_text_1041 by simp

lemma seq_block_next:
  "\<lbrakk>length buf = 4096; 1000 \<le> c; c + 819 \<le> 10000\<rbrakk> \<Longrightarrow>
   init_seq_buff buf 4096 (int c) = Some (seq_text (int c) 819 @ [0], int (c + 819))"
  using init_seq_buff_done [of buf 4096 "int c" 819] length_seq_text [of 3 c 819] by simp

lemma init_seq_file_loop_overruns:
  "\<lbrakk>k \<le> 10; length buf = 4096; 10 - k < n\<rbrakk> \<Longrightarrow> init_seq_file_loop e f n buf (int (1041 + 819 * k)) p = None"
proof (induction "10 - k" arbitrary: k n buf p)
  case 0
  then have "init_seq_buff buf 4096 (int (1041 + 819 * k)) = None" by (intro init_seq_buff_past) (simp_all add: seq_text_9231)
  then show ?case using 0 by (cases n) (simp_all add: BLOCK_SIZE_def)
next
  case (Suc d)
  obtain n' where n: "n = Suc n'" using Suc.prems(3) by (cases n) auto
  define buf' where "buf' = seq_text (int (1041 + 819 * k)) 819 @ [0]"
  have b: "init_seq_buff buf 4096 (int (1041 + 819 * k)) = Some (buf', int (1041 + 819 * Suc k))"
    using seq_block_next [OF Suc.prems(2), of "1041 + 819 * k"] Suc.hyps(2) by (simp add: buf'_def algebra_simps)
  have "length buf' = 4096" using length_seq_text [of 3 "1041 + 819 * k" 819] Suc.hyps(2) by (simp add: buf'_def)
  then have "init_seq_file_loop e f n' buf' (int (1041 + 819 * Suc k)) q = None" for q
    using Suc.hyps Suc.prems(3) n by (intro Suc.hyps(1)) auto
  then show ?case using b unfolding n by (auto simp: BLOCK_SIZE_def split: option.splits bind_splits simp del: of_nat_add of_nat_mult)
qed

lemma init_seq_file_overruns: "init_seq_file e f p = None"
proof -
  have "length (seq_text 0 1041 @ [0]) = 4096" using seq_text_1041 by simp
  from init_seq_file_loop_overruns [OF _ this, of 0 1023 e f] have "init_seq_file_loop e f 1023 (seq_text 0 1041 @ [0]) 1041 q = None" for q by simp
  then have "init_seq_file_loop e f (Suc 1023) (fresh_array e 4096) 0 p = None"
    using seq_block_first [of "fresh_array e 4096"] unfolding init_seq_file_loop.simps BLOCK_SIZE_def by (auto split: bind_splits)
  then show ?thesis by (simp add: init_seq_file_def MAX_FILESIZE_def BLOCK_SIZE_def)
qed

section \<open>The demonstration\<close>

lemma demo_lengths [simp]: "length demo_wbuf = 30" "length demo_wbuf2 = 13" "length demo_wbuf3 = 25"
  by (simp_all add: demo_wbuf_def demo_wbuf2_def demo_wbuf3_def)

definition demo_content2 :: "byte list" where
  "demo_content2 = take 9 demo_wbuf @ demo_wbuf2 @ drop 9 demo_wbuf"

lemma demo_insertions:
  assumes s: "empty_file s F ino" "2 \<le> nr_free_blocks (sbi s)" and f: "f_inode f = ino" "f_flags f = O_RDWR" and env: "env_ok env"
  shows "\<exists>s1 s2. ouichefs_light_write env f demo_wbuf 30 0 s = Some (30, 30, s1) \<and> files_wf s1 F \<and> file_content s1 ino = demo_wbuf \<and>
    ouichefs_light_write env f demo_wbuf2 13 9 s1 = Some (13, 22, s2) \<and> files_wf s2 F \<and> file_content s2 ino = demo_content2 \<and>
    i_size (inodes s2 ino) = 43 \<and> length (data_entries s2 ino) = 2"
proof -
  note d = empty_fileD [OF s(1)] and pos = rdwr_flags(1) [OF f(2)] and ok = env_okD(1) [OF env]
  have r0: "reserved_blocks [] 30 0 0 = 1" by (simp add: reserved_blocks_def extra_blocks_def idiv_ceil_def)
  have "located (data_entries s ino) 0 0 0" by (simp add: located_def)
  from light_write_done [OF d(1,2) f(1) ok pos _ _ _ this _ demo_lengths(1)] d(5-7) s(2) r0
  obtain s1 where s1: "ouichefs_light_write env f demo_wbuf 30 0 s = Some (30, 30, s1)" "file_content s1 ino = demo_wbuf"
    "i_size (inodes s1 ino) = 30" "files_wf s1 F" "file_frame s ino s1" "length (data_entries s1 ino) = 1" by auto
  have wf1: "fs_wf s1" "file_wf s1 ino" using s1(4) d(2) by (auto simp: files_wf_def)
  have fr: "nr_free_blocks (sbi s1) + 1 = nr_free_blocks (sbi s)" using file_frame_count [OF d(3,4) wf1 s1(5)] s1(6) d(7) by simp
  obtain x where x: "data_entries s1 ino = [x]" using s1(6) by (cases "data_entries s1 ino") auto
  have "get_block_size x = 30" using wf1(2) s1(3) x by (simp add: file_wf_def Let_def)
  then have loc: "located (data_entries s1 ino) 9 0 9" and r: "reserved_blocks (data_entries s1 ino) 13 0 9 = 1"
    using x by (simp_all add: located_def reserved_blocks_def extra_blocks_def idiv_ceil_def)
  from light_write_done [OF s1(4) d(2) f(1) ok pos _ _ _ loc _ demo_lengths(2)] s1(2,3,6) r fr s(2)
  obtain s2 where "ouichefs_light_write env f demo_wbuf2 13 9 s1 = Some (13, 22, s2)" "files_wf s2 F"
    "file_content s2 ino = demo_content2" "i_size (inodes s2 ino) = 43" "length (data_entries s2 ino) = 2" by (auto simp: demo_content2_def)
  then show ?thesis using s1(1,2,4) by blast
qed

text \<open>The third text fits behind the gap, in the last block.\<close>

lemma demo_appends:
  assumes s: "files_wf s F" "ino \<in> F" "i_size (inodes s ino) = 43" "length (data_entries s ino) = 2"
    and f: "f_inode f = ino" "f_flags f = O_RDWR" and env: "env_ok env"
  shows "\<exists>s1 s2 junk. ouichefs_light_write env f demo_wbuf3 25 74 s = Some (25, 99, s1) \<and> files_wf s1 F \<and>
    file_content s1 ino = file_content s ino @ junk @ demo_wbuf3 \<and> length junk = 31 \<and>
    ouichefs_defrag env f s1 = Some (0, s2) \<and> files_wf s2 F \<and> file_content s2 ino = file_content s1 ino"
proof -
  define es where "es = data_entries s ino"
  have "total_size es = 43" using s(1-3) by (auto simp: files_wf_def file_wf_def Let_def es_def)
  moreover have "es = butlast es @ [last es]" using s(4) by (cases es rule: rev_cases) (auto simp: es_def)
  ultimately have "total_size (butlast es) + get_block_size (last es) = 43" by (metis total_size_simps(1-3) add.right_neutral)
  then have le: "get_block_size (last es) \<le> 43" using total_size_nonneg [of "butlast es"] by linarith
  have ne: "es \<noteq> []" using s(4) by (auto simp: es_def)
  have g: "gap_blocks es 31 = 0" "gap_end es 31 = 31 + get_block_size (last es)"
    using le ne by (simp_all add: gap_end_def gap_blocks_def gap_room_def idiv_ceil_def)
  have "gap_write_blocks es 31 25 = 0" using g(2) le by (simp add: gap_write_blocks_def extra_blocks_def idiv_ceil_def)
  then have m: "gap_blocks es 31 + gap_write_blocks es 31 25 = 0" using g(1) by simp
  from light_write_beyond(1) [OF s(1,2) f(1) env_okD(1) [OF env] rdwr_flags(1) [OF f(2)] _ _ demo_lengths(3), of 74] s(3,4) m g(1)
  obtain s1 junk where s1: "ouichefs_light_write env f demo_wbuf3 25 74 s = Some (25, 99, s1)" "files_wf s1 F"
    "file_content s1 ino = file_content s ino @ junk @ demo_wbuf3" "int (length junk) = 31" by (auto simp: es_def)
  from defrag_done [OF s1(2) s(2) f(1) env_okD [OF env]] obtain s2 where
    "ouichefs_defrag env f s1 = Some (0, s2)" "file_content s2 ino = file_content s1 ino" "files_wf s2 F" by blast
  then show ?thesis using s1 by (intro exI [of _ s1] exI [of _ s2] exI [of _ junk]) simp
qed

text \<open>The block print of a well-formed file prints its content.\<close>

lemma demo_print_log:
  assumes "files_wf s F" "f_inode f \<in> F" "env_ok (kern e)"
  shows "\<exists>log. shown_bytes log = map (visible (printable e)) (file_content s (f_inode f)) \<and>
    (\<forall>rest p. disk p = s \<longrightarrow> demo_print e f rest p = rest (p\<lparr>klog := klog p @ log\<rparr>))"
proof -
  have wf: "fs_wf s" "file_wf s (f_inode f)" using assms(1,2) by (auto simp: files_wf_def)
  have b: "bread_ok (kern e) b" for b using assms(3) by (simp add: env_ok_def)
  from block_print_done [OF wf refl b, of "printable e"] obtain log where
    "ouichefs_ioctl_file_block_print (kern e) (printable e) f s = Some (0, log)"
    "shown_bytes log = map (visible (printable e)) (file_content s (f_inode f))" by (auto simp: b file_content_def takeWhile_all)
  then show ?thesis by (intro exI [of _ log]) (auto simp: demo_print_def sys_ioctl_def ouichefs_ioctl_def ioctl_commands)
qed

text \<open>The run of the demonstration, given what the calls of the module return.\<close>

lemma demo_main_run:
  assumes p: "f_flags f = O_RDWR" "ops_write (kmod p) = Some Op_light_write" and F: "f_inode f \<in> F" and env: "env_ok (kern e)"
    and s1: "ouichefs_light_write (kern e) f demo_wbuf 30 0 (disk p) = Some (30, 30, s1)" "files_wf s1 F"
    and s2: "ouichefs_light_write (kern e) f demo_wbuf2 13 9 s1 = Some (13, 22, s2)" "files_wf s2 F" "i_size (inodes s2 (f_inode f)) = 43"
    and s3: "ouichefs_light_write (kern e) f demo_wbuf3 25 74 s2 = Some (25, 99, s3)" "files_wf s3 F"
    and s4: "ouichefs_defrag (kern e) f s3 = Some (0, s4)" "files_wf s4 F"
  defines "shown \<equiv> \<lambda>s. map (visible (printable e)) (file_content s (f_inode f))"
  shows "\<exists>p' l1 l2 l3 l4. demo_main e f p = Some (0, p') \<and> disk p' = s4 \<and> klog p' = klog p @ l1 @ l2 @ l3 @ l4 \<and>
    shown_bytes l1 = shown s1 \<and> shown_bytes l2 = shown s2 \<and> shown_bytes l3 = shown s3 \<and> shown_bytes l4 = shown s4"
proof -
  note ok = sys_write_ok [where op = Op_light_write and e = e and f = f]
  have w1: "\<lbrakk>ops_write (kmod x) = Some Op_light_write; disk x = disk p; f_pos x = 0\<rbrakk> \<Longrightarrow>
      sys_write e f demo_wbuf (length demo_wbuf) x = Some (30, x\<lparr>disk := s1, f_pos := 30\<rparr>)" for x
    using ok [of x demo_wbuf 30] s1(1) by simp
  have w2: "\<lbrakk>ops_write (kmod x) = Some Op_light_write; disk x = s1; f_pos x = 9\<rbrakk> \<Longrightarrow>
      sys_write e f demo_wbuf2 (length demo_wbuf2) x = Some (13, x\<lparr>disk := s2, f_pos := 22\<rparr>)" for x
    using ok [of x demo_wbuf2 13] s2(1) by simp
  have w3: "\<lbrakk>ops_write (kmod x) = Some Op_light_write; disk x = s2; f_pos x = 74\<rbrakk> \<Longrightarrow>
      sys_write e f demo_wbuf3 (length demo_wbuf3) x = Some (25, x\<lparr>disk := s3, f_pos := 99\<rparr>)" for x
    using ok [of x demo_wbuf3 25] s3(1) by simp
  have df: "disk x = s3 \<Longrightarrow> DEFRAG_FILE e f x = Some (x\<lparr>disk := s4\<rparr>)" for x
    using s4(1) by (simp add: DEFRAG_FILE_def sys_ioctl_def ioctl_defrag)
  have pr: "\<exists>log. shown_bytes log = shown s \<and> (\<forall>rest x. disk x = s \<longrightarrow> demo_print e f rest x = rest (x\<lparr>klog := klog x @ log\<rparr>))"
    if "files_wf s F" for s using demo_print_log [OF that F env] by (simp add: shown_def)
  obtain l1 where l1: "shown_bytes l1 = shown s1" "\<And>rest x. disk x = s1 \<Longrightarrow> demo_print e f rest x = rest (x\<lparr>klog := klog x @ l1\<rparr>)" using pr [OF s1(2)] by blast
  obtain l2 where l2: "shown_bytes l2 = shown s2" "\<And>rest x. disk x = s2 \<Longrightarrow> demo_print e f rest x = rest (x\<lparr>klog := klog x @ l2\<rparr>)" using pr [OF s2(2)] by blast
  obtain l3 where l3: "shown_bytes l3 = shown s3" "\<And>rest x. disk x = s3 \<Longrightarrow> demo_print e f rest x = rest (x\<lparr>klog := klog x @ l3\<rparr>)" using pr [OF s3(2)] by blast
  obtain l4 where l4: "shown_bytes l4 = shown s4" "\<And>rest x. disk x = s4 \<Longrightarrow> demo_print e f rest x = rest (x\<lparr>klog := klog x @ l4\<rparr>)" using pr [OF s4(2)] by blast
  have "\<exists>p'. demo_main e f p = Some (0, p') \<and> disk p' = s4 \<and> klog p' = klog p @ l1 @ l2 @ l3 @ l4"
    unfolding demo_main_def sys_open_rdwr [OF p(1)] using p(2) s2(3)
    by (simp add: w1 w2 w3 df l1(2) l2(2) l3(2) l4(2) sys_lseek_set sys_lseek_end [where n = 43] demo_say_def print_def Let_def del: demo_lengths)
  then show ?thesis using l1(1) l2(1) l3(1) l4(1) by blast
qed

section \<open>A partition with an empty file\<close>

definition demo_big :: fs where
  "demo_big = \<lparr>bufs = (\<lambda>_. replicate 4096 0), dirty = (\<lambda>_. False), media = (\<lambda>_. replicate 4096 0),
     sbi = demo_sb\<lparr>nr_blocks := 1024, bfree_bitmap := 0 # replicate 127 0xFF, nr_free_blocks := 1016\<rparr>,
     inodes = (\<lambda>_. demo_inode 0 1 5), idirty = (\<lambda>_. False)\<rparr>"

lemma demo_big_free: "free_blocks (sbi demo_big) = {8..<1024}" "nr_free_blocks (sbi demo_big) = 1016" "nr_blocks (sbi demo_big) = 1024"
proof -
  have b: "bit (0xFF :: byte) n \<longleftrightarrow> n < 8" for n
  proof -
    have "(0xFF :: byte) = mask 8" by (simp add: mask_eq_exp_minus_1)
    then show ?thesis by (simp only: bit_mask_iff) simp
  qed
  have "test_bit (0 # replicate 127 0xFF) i \<longleftrightarrow> 8 \<le> i" if "i < 1024" for i
  proof (cases "i div 8")
    case 0
    then show ?thesis by (simp add: test_bit_def div_eq_0_iff)
  next
    case (Suc k)
    then have "8 \<le> i" "k < 127" using that by linarith+
    then show ?thesis using b [of "i mod 8"] by (simp add: test_bit_def Suc nth_replicate)
  qed
  then show "free_blocks (sbi demo_big) = {8..<1024}" by (auto simp: free_blocks_def ones_def demo_big_def)
qed (simp_all add: demo_big_def)

lemma demo_big_empty: "empty_file demo_big {2} 2"
proof -
  have idx: "load_index demo_big 5 = replicate 1024 0" using u32s_of_zeros [of 1024] by (simp add: load_index_def demo_big_def)
  have I: "inodes demo_big 2 = demo_inode 0 1 5" by (simp add: demo_big_def)
  have "fs_wf demo_big"
    using demo_big_free by (simp add: fs_wf_def block_map_wf_def wf_bufs_def OUICHEFS_BLOCK_SIZE_def) (simp add: demo_big_def bitmap_bits_def)
  moreover have e: "data_entries demo_big 2 = []" by (simp add: data_entries_def I)
  moreover have "file_wf demo_big 2"
    using idx e demo_big_free by (simp add: file_wf_def Let_def index_wf_def I file_blocks_def allocated_def)
  ultimately show ?thesis by (simp add: empty_file_def files_wf_def)
qed

definition demo_bench :: proc where
  "demo_bench = demo_proc\<lparr>disk := demo_big\<rparr>"

lemma demo_bench_simps [simp]: "disk demo_bench = demo_big" "selectable demo_bench" "rands demo_bench = 0"
  by (simp_all add: demo_bench_def selectable_def demo_proc_def)

lemma demo_env_ok_all: "env_ok demo_env"
  by (simp add: env_ok_def demo_env_def ascending_memcpy_def)

section \<open>Properties\<close>

text \<open>
  C12: Equivalence of the two ways to insert. On an empty file, with 735 free blocks, the benchmark
  that inserts with plain calls (read everything behind the position, rewrite it further on, write
  the new bytes) and the one that lets the light write insert both return and leave the same bytes:
  the initial text, with the random bytes at position 5000.
\<close>

theorem insert_benchmarks_agree:
  assumes "empty_file (disk p) F (f_inode f)" "735 \<le> nr_free_blocks (sbi (disk p))" "f_flags f = O_RDWR" "env_ok (kern e)"
    and "selectable p" "length w0 = LEN_INIT" "length w1 = LEN_INSERT"
  shows "\<exists>u v. bench_insert_user e f w0 w1 p = Some u \<and> bench_insert_lite_write e f w0 w1 p = Some v \<and>
    plain_content (disk u) (f_inode f) = file_content (disk v) (f_inode f) \<and>
    file_content (disk v) (f_inode f) =
      (let buf = seq_text 0 301587 @ [0] in take OFFSET buf @ rand_bytes e (rands p) LEN_INSERT @ drop OFFSET buf)"
proof -
  let ?buf = "seq_text 0 301587 @ [0]" and ?ins = "rand_bytes e (rands p) 1000000"
  have len: "length ?buf = 2000000" "length ?ins = 1000000" "length (fresh_array e 1995000) = 1995000" using seq_text_2000000 by simp_all
  from plain_insertion [OF assms(1,2) refl assms(3,4) len] obtain s1 s2 s3 where
    "ouichefs_write (kern e) f ?buf 2000000 0 (disk p) = Some (2000000, 2000000, s1)" "i_size (inodes s1 (f_inode f)) = 2000000"
    "ouichefs_read (kern e) f (fresh_array e 1995000) 1995000 5000 s1 = Some (1995000, 2000000, drop 5000 ?buf)"
    "ouichefs_write (kern e) f (drop 5000 ?buf) 1995000 1005000 s1 = Some (1995000, 3000000, s2)"
    "ouichefs_write (kern e) f ?ins 1000000 5000 s2 = Some (1000000, 1005000, s3)"
    and c: "plain_content s3 (f_inode f) = take 5000 ?buf @ ?ins @ drop 5000 ?buf" by blast
  then obtain u where u: "bench_insert_user e f w0 w1 p = Some u" "disk u = s3"
    using bench_insert_user_run [OF assms(5-7,3)] by blast
  from light_insertion [OF assms(1,2) refl assms(3,4) len(1,2)] obtain t1 t2 where
    "ouichefs_light_write (kern e) f ?buf 2000000 0 (disk p) = Some (2000000, 2000000, t1)"
    "ouichefs_light_write (kern e) f ?ins 1000000 5000 t1 = Some (1000000, 1005000, t2)"
    and d: "file_content t2 (f_inode f) = take 5000 ?buf @ ?ins @ drop 5000 ?buf" by blast
  then obtain v where "bench_insert_lite_write e f w0 w1 p = Some v" "disk v = t2"
    using bench_insert_lite_write_run [OF assms(5-7,3)] by blast
  then show ?thesis using u c d by (simp add: Let_def OFFSET_def LEN_INSERT_def)
qed

theorem insert_benchmarks_agree_witness:
  "\<exists>u v. bench_insert_user demo_user (demo_file 2) (replicate 2000000 0) (replicate 1000000 0) demo_bench = Some u \<and>
     bench_insert_lite_write demo_user (demo_file 2) (replicate 2000000 0) (replicate 1000000 0) demo_bench = Some v \<and>
     plain_content (disk u) 2 = file_content (disk v) 2"
  using insert_benchmarks_agree [of demo_bench "{2}" "demo_file 2" demo_user "replicate 2000000 0" "replicate 1000000 0"]
    demo_big_empty demo_big_free(2) demo_env_ok_all
  by (auto simp: demo_file_def LEN_INIT_def LEN_INSERT_def)


text \<open>
  C13: The demonstration, run with the light write on an empty file with two free blocks, returns 0, and
  the module prints what the messages announce: the first text; the second one inserted at position
  9; both followed by a gap of 31 bytes and the third text; and after the defragmentation
  the same bytes again, which are the content of the file.
\<close>

theorem demo_shows:
  assumes "empty_file (disk p) F (f_inode f)" "2 \<le> nr_free_blocks (sbi (disk p))" "f_flags f = O_RDWR" "env_ok (kern e)"
    and "ops_write (kmod p) = Some Op_light_write"
  shows "\<exists>p' l1 l2 l3 l4 junk. demo_main e f p = Some (0, p') \<and> klog p' = klog p @ l1 @ l2 @ l3 @ l4 \<and> length junk = 31 \<and>
    shown_bytes l1 = map (visible (printable e)) demo_wbuf \<and>
    shown_bytes l2 = map (visible (printable e)) (take 9 demo_wbuf @ demo_wbuf2 @ drop 9 demo_wbuf) \<and>
    file_content (disk p') (f_inode f) = (take 9 demo_wbuf @ demo_wbuf2 @ drop 9 demo_wbuf) @ junk @ demo_wbuf3 \<and>
    shown_bytes l3 = map (visible (printable e)) (file_content (disk p') (f_inode f)) \<and> shown_bytes l4 = shown_bytes l3"
proof -
  have F: "f_inode f \<in> F" using assms(1) by (rule empty_fileD)
  from demo_insertions [OF assms(1,2) refl assms(3,4)] obtain s1 s2 where
    s1: "ouichefs_light_write (kern e) f demo_wbuf 30 0 (disk p) = Some (30, 30, s1)" "files_wf s1 F" "file_content s1 (f_inode f) = demo_wbuf" and
    s2: "ouichefs_light_write (kern e) f demo_wbuf2 13 9 s1 = Some (13, 22, s2)" "files_wf s2 F" "file_content s2 (f_inode f) = demo_content2"
      "i_size (inodes s2 (f_inode f)) = 43" "length (data_entries s2 (f_inode f)) = 2" by blast
  from demo_appends [OF s2(2) F s2(4,5) refl assms(3,4)] obtain s3 s4 junk where
    s3: "ouichefs_light_write (kern e) f demo_wbuf3 25 74 s2 = Some (25, 99, s3)" "files_wf s3 F"
      "file_content s3 (f_inode f) = demo_content2 @ junk @ demo_wbuf3" "length junk = 31" and
    s4: "ouichefs_defrag (kern e) f s3 = Some (0, s4)" "files_wf s4 F" "file_content s4 (f_inode f) = file_content s3 (f_inode f)"
    unfolding s2(3) by blast
  from demo_main_run [OF assms(3,5) F assms(4) s1(1,2) s2(1,2,4) s3(1,2) s4(1,2)] obtain p' l1 l2 l3 l4 where
    "demo_main e f p = Some (0, p')" "disk p' = s4" "klog p' = klog p @ l1 @ l2 @ l3 @ l4"
    "shown_bytes l1 = map (visible (printable e)) (file_content s1 (f_inode f))" "shown_bytes l2 = map (visible (printable e)) (file_content s2 (f_inode f))"
    "shown_bytes l3 = map (visible (printable e)) (file_content s3 (f_inode f))" "shown_bytes l4 = map (visible (printable e)) (file_content s4 (f_inode f))"
    by blast
  then show ?thesis using s1(3) s2(3) s3(3,4) s4(3) unfolding demo_content2_def
    by (intro exI [of _ p'] exI [of _ l1] exI [of _ l2] exI [of _ l3] exI [of _ l4] exI [of _ junk]) simp
qed

theorem demo_shows_witness:
  "\<exists>p'. demo_main demo_user (demo_file 2) (set_write_fn LIGHT_WRITE demo_bench) = Some (0, p') \<and>
     length (file_content (disk p') 2) = 99"
proof -
  have p: "disk (set_write_fn LIGHT_WRITE demo_bench) = demo_big" "ops_write (kmod (set_write_fn LIGHT_WRITE demo_bench)) = Some Op_light_write"
    by (simp_all add: demo_bench_def demo_proc_def set_write_fn_def write_fn_store_def first_char_def LIGHT_WRITE_def Let_def)
  have f: "f_inode (demo_file 2) = 2" "f_flags (demo_file 2) = O_RDWR" by (simp_all add: demo_file_def)
  from demo_shows [of "set_write_fn LIGHT_WRITE demo_bench" "{2}" "demo_file 2" demo_user, unfolded p f(1), OF demo_big_empty _ f(2) _ refl]
  show ?thesis using demo_big_free(2) demo_env_ok_all by auto
qed

end
