(* ===== verification/Spec2Isabelle.thy ===== *)
theory Spec2Isabelle
  imports Persist Bench
begin

text \<open>
  ouiche_fs, a small file system for Linux: the kernel module of src/src, the tool that formats a
  partition (src/mkfs) and the programs that exercise the module (src/src/user). This development
  models the C code of all three and proves what it does.

  \<^bold>\<open>The program.\<close> A partition holds a superblock, an inode store, a bitmap of free inodes, a bitmap
  of free blocks, and data blocks of 4096 bytes. An inode names one index block: for a directory 128
  entries of inode number and name, for a regular file 1024 entries of 32 bits that name data blocks.
  The module has two ways to read and write regular files. The plain ones treat an entry as a block
  number and every block but the last as full. The ``light'' ones store in the entry how many bytes of
  the block are used, so that a write can insert bytes in the middle of a file without moving what
  follows; reads walk these fragments, and a defragmentation compacts them. Which functions are used
  is selected through two sysfs files; three ioctl commands show the fragments, print the bytes and run
  the defragmentation. The user programs select functions, call them on a file and print results.

  \<^bold>\<open>State.\<close> \<open>Vfs.fs\<close> is the state of a mounted partition: the buffers of all blocks, their dirty flags and
  the medium below (\<open>Disk.blockdev\<close>), the superblock information with both bitmaps
  (\<open>Bitmap.sb_info\<close>), and the inode cache. \<open>Kmodule.kmodule\<close> is the state of the loaded module, \<open>Userland.proc\<close> a
  process with one open file on such a partition. Operations take the state and return it with
  the C result. A function whose result is an \<open>option\<close> is \<open>None\<close> when the C code leaves an array or a
  buffer, uses freed memory or an uninitialised variable, or never returns; error codes are ordinary
  results. What the kernel decides (whether a block can be read, how much a user copy moves, the
  time, what an overlapping \<open>memcpy\<close> does, whether memory is available) is the parameter
  \<open>Disk.kenv\<close>, for the module's initialisation \<open>Kmodule.mod_env\<close>, for the formatting tool \<open>Mkfs.mkfs_env\<close>, for the
  user programs \<open>Userland.user_env\<close>.

  \<^bold>\<open>The specification.\<close> \<open>Tree\<close> says what the file system is to its users: directories as maps from names to
  inodes, files as byte sequences, and a step relation \<open>tree_step\<close> for every call. \<open>Consistent\<close> says when a
  state of the module represents such a tree (every directory, file, block and inode accounted
  for). \<open>System\<close> proves that from the partition mkfs wrote on, whatever calls the VFS makes, the module
  stays in states that represent a tree and changes it as the steps allow (C1,
  C2), that no block is lost or shared and the metadata blocks stay untouched
  (C3), and that all calls return but two that overrun memory (C4); \<open>Persist\<close> proves that
  an unmount and a mount keep the tree (C5). The proof of refinement
  is an instance of the locale \<open>simulation\<close> of \<open>Simulation\<close>.

  \<^bold>\<open>The theories\<close>, and the code they model.
  \<^item> \<open>Prelude\<close>: C integer conversions, checked arrays, byte copies, blocks of equal length as one array.
  \<^item> \<open>Entry\<close> (bitmap.h, ouichefs.h): the index entry and its accessors; C40.
  \<^item> \<open>Disk\<close>: buffers and medium, user copies, structures laid over a block (locale \<open>block_view\<close>,
    interpreted for index and directory blocks).
  \<^item> \<open>Bitmap\<close> (bitmap.h): the two allocators; locales \<open>bit_array\<close>, \<open>id_pool\<close> and \<open>allocator\<close>, interpreted for
    the bitmap, the free inodes and the free blocks.
  \<^item> \<open>Vfs\<close>: inodes, open files, the state, the invariant of fragmented files (\<open>file_wf\<close>, \<open>files_wf\<close>), the
    footprint of an operation on a file (\<open>file_frame\<close>) and the rule by which it keeps all other files.
  \<^item> \<open>Cursor\<close> (\<open>find_block_pos\<close> of file.c), \<open>Read\<close> (read.c), \<open>Write\<close> (write.c): the operations on regular files.
  \<^item> \<open>Reserve\<close>, \<open>Insert\<close>, \<open>LightWrite\<close>: the light write inside the file inserts (C6), reaches the
    medium (C7), refuses without a change when there is no space
    (C8), and fails at the end of a full block (C9).
  \<^item> \<open>LightRead\<close>: the light read returns the content (C10) and stops early at the end of a
    fragment (C11).
  \<^item> \<open>Defrag\<close> (defrag.c): the defragmentation ends and keeps all contents (C14), leaves no
    padding (C15), and does not end on plain files (C16).
  \<^item> \<open>FileOps\<close> (file.c): block mapping (C17), opening with truncation (C18).
  \<^item> \<open>Layout\<close>, \<open>Super\<close> (ouichefs.h, super.c, \<open>ouichefs_iget\<close>): write-back and reading of inodes
    (C19), sync and mount.
  \<^item> \<open>Dirs\<close>, \<open>DirProps\<close>, \<open>Rename\<close> (inode.c, dir.c): create and lookup (C20,
    C21), unlink (C22), rename (C36).
  \<^item> \<open>Fill\<close>: the light write beyond the end of the file (C23, C24).
  \<^item> \<open>Simulation\<close>, \<open>Sessions\<close>: runs of a step relation; sequences of calls on files refine steps on byte
    sequences, every call returns but one; reading after a defragmentation (C25).
  \<^item> \<open>Tree\<close>, \<open>Consistent\<close>, \<open>System\<close>: the specification above and its refinement.
  \<^item> \<open>Persist\<close>: what the kernel calls when a partition is unmounted (\<open>ouichefs_write_inode\<close> for the
    inodes, \<open>ouichefs_sync_fs\<close>, the remaining buffers) and mounted again (\<open>ouichefs_fill_super\<close>,
    \<open>ouichefs_iget\<close>).
  \<^item> \<open>Mkfs\<close> (mkfs-ouichefs.c): what the tool writes can be mounted (C26), its bound
    (C27).
  \<^item> \<open>Ioctl\<close> (ioctl.c, ioctl.h): the three commands (C28, C29, C30).
  \<^item> \<open>Kmodule\<close> (fs.c, debug.h, inode cache of super.c): selection of the functions (C31; locale \<open>selector\<close>,
    interpreted for the read and the write file), loading and its error paths (C32).
  \<^item> \<open>Plain\<close>: the plain read (C33, C34) and the plain write
    (C35), over the invariant of plain files.
  \<^item> \<open>Userland\<close> (utils.h): system calls of a process, helpers of tests and benchmarks; the buffers of numbers
    (C37), restoring the selected functions (C38).
  \<^item> \<open>Bench\<close> (bench_insert.c, bench.c, demo.c): inserting by plain calls and by the light write is the same
    (C12), what the demonstration shows (C13), arrays that are overrun
    (C39).
  \<^item> \<open>Demo\<close>: a small partition on which the theorems are instantiated.

  \<^bold>\<open>Termination and bounds.\<close> All loops are total functions with a measure, but for the first pass of the
  defragmentation, which can run forever: it is a partial function into \<open>option\<close>, proved to return
  on well-formed files and not to return on plain ones. No fuel is used. Sizes and positions are
  bounded by the limit of 4 MiB per file that the code checks, block numbers by the 19 bits of an
  entry (\<open>nr_blocks \<le> 2 ^ 19\<close>); the wrap-around of 32-bit and 64-bit C arithmetic is written out
  where a value can leave its width.

  \<^bold>\<open>Hypotheses on the environment.\<close> The contracts of the data path assume that blocks of the partition
  can be read and user copies do not fault (\<open>disk_ok\<close>, \<open>io_ok\<close>), those of the defragmentation that
  \<open>memcpy\<close> copies upwards (\<open>ascending_memcpy\<close>), those of mounting that the kernel returns new inodes. The
  theorems on the whole system assume all of this (\<open>env_ok\<close>, \<open>sys_env\<close>, where a new inode also keeps the
  type it is asked for) and that the VFS passes names of existing entries or new ones (\<open>vfs_call\<close>). The
  failing branches are part of the definitions.

  \<^bold>\<open>Not modelled.\<close> Reference counts of buffers and inodes (\<open>brelse\<close>, \<open>iput\<close>) and kernel memory
  (\<open>kfree\<close>, \<open>ouichefs_put_super\<close>): they do not change what is stored. The page cache, to which
  \<open>ouichefs_read_folio\<close>, \<open>ouichefs_readahead\<close> and \<open>ouichefs_writepage\<close> pass the block mapping. Locking: the code takes no
  locks of its own, calls are modelled as atomic. Dentries and path lookup. The test programs of
  src/src/user (test.c, test_insert.c, test_cached.c): they run the modelled calls and assertions on
  fixed buffers.
\<close>

end
